(* ===== verification/Prelude.thy ===== *)
theory Prelude
  imports Main "HOL-Library.Word"
begin

text \<open>
  Shared vocabulary of the development: the machine integers of the Rust sources as words,
  time as the standard library counts it (a \<open>Duration\<close> is a number of nanoseconds up to
  \<open>Duration::MAX\<close>, an \<open>Instant\<close> a reading of the monotonic clock, a \<open>SystemTime\<close> a signed
  number of nanoseconds since the Unix epoch), the first-match edits on vectors that the
  sources write with \<open>iter().find\<close>, \<open>iter_mut().find\<close>, \<open>iter().position\<close> and
  \<open>Vec::remove\<close>, and decimal text.
\<close>


section \<open>Machine integers\<close>

type_synonym u32 = "32 word"
type_synonym u64 = "64 word"

definition saturating_add32 :: "u32 \<Rightarrow> u32 \<Rightarrow> u32" where
  "saturating_add32 a b = (if unat a + unat b < 2 ^ 32 then a + b else - 1)"

definition saturating_sub32 :: "u32 \<Rightarrow> u32 \<Rightarrow> u32" where
  "saturating_sub32 a b = (if b \<le> a then a - b else 0)"

text \<open>\<open>2u32.checked_pow(e)\<close>: the power fits 32 bits exactly for exponents below 32.\<close>

definition checked_pow2 :: "u32 \<Rightarrow> u32 option" where
  "checked_pow2 e = (if unat e < 32 then Some (2 ^ unat e) else None)"

text \<open>\<open>NonZeroU32::new\<close>. A \<open>NonZeroU32\<close> is kept as its word.\<close>

definition nonzero_u32 :: "u32 \<Rightarrow> u32 option" where
  "nonzero_u32 v = (if v = 0 then None else Some v)"

lemma unat_lt_2p32: "unat (a::u32) < 2 ^ 32"
  using unsigned_less [of a] by simp

lemma unat_saturating_add32: "unat (saturating_add32 a b) = min (unat a + unat b) (2 ^ 32 - 1)"
proof (cases "unat a + unat b < 2 ^ 32")
  case True
  then have "unat (a + b) = unat a + unat b"
    by (simp add: unat_add_lem [THEN iffD1])
  with True show ?thesis by (simp add: saturating_add32_def)
next
  case False
  then show ?thesis by (simp add: saturating_add32_def unsigned_minus_1_eq_mask mask_eq_exp_minus_1)
qed

lemma saturating_add32_one_neq_0 [simp]: "saturating_add32 1 a \<noteq> 0"
proof -
  have "unat (saturating_add32 1 a) \<noteq> 0"
    by (simp add: unat_saturating_add32)
  then show ?thesis by (metis unat_0)
qed

lemma unat_two_power: "n < 32 \<Longrightarrow> unat ((2::u32) ^ n) = 2 ^ n"
proof -
  assume "n < 32"
  then have "(2::nat) ^ n < 2 ^ LENGTH(32)"
    by (intro power_strict_increasing) simp_all
  then have "unat (of_nat (2 ^ n) :: u32) = 2 ^ n"
    by (simp only: unat_of_nat mod_less)
  then show ?thesis by simp
qed

section \<open>Time\<close>

type_synonym duration = nat
type_synonym instant = nat
type_synonym system_time = int

definition nanos_per_sec :: nat where
  "nanos_per_sec = 1000000000"

definition duration_max :: duration where
  "duration_max = (2 ^ 64 - 1) * nanos_per_sec + 999999999"

definition duration_saturating_mul :: "duration \<Rightarrow> u32 \<Rightarrow> duration" where
  "duration_saturating_mul d k = min (d * unat k) duration_max"

definition as_secs :: "duration \<Rightarrow> nat" where
  "as_secs d = d div nanos_per_sec"

text \<open>\<open>Instant::saturating_duration_since\<close>: zero when \<open>since\<close> is later.\<close>

definition saturating_duration_since :: "instant \<Rightarrow> instant \<Rightarrow> duration" where
  "saturating_duration_since t since = t - since"

text \<open>
  \<open>SystemTime::checked_add\<close> on a Unix host, whose clock keeps its seconds in an \<open>i64\<close>:
  no time is named past the last second it can hold.
\<close>

definition system_time_checked_add :: "system_time \<Rightarrow> duration \<Rightarrow> system_time option" where
  "system_time_checked_add t d =
     (let s = t + int d in if s div int nanos_per_sec < 2 ^ 63 then Some s else None)"

section \<open>First-match edits of a vector\<close>

text \<open>\<open>iter_mut().find(p)\<close> followed by an edit of the element found.\<close>

fun update_first :: "('a \<Rightarrow> bool) \<Rightarrow> ('a \<Rightarrow> 'a) \<Rightarrow> 'a list \<Rightarrow> 'a list" where
  "update_first p f [] = []"
| "update_first p f (x # xs) = (if p x then f x # xs else x # update_first p f xs)"

text \<open>\<open>iter().position(p)\<close> followed by \<open>Vec::remove\<close>.\<close>

fun remove_first :: "('a \<Rightarrow> bool) \<Rightarrow> 'a list \<Rightarrow> 'a list" where
  "remove_first p [] = []"
| "remove_first p (x # xs) = (if p x then xs else x # remove_first p xs)"

lemma find_SomeD: "find p xs = Some x \<Longrightarrow> p x \<and> x \<in> set xs"
  by (induction xs) (auto split: if_splits)

lemma find_Some_p [dest]: "find p xs = Some x \<Longrightarrow> p x"
  by (auto dest: find_SomeD)

lemma find_Some_in: "find p xs = Some x \<Longrightarrow> x \<in> set xs"
  by (auto dest: find_SomeD)

lemma find_split:
  assumes "find p xs = Some x"
  obtains ys zs where "xs = ys @ x # zs" "\<forall>y\<in>set ys. \<not> p y" "p x"
    "\<And>f. update_first p f xs = ys @ f x # zs" "remove_first p xs = ys @ zs"
proof -
  have "\<exists>ys zs. xs = ys @ x # zs \<and> (\<forall>y\<in>set ys. \<not> p y) \<and> p x \<and>
      (\<forall>f. update_first p f xs = ys @ f x # zs) \<and> remove_first p xs = ys @ zs"
    using assms
  proof (induction xs)
    case (Cons a xs)
    show ?case
    proof (cases "p a")
      case True
      with Cons.prems show ?thesis by (intro exI [of _ "[]"] exI [of _ xs]) auto
    next
      case False
      with Cons obtain ys zs where "xs = ys @ x # zs" "\<forall>y\<in>set ys. \<not> p y" "p x"
        "\<forall>f. update_first p f xs = ys @ f x # zs" "remove_first p xs = ys @ zs"
        by auto
      with False show ?thesis by (intro exI [of _ "a # ys"] exI [of _ zs]) auto
    qed
  qed simp
  with that show thesis by blast
qed

lemma length_update_first [simp]: "length (update_first p f xs) = length xs"
  by (induction xs) auto

lemma map_update_first_keep:
  "(\<And>x. p x \<Longrightarrow> g (f x) = g x) \<Longrightarrow> map g (update_first p f xs) = map g xs"
  by (induction xs) auto

lemma set_update_firstD:
  "y \<in> set (update_first p f xs) \<Longrightarrow> y \<in> set xs \<or> (\<exists>x \<in> set xs. p x \<and> y = f x)"
  by (induction xs) (auto split: if_splits)

lemma set_update_first_find:
  "y \<in> set (update_first p f xs) \<Longrightarrow> y \<in> set xs \<or> (\<exists>x. find p xs = Some x \<and> y = f x)"
  by (induction xs) (auto split: if_splits)

lemma update_first_None: "find p xs = None \<Longrightarrow> update_first p f xs = xs"
  by (induction xs) (auto split: if_splits)

lemma find_update_first_same:
  assumes "\<And>x. p x \<Longrightarrow> p (f x)"
  shows "find p (update_first p f xs) = map_option f (find p xs)"
  using assms by (induction xs) auto

lemma find_update_first_other:
  assumes "\<And>x. p x \<Longrightarrow> \<not> q x \<and> \<not> q (f x)"
  shows "find q (update_first p f xs) = find q xs"
  using assms by (induction xs) auto

lemma set_remove_first: "set (remove_first p xs) \<subseteq> set xs"
  by (induction xs) auto

lemma remove_first_notin [dest]: "y \<in> set (remove_first p xs) \<Longrightarrow> y \<in> set xs"
  using set_remove_first by fast

lemma map_remove_first_subset: "set (map g (remove_first p xs)) \<subseteq> set (map g xs)"
  by (auto dest: remove_first_notin)

lemma distinct_map_remove_first: "distinct (map g xs) \<Longrightarrow> distinct (map g (remove_first p xs))"
  by (induction xs) (auto dest: remove_first_notin)

lemma find_remove_first_distinct:
  assumes "distinct (map g xs)"
  shows "find (\<lambda>x. g x = k) (remove_first (\<lambda>x. g x = k \<and> q x) xs) =
           (case find (\<lambda>x. g x = k) xs of
              Some x \<Rightarrow> if q x then None else Some x | None \<Rightarrow> None)"
  using assms
proof (induction xs)
  case Nil
  then show ?case by simp
next
  case (Cons x xs)
  show ?case
  proof (cases "g x = k")
    case True
    with Cons.prems have "find (\<lambda>x. g x = k) xs = None"
      by (auto simp: find_None_iff image_iff)
    with True show ?thesis by simp
  next
    case False
    with Cons show ?thesis by simp
  qed
qed

lemma find_remove_first_other:
  "(\<And>x. p x \<Longrightarrow> \<not> q x) \<Longrightarrow> find q (remove_first p xs) = find q xs"
  by (induction xs) auto

lemma distinct_map_find:
  "distinct (map g xs) \<Longrightarrow> x \<in> set xs \<Longrightarrow> find (\<lambda>y. g y = g x) xs = Some x"
  by (induction xs) (auto simp: image_iff)

section \<open>Results\<close>

lemma map_sum_Inr_conv [simp]: "map_sum f g r = Inr y \<longleftrightarrow> (\<exists>x. r = Inr x \<and> y = g x)"
  by (cases r) auto

lemma map_sum_Inl_conv [simp]: "map_sum f g r = Inl y \<longleftrightarrow> (\<exists>x. r = Inl x \<and> y = f x)"
  by (cases r) auto

section \<open>Decimal text\<close>

definition digit_char :: "nat \<Rightarrow> char" where
  "digit_char d = char_of (48 + d)"

definition digit_val :: "char \<Rightarrow> nat option" where
  "digit_val c = (let n = of_char c :: nat in if 48 \<le> n \<and> n \<le> 57 then Some (n - 48) else None)"

text \<open>The decimal text of a number, as \<open>Display\<close> prints an unsigned integer.\<close>

fun show_nat :: "nat \<Rightarrow> string" where
  "show_nat n = (if n < 10 then [digit_char n] else show_nat (n div 10) @ [digit_char (n mod 10)])"

declare show_nat.simps [simp del]

fun read_digits :: "nat \<Rightarrow> string \<Rightarrow> nat option" where
  "read_digits acc [] = Some acc"
| "read_digits acc (c # cs) =
     (case digit_val c of None \<Rightarrow> None | Some d \<Rightarrow> read_digits (10 * acc + d) cs)"

text \<open>
  \<open>str::parse::<u32>\<close>: an optional \<open>+\<close>, then one digit or more, and no overflow. The
  overflow check of the library is made digit by digit; it refuses exactly the texts whose
  value is over \<open>u32::MAX\<close>.
\<close>

definition parse_u32 :: "string \<Rightarrow> u32 option" where
  "parse_u32 s =
     (let ds = (case s of [] \<Rightarrow> [] | c # cs \<Rightarrow> if c = CHR ''+'' then cs else s)
      in if ds = [] then None
         else (case read_digits 0 ds of
                 None \<Rightarrow> None
               | Some n \<Rightarrow> if n < 2 ^ 32 then Some (of_nat n) else None))"

lemma digit_val_digit_char [simp]: "d < 10 \<Longrightarrow> digit_val (digit_char d) = Some d"
  by (simp add: digit_val_def digit_char_def)

lemma read_digits_append:
  "read_digits acc (xs @ ys) = Option.bind (read_digits acc xs) (\<lambda>a. read_digits a ys)"
  by (induction acc xs rule: read_digits.induct) (auto split: option.splits)

lemma read_digits_show_nat: "read_digits 0 (show_nat n) = Some n"
proof (induction n rule: show_nat.induct)
  case (1 n)
  show ?case
  proof (cases "n < 10")
    case True
    then show ?thesis by (simp add: show_nat.simps [of n])
  next
    case False
    with "1.IH" have "read_digits 0 (show_nat (n div 10)) = Some (n div 10)" by simp
    with False show ?thesis
      by (simp add: show_nat.simps [of n] read_digits_append)
  qed
qed

lemma show_nat_Cons: "\<exists>c cs. show_nat n = c # cs \<and> digit_val c \<noteq> None"
proof (induction n rule: show_nat.induct)
  case (1 n)
  show ?case
  proof (cases "n < 10")
    case True
    then show ?thesis by (auto simp: show_nat.simps [of n])
  next
    case False
    with "1.IH" show ?thesis by (auto simp: show_nat.simps [of n])
  qed
qed

lemma parse_show_u32: "parse_u32 (show_nat (unat v)) = Some v"
proof -
  obtain c cs where c: "show_nat (unat v) = c # cs" and d: "digit_val c \<noteq> None"
    using show_nat_Cons by blast
  from d have "c \<noteq> CHR ''+''" by (auto simp: digit_val_def)
  with c have "parse_u32 (show_nat (unat v)) =
      (case read_digits 0 (show_nat (unat v)) of
         None \<Rightarrow> None | Some n \<Rightarrow> if n < 2 ^ 32 then Some (of_nat n) else None)"
    by (simp add: parse_u32_def)
  then show ?thesis using unat_lt_2p32 [of v] by (simp add: read_digits_show_nat)
qed

end
