(* ===== verification/Restart_Policy.thy ===== *)
theory Restart_Policy
  imports Prelude
begin

text \<open>
  The restart policy of an instance: \<open>peppy-config-model/src/node/restart.rs\<close> (the values a
  level writes, their text and their refusals) and
  \<open>daemon-config-internal/src/launcher/restart.rs\<close> (which of the four levels decides). The
  theorems are the round trips of the spellings, that no way to a declaration yields a cap on
  \<open>never\<close>, and that the first level that wrote a policy decides it whole.
\<close>

section \<open>Policies\<close>

datatype restart_policy = Never | OnFailure | Always

datatype parsing_error =
    InvalidRestartPolicy string
  | InvalidMaxRestarts string string
  | RestartNeedsPolicy
  | MaxRestartsWithNever
  | UnknownRestartOrigin string

fun policy_as_str :: "restart_policy \<Rightarrow> string" where
  "policy_as_str Never = ''never''"
| "policy_as_str OnFailure = ''on_failure''"
| "policy_as_str Always = ''always''"

fun restarts_after_failure :: "restart_policy \<Rightarrow> bool" where
  "restarts_after_failure p = (p = OnFailure \<or> p = Always)"

fun restarts_after_clean_exit :: "restart_policy \<Rightarrow> bool" where
  "restarts_after_clean_exit p = (p = Always)"

definition policy_from_str :: "string \<Rightarrow> parsing_error + restart_policy" where
  "policy_from_str s =
     (if s = ''never'' then Inr Never
      else if s = ''on_failure'' then Inr OnFailure
      else if s = ''always'' then Inr Always
      else Inl (InvalidRestartPolicy s))"

section \<open>Declarations\<close>

record restart_declaration =
  policy :: restart_policy
  max_restarts :: "u32 option"

definition parse_max_restarts :: "string \<Rightarrow> string \<Rightarrow> parsing_error + u32" where
  "parse_max_restarts key v =
     (case Option.bind (parse_u32 v) nonzero_u32 of
        Some n \<Rightarrow> Inr n
      | None \<Rightarrow> Inl (InvalidMaxRestarts key v))"

definition declaration_new ::
    "restart_policy \<Rightarrow> u32 option \<Rightarrow> parsing_error + restart_declaration" where
  "declaration_new p m =
     (if m \<noteq> None \<and> p = Never then Inl MaxRestartsWithNever
      else Inr \<lparr>policy = p, max_restarts = m\<rparr>)"

definition policy_only :: "restart_policy \<Rightarrow> restart_declaration" where
  "policy_only p = \<lparr>policy = p, max_restarts = None\<rparr>"

definition launcher_spelling :: "restart_declaration \<Rightarrow> string" where
  "launcher_spelling d =
     (case max_restarts d of
        None \<Rightarrow> CHR 0x22 # policy_as_str (policy d) @ [CHR 0x22]
      | Some m \<Rightarrow> ''{ policy: '' @ CHR 0x22 # policy_as_str (policy d) @ CHR 0x22 #
                   '', max_restarts: '' @ show_nat (unat m) @ '' }'')"

definition declaration_display :: "restart_declaration \<Rightarrow> string" where
  "declaration_display d =
     policy_as_str (policy d) @
     (case max_restarts d of
        None \<Rightarrow> '''' | Some m \<Rightarrow> '', max_restarts '' @ show_nat (unat m))"

subsection \<open>The serialized form\<close>

text \<open>
  What the serializer emits and the deserializer is handed, after the format library has read
  it: a string, or a map with at most the keys \<open>policy\<close> and \<open>max_restarts\<close> (the \<open>Raw\<close>
  structure, which refuses any other key). A scalar under \<open>max_restarts\<close> is kept as its
  text by \<open>CountVisitor\<close>; \<open>JFloat\<close> carries the text \<open>format!("{value:?}")\<close> gives for it.
\<close>

datatype scalar = JInt int | JUint nat | JFloat string | JString string | JBool bool

datatype restart_form =
    Form_Str string
  | Form_Map "string option" "scalar option"

definition show_int :: "int \<Rightarrow> string" where
  "show_int i = (if i < 0 then CHR ''-'' # show_nat (nat (- i)) else show_nat (nat i))"

fun count_text :: "scalar \<Rightarrow> string" where
  "count_text (JInt i) = show_int i"
| "count_text (JUint n) = show_nat n"
| "count_text (JFloat t) = t"
| "count_text (JString s) = CHR 0x22 # s @ [CHR 0x22]"
| "count_text (JBool b) = (if b then ''true'' else ''false'')"

definition serialize_declaration :: "restart_declaration \<Rightarrow> restart_form" where
  "serialize_declaration d =
     (case max_restarts d of
        None \<Rightarrow> Form_Str (policy_as_str (policy d))
      | Some m \<Rightarrow> Form_Map (Some (policy_as_str (policy d))) (Some (JUint (unat m))))"

definition visit_declaration_str :: "string \<Rightarrow> parsing_error + restart_declaration" where
  "visit_declaration_str s =
     (case policy_from_str s of Inl e \<Rightarrow> Inl e | Inr p \<Rightarrow> Inr (policy_only p))"

definition visit_declaration_map ::
    "string option \<Rightarrow> scalar option \<Rightarrow> parsing_error + restart_declaration" where
  "visit_declaration_map raw_policy raw_max =
     (case (case raw_policy of None \<Rightarrow> Inr None | Some s \<Rightarrow> map_sum id Some (policy_from_str s)) of
        Inl e \<Rightarrow> Inl e
      | Inr None \<Rightarrow> Inl RestartNeedsPolicy
      | Inr (Some p) \<Rightarrow>
          (case (case raw_max of
                   None \<Rightarrow> Inr None
                 | Some c \<Rightarrow> map_sum id Some (parse_max_restarts ''max_restarts'' (count_text c))) of
             Inl e \<Rightarrow> Inl e
           | Inr m \<Rightarrow> declaration_new p m))"

fun deserialize_declaration :: "restart_form \<Rightarrow> parsing_error + restart_declaration" where
  "deserialize_declaration (Form_Str s) = visit_declaration_str s"
| "deserialize_declaration (Form_Map p m) = visit_declaration_map p m"

section \<open>Origins and requests\<close>

datatype restart_origin = Instance | Flag | Node | LauncherRoot | Default

fun origin_as_str :: "restart_origin \<Rightarrow> string" where
  "origin_as_str Instance = ''instance''"
| "origin_as_str Flag = ''flag''"
| "origin_as_str Node = ''node''"
| "origin_as_str LauncherRoot = ''launcher_root''"
| "origin_as_str Default = ''default''"

fun origin_describe :: "restart_origin \<Rightarrow> string" where
  "origin_describe Instance = ''instance entry''"
| "origin_describe Flag = ''--restart''"
| "origin_describe Node = ''peppy.json5''"
| "origin_describe LauncherRoot = ''launcher root''"
| "origin_describe Default = ''default''"

definition origin_from_str :: "string \<Rightarrow> parsing_error + restart_origin" where
  "origin_from_str s =
     (if s = ''instance'' then Inr Instance
      else if s = ''flag'' then Inr Flag
      else if s = ''node'' then Inr Node
      else if s = ''launcher_root'' then Inr LauncherRoot
      else if s = ''default'' then Inr Default
      else Inl (UnknownRestartOrigin s))"

record resolved_restart =
  restart_decl :: restart_declaration
  restart_org :: restart_origin

text \<open>\<open>#[default]\<close> on \<open>RestartPolicy\<close>, \<open>RestartDeclaration\<close>, \<open>RestartOrigin\<close>.\<close>

definition default_resolved :: resolved_restart where
  "default_resolved = \<lparr>restart_decl = policy_only OnFailure, restart_org = Default\<rparr>"

datatype restart_request =
    Unset
  | ReqInstance restart_declaration
  | ReqFlag restart_declaration
  | ReqLauncherRoot restart_declaration

fun written :: "restart_request \<Rightarrow> resolved_restart option" where
  "written Unset = None"
| "written (ReqInstance d) = Some \<lparr>restart_decl = d, restart_org = Instance\<rparr>"
| "written (ReqFlag d) = Some \<lparr>restart_decl = d, restart_org = Flag\<rparr>"
| "written (ReqLauncherRoot d) = Some \<lparr>restart_decl = d, restart_org = LauncherRoot\<rparr>"

definition resolved_display :: "resolved_restart \<Rightarrow> string" where
  "resolved_display r =
     declaration_display (restart_decl r) @ '' ('' @ origin_describe (restart_org r) @ '')''"

section \<open>Which level decides\<close>

definition option_or :: "'a option \<Rightarrow> 'a option \<Rightarrow> 'a option" where
  "option_or x y = (case x of None \<Rightarrow> y | Some v \<Rightarrow> Some v)"

text \<open>
  \<open>restart_request_of\<close>: the instance entry's \<open>framework.restart\<close> first, then the launcher
  root's.
\<close>

definition restart_request_of ::
    "restart_declaration option \<Rightarrow> restart_declaration option \<Rightarrow> restart_request" where
  "restart_request_of root entry =
     (case option_or (map_option ReqInstance entry) (map_option ReqLauncherRoot root) of
        None \<Rightarrow> Unset | Some r \<Rightarrow> r)"

fun instance_restart :: "restart_request \<Rightarrow> resolved_restart option" where
  "instance_restart (ReqInstance d) = written (ReqInstance d)"
| "instance_restart (ReqFlag d) = written (ReqFlag d)"
| "instance_restart (ReqLauncherRoot d) = None"
| "instance_restart Unset = None"

definition resolve_restart ::
    "restart_request \<Rightarrow> restart_declaration option \<Rightarrow> resolved_restart" where
  "resolve_restart request node_declaration =
     (let node = map_option (\<lambda>d. \<lparr>restart_decl = d, restart_org = Node\<rparr>) node_declaration
      in case option_or (option_or (instance_restart request) node) (written request) of
           None \<Rightarrow> default_resolved | Some r \<Rightarrow> r)"

section \<open>Round trips and refusals\<close>

text \<open>A declaration the constructors can make: a cap is positive and never beside \<open>never\<close>.\<close>

definition valid_declaration :: "restart_declaration \<Rightarrow> bool" where
  "valid_declaration d \<longleftrightarrow>
     (case max_restarts d of None \<Rightarrow> True | Some m \<Rightarrow> m \<noteq> 0 \<and> policy d \<noteq> Never)"

lemma policy_from_as_str [simp]: "policy_from_str (policy_as_str p) = Inr p"
  by (cases p) (simp_all add: policy_from_str_def)

lemma policy_from_str_only: "policy_from_str s = Inr p \<Longrightarrow> s = policy_as_str p"
  by (auto simp: policy_from_str_def split: if_splits)

lemma origin_from_as_str [simp]: "origin_from_str (origin_as_str q) = Inr q"
  by (cases q) (simp_all add: origin_from_str_def)

lemma parse_max_restarts_nonzero: "parse_max_restarts k v = Inr n \<Longrightarrow> n \<noteq> 0"
  by (auto simp: parse_max_restarts_def nonzero_u32_def bind_eq_Some_conv
      split: option.splits if_splits)

lemma parse_max_restarts_show: "m \<noteq> 0 \<Longrightarrow> parse_max_restarts k (show_nat (unat m)) = Inr m"
  by (simp add: parse_max_restarts_def parse_show_u32 nonzero_u32_def)

lemma declaration_new_valid:
  "declaration_new p m = Inr d \<Longrightarrow> m \<noteq> Some 0 \<Longrightarrow> valid_declaration d"
  by (auto simp: declaration_new_def valid_declaration_def split: if_splits option.splits)

lemma policy_only_valid [simp]: "valid_declaration (policy_only p)"
  by (simp add: valid_declaration_def policy_only_def)

lemma visit_declaration_map_valid:
  "visit_declaration_map rp rm = Inr d \<Longrightarrow> valid_declaration d"
  unfolding visit_declaration_map_def
  by (auto split: sum.splits option.splits
      dest!: declaration_new_valid parse_max_restarts_nonzero)

lemma serialize_roundtrip:
  assumes "valid_declaration d"
  shows "deserialize_declaration (serialize_declaration d) = Inr d"
proof (cases "max_restarts d")
  case None
  then show ?thesis
    by (simp add: serialize_declaration_def visit_declaration_str_def policy_only_def)
next
  case (Some m)
  with assms have "m \<noteq> 0" and "policy d \<noteq> Never"
    by (simp_all add: valid_declaration_def)
  with Some show ?thesis
    by (simp add: serialize_declaration_def visit_declaration_map_def parse_max_restarts_show
        declaration_new_def)
qed

lemma deserialize_valid: "deserialize_declaration f = Inr d \<Longrightarrow> valid_declaration d"
  by (cases f) (auto simp: visit_declaration_str_def visit_declaration_map_valid split: sum.splits)


text \<open>
  C38: the serialized form of a restart declaration is faithful and guarded. A declaration round-trips
  through its serialized form exactly when its cap is positive and not beside \<open>never\<close>, and those are
  all the declarations any form deserializes to.
\<close>

theorem restart_declaration_roundtrip:
  "(deserialize_declaration (serialize_declaration d) = Inr d \<longleftrightarrow> valid_declaration d) \<and>
   ((\<exists>f. deserialize_declaration f = Inr d) \<longleftrightarrow> valid_declaration d)"
  using serialize_roundtrip deserialize_valid by blast

text \<open>
  C39: one level decides the restart policy whole. The instance entry is first, then the node's own
  manifest, then the launcher root, then the default; a \<open>--restart\<close> flag outranks the manifest as an
  instance entry does.
\<close>

theorem resolve_restart_levels:
  "resolve_restart (restart_request_of root entry) node =
     (case entry of
        Some d \<Rightarrow> \<lparr>restart_decl = d, restart_org = Instance\<rparr>
      | None \<Rightarrow>
          (case node of
             Some d \<Rightarrow> \<lparr>restart_decl = d, restart_org = Node\<rparr>
           | None \<Rightarrow>
               (case root of
                  Some d \<Rightarrow> \<lparr>restart_decl = d, restart_org = LauncherRoot\<rparr>
                | None \<Rightarrow> default_resolved))) \<and>
   resolve_restart (ReqFlag d) node = \<lparr>restart_decl = d, restart_org = Flag\<rparr>"
  by (simp add: resolve_restart_def restart_request_of_def option_or_def split: option.split)

end
