(* ===== verification/Runtime_Types.thy ===== *)
theory Runtime_Types
  imports Restart_Policy
begin

text \<open>
  The data the daemon, the launcher and the nodes exchange about an instance: producer
  addresses and the duplicate-free sets a consumer slot binds
  (\<open>peppy-config-model/src/runtime.rs\<close>), cardinalities (\<open>node/types.rs\<close>), clock bindings
  (\<open>runtime/clock.rs\<close>), the states and exits of an instance (\<open>core-node-api/src/graph.rs\<close>) and
  the goal a node is run from (\<open>core-node-api/src/encoding/node/run.rs\<close>). A \<open>BTreeMap\<close> whose
  order no modelled code reads is a HOL map.
\<close>

section \<open>Producers\<close>

record producer_ref =
  pr_core_node :: string
  pr_instance_id :: string

record copy_tag =
  ct_name :: string
  ct_instance_id :: string

record bound_member =
  bm_producer :: producer_ref
  bm_copy :: "copy_tag option"

type_synonym bound_producers = "bound_member list"
type_synonym slot_bindings = "string \<rightharpoonup> bound_producers"

text \<open>\<open>first_duplicate\<close>: the first item that repeats one before it.\<close>

fun first_duplicate_from :: "'a list \<Rightarrow> 'a list \<Rightarrow> 'a option" where
  "first_duplicate_from seen [] = None"
| "first_duplicate_from seen (x # xs) =
     (if x \<in> set seen then Some x else first_duplicate_from (x # seen) xs)"

definition first_duplicate :: "'a list \<Rightarrow> 'a option" where
  "first_duplicate xs = first_duplicate_from [] xs"

datatype binding_error = DuplicateBoundProducer string string

definition bound_producers_try_from :: "bound_member list \<Rightarrow> binding_error + bound_producers" where
  "bound_producers_try_from members =
     (case first_duplicate (map bm_producer members) of
        Some d \<Rightarrow> Inl (DuplicateBoundProducer (pr_core_node d) (pr_instance_id d))
      | None \<Rightarrow> Inr members)"

lemma first_duplicate_from_None:
  "first_duplicate_from seen xs = None \<longleftrightarrow> distinct xs \<and> set xs \<inter> set seen = {}"
  by (induction seen xs rule: first_duplicate_from.induct) auto

lemma first_duplicate_None [simp]: "first_duplicate xs = None \<longleftrightarrow> distinct xs"
  by (simp add: first_duplicate_def first_duplicate_from_None)

lemma first_duplicate_from_Some:
  "first_duplicate_from seen xs = Some d \<Longrightarrow>
     \<exists>ys zs. xs = ys @ d # zs \<and> d \<in> set ys \<union> set seen \<and> distinct ys \<and> set ys \<inter> set seen = {}"
proof (induction seen xs rule: first_duplicate_from.induct)
  case (1 seen)
  then show ?case by simp
next
  case (2 seen x xs)
  show ?case
  proof (cases "x \<in> set seen")
    case True
    with "2.prems" have "x # xs = [] @ d # xs" and "d \<in> set seen" by simp_all
    then show ?thesis by force
  next
    case False
    with "2.prems" "2.IH" obtain ys zs where
      "xs = ys @ d # zs" "d \<in> set ys \<union> set (x # seen)" "distinct ys" "set ys \<inter> set (x # seen) = {}"
      by auto
    with False have "x # xs = (x # ys) @ d # zs \<and> d \<in> set (x # ys) \<union> set seen \<and>
        distinct (x # ys) \<and> set (x # ys) \<inter> set seen = {}"
      by auto
    then show ?thesis by blast
  qed
qed

section \<open>Cardinality\<close>

datatype cardinality = One | ZeroOrOne | OneOrMore | ZeroOrMore

fun is_scalar :: "cardinality \<Rightarrow> bool" where
  "is_scalar c = (c = One \<or> c = ZeroOrOne)"

fun admits_pairs :: "cardinality \<Rightarrow> nat \<Rightarrow> bool" where
  "admits_pairs One len = (len \<le> 1)"
| "admits_pairs ZeroOrOne len = (len \<le> 1)"
| "admits_pairs OneOrMore len = True"
| "admits_pairs ZeroOrMore len = True"

fun admits :: "cardinality \<Rightarrow> nat \<Rightarrow> bool" where
  "admits One len = (len = 1)"
| "admits ZeroOrOne len = (len \<le> 1)"
| "admits OneOrMore len = (len \<ge> 1)"
| "admits ZeroOrMore len = True"

section \<open>Clocks\<close>

record clock_domain_id =
  cd_name :: string
  cd_core_node :: string
  cd_incarnation :: u64

datatype clock_role = Publisher | Consumer producer_ref

datatype clock_binding = Wall | Sim clock_domain_id clock_role

fun clock_domain :: "clock_binding \<Rightarrow> clock_domain_id option" where
  "clock_domain Wall = None"
| "clock_domain (Sim d r) = Some d"

fun is_publisher :: "clock_binding \<Rightarrow> bool" where
  "is_publisher (Sim d Publisher) = True"
| "is_publisher b = False"

definition published_domain :: "clock_binding \<Rightarrow> clock_domain_id option" where
  "published_domain b =
     (case clock_domain b of
        Some d \<Rightarrow> if is_publisher b then Some d else None
      | None \<Rightarrow> None)"

section \<open>States and exits of an instance\<close>

datatype instance_state = Starting | Running | Restarting | Finished | Failed

fun state_as_str :: "instance_state \<Rightarrow> string" where
  "state_as_str Starting = ''starting''"
| "state_as_str Running = ''running''"
| "state_as_str Restarting = ''restarting''"
| "state_as_str Finished = ''finished''"
| "state_as_str Failed = ''failed''"

fun has_process :: "instance_state \<Rightarrow> bool" where
  "has_process s = (s = Starting \<or> s = Running)"

definition state_from_str :: "string \<Rightarrow> string + instance_state" where
  "state_from_str s =
     (if s = ''starting'' then Inr Starting
      else if s = ''running'' then Inr Running
      else if s = ''restarting'' then Inr Restarting
      else if s = ''finished'' then Inr Finished
      else if s = ''failed'' then Inr Failed
      else Inl s)"

lemma state_from_as_str [simp]: "state_from_str (state_as_str s) = Inr s"
  by (cases s) (simp_all add: state_from_str_def)

datatype exit_cause =
    Code int
  | Signal int "string option" bool
  | HealthKill nat
  | Message string

fun is_clean :: "exit_cause \<Rightarrow> bool" where
  "is_clean c = (c = Code 0)"

text \<open>\<open>unix_ms\<close>: a time before the epoch reads 0, one past \<open>u64::MAX\<close> milliseconds reads that.\<close>

definition unix_ms :: "system_time \<Rightarrow> u64" where
  "unix_ms t = (if t < 0 then 0
     else let ms = nat t div 1000000 in if ms < 2 ^ 64 then of_nat ms else - 1)"

section \<open>The goal of a run\<close>

record observed_peer =
  op_peer :: producer_ref
  op_peer_link_id :: string

record observation_target =
  ot_source :: producer_ref
  ot_source_link_id :: string
  ot_peer :: "observed_peer option"

type_synonym observation_targets = "observation_target list"

record duplicate_observation_target =
  do_observer_link_id :: string
  do_target :: observation_target

definition observation_targets_new ::
    "string \<Rightarrow> observation_target list \<Rightarrow> duplicate_observation_target + observation_targets" where
  "observation_targets_new observer_link_id targets =
     (case first_duplicate targets of
        Some d \<Rightarrow> Inl \<lparr>do_observer_link_id = observer_link_id, do_target = d\<rparr>
      | None \<Rightarrow> Inr targets)"

record remote_peer_pairing =
  rp_pairing_name :: string
  rp_pairing_tag :: string
  rp_peer_role :: string
  rp_peer_cardinality :: cardinality
  rp_peer_copy :: "string option"

record pair_target =
  pt_peer :: producer_ref
  pt_peer_link_id :: "string option"
  pt_remote_peer :: "remote_peer_pairing option"

datatype any_type =
    AnyNull
  | AnyBool bool
  | AnyString string
  | AnyArray "any_type list"
  | AnyObject "(string \<times> any_type) list"
  | AnyInt int
  | AnyUInt nat
  | AnyFloat string

record node_instance_plan =
  ip_instance_id :: string
  ip_copy :: "string option"
  ip_arguments :: "string \<rightharpoonup> any_type"
  ip_clock :: clock_binding
  ip_slot_bindings :: slot_bindings
  ip_daemon_scopes :: "string \<rightharpoonup> string"

definition instance_plan_new :: "string \<Rightarrow> node_instance_plan" where
  "instance_plan_new i =
     \<lparr>ip_instance_id = i, ip_copy = None, ip_arguments = Map.empty, ip_clock = Wall,
      ip_slot_bindings = Map.empty, ip_daemon_scopes = Map.empty\<rparr>"

record node_run_goal =
  instance_plan :: node_instance_plan
  manifest_sha256 :: "string option"
  node_name :: string
  node_tag :: string
  env_vars :: "(string \<times> string) list"
  timeout_secs :: u64
  requested_pairs :: "string \<rightharpoonup> pair_target list"
  vacant_pairs :: "string \<rightharpoonup> string"
  covered_pairs :: "string \<rightharpoonup> pair_target list"
  planned_observations :: "string \<rightharpoonup> observation_targets"
  launch_id :: "string option"
  lifecycle_watchers :: "string list"
  goal_restart :: restart_request

definition goal_new :: "node_instance_plan \<Rightarrow> string \<Rightarrow> string \<Rightarrow> u64 \<Rightarrow> node_run_goal" where
  "goal_new plan name tag timeout =
     \<lparr>instance_plan = plan, manifest_sha256 = None, node_name = name, node_tag = tag,
      env_vars = [], timeout_secs = timeout, requested_pairs = Map.empty,
      vacant_pairs = Map.empty, covered_pairs = Map.empty, planned_observations = Map.empty,
      launch_id = None, lifecycle_watchers = [], goal_restart = Unset\<rparr>"

definition for_respawn ::
    "node_run_goal \<Rightarrow> slot_bindings \<Rightarrow> (string \<rightharpoonup> observation_targets) \<Rightarrow> string list \<Rightarrow>
     node_run_goal" where
  "for_respawn g bindings observations watchers =
     g\<lparr>instance_plan := (instance_plan g)\<lparr>ip_slot_bindings := bindings\<rparr>,
       planned_observations := observations,
       lifecycle_watchers := watchers,
       requested_pairs := Map.empty,
       covered_pairs := Map.empty,
       vacant_pairs := Map.empty\<rparr>"

end
