(* ===== verification/Pairing.thy ===== *)
theory Pairing
  imports Runtime_Types
begin

text \<open>
  Pairs between pairing slots and the registry that holds them:
  \<open>node-stack-internal/src/node_stack/pairing.rs\<close>. The lemmas say what each registry operation
  finds, adds, drops and leaves.
\<close>

section \<open>Slots and planned pairs\<close>

record slot_addr =
  sa_core_node :: string
  sa_instance_id :: string
  sa_link_id :: string

definition is_on :: "slot_addr \<Rightarrow> string \<Rightarrow> bool" where
  "is_on s core_node \<longleftrightarrow> sa_core_node s = core_node"

definition slot_display :: "slot_addr \<Rightarrow> string" where
  "slot_display s = sa_core_node s @ ''/'' @ sa_instance_id s @ '':'' @ sa_link_id s"

record remote_slot_meta =
  rm_pairing_name :: string
  rm_pairing_tag :: string
  rm_role :: string
  rm_cardinality :: cardinality
  rm_copy :: "string option"

record planned_pair =
  own :: slot_addr
  peer :: slot_addr
  peer_remote_meta :: "remote_slot_meta option"

definition mirrored :: "planned_pair \<Rightarrow> planned_pair" where
  "mirrored p = \<lparr>own = peer p, peer = own p, peer_remote_meta = None\<rparr>"

definition local_ends :: "planned_pair \<Rightarrow> planned_pair list" where
  "local_ends p = (case peer_remote_meta p of Some _ \<Rightarrow> [p] | None \<Rightarrow> [p, mirrored p])"

section \<open>Established pairs\<close>

record pair_endpoint =
  pe_slot :: slot_addr
  pe_role :: string
  pe_copy :: "string option"

record pairing =
  pairing_name :: string
  pairing_tag :: string
  pair_a :: pair_endpoint
  pair_b :: pair_endpoint

definition endpoint :: "pairing \<Rightarrow> slot_addr \<Rightarrow> pair_endpoint option" where
  "endpoint p slot =
     (if pe_slot (pair_a p) = slot then Some (pair_a p)
      else if pe_slot (pair_b p) = slot then Some (pair_b p)
      else None)"

definition is_between :: "pairing \<Rightarrow> slot_addr \<Rightarrow> slot_addr \<Rightarrow> bool" where
  "is_between p a b \<longleftrightarrow> endpoint p a \<noteq> None \<and> endpoint p b \<noteq> None"

definition peer_of :: "pairing \<Rightarrow> slot_addr \<Rightarrow> pair_endpoint option" where
  "peer_of p slot =
     (if pe_slot (pair_a p) = slot then Some (pair_b p)
      else if pe_slot (pair_b p) = slot then Some (pair_a p)
      else None)"

definition involves :: "pairing \<Rightarrow> string \<Rightarrow> string \<Rightarrow> bool" where
  "involves p core_node instance_id \<longleftrightarrow>
     list_ex (\<lambda>e. sa_core_node (pe_slot e) = core_node \<and> sa_instance_id (pe_slot e) = instance_id)
       [pair_a p, pair_b p]"

definition has_live_local_endpoints :: "pairing \<Rightarrow> string \<Rightarrow> (string \<Rightarrow> bool) \<Rightarrow> bool" where
  "has_live_local_endpoints p local_core_node is_live \<longleftrightarrow>
     list_all (\<lambda>e. \<not> is_on (pe_slot e) local_core_node \<or> is_live (sa_instance_id (pe_slot e)))
       [pair_a p, pair_b p]"

section \<open>The registry\<close>

type_synonym pairing_registry = "pairing list"

definition find_by_slot :: "pairing_registry \<Rightarrow> slot_addr \<Rightarrow> pairing option" where
  "find_by_slot pairs slot = find (\<lambda>p. endpoint p slot \<noteq> None) pairs"

definition find_pair :: "pairing_registry \<Rightarrow> slot_addr \<Rightarrow> slot_addr \<Rightarrow> pairing option" where
  "find_pair pairs a b = find (\<lambda>p. is_between p a b) pairs"

definition registry_insert :: "pairing_registry \<Rightarrow> pairing \<Rightarrow> pairing_registry" where
  "registry_insert pairs p = pairs @ [p]"

definition remove_pair ::
    "pairing_registry \<Rightarrow> slot_addr \<Rightarrow> slot_addr \<Rightarrow> pairing option \<times> pairing_registry" where
  "remove_pair pairs a b =
     (case find (\<lambda>p. is_between p a b) pairs of
        None \<Rightarrow> (None, pairs)
      | Some p \<Rightarrow> (Some p, remove_first (\<lambda>p. is_between p a b) pairs))"

definition remove_for_instance ::
    "pairing_registry \<Rightarrow> string \<Rightarrow> string \<Rightarrow> pairing list \<times> pairing_registry" where
  "remove_for_instance pairs core_node instance_id =
     (filter (\<lambda>p. involves p core_node instance_id) pairs,
      filter (\<lambda>p. \<not> involves p core_node instance_id) pairs)"

definition prune_dead ::
    "pairing_registry \<Rightarrow> string \<Rightarrow> (string \<Rightarrow> bool) \<Rightarrow> pairing_registry" where
  "prune_dead pairs local_core_node is_live =
     filter (\<lambda>p. has_live_local_endpoints p local_core_node is_live) pairs"

section \<open>What the registry keeps\<close>

lemma mirrored_mirrored:
  "peer_remote_meta p = None \<Longrightarrow> mirrored (mirrored p) = p"
  by (simp add: mirrored_def)

lemma endpoint_iff: "endpoint p s \<noteq> None \<longleftrightarrow> s = pe_slot (pair_a p) \<or> s = pe_slot (pair_b p)"
  by (auto simp: endpoint_def)

lemma is_between_sym: "is_between p a b = is_between p b a"
  by (auto simp: is_between_def)

lemma is_between_distinct:
  "a \<noteq> b \<Longrightarrow> is_between p a b \<longleftrightarrow>
     (pe_slot (pair_a p) = a \<and> pe_slot (pair_b p) = b) \<or>
     (pe_slot (pair_a p) = b \<and> pe_slot (pair_b p) = a)"
  by (auto simp: is_between_def endpoint_def split: if_splits)

lemma find_by_slot_insert:
  "find_by_slot (registry_insert pairs p) s =
     (case find_by_slot pairs s of
        Some q \<Rightarrow> Some q | None \<Rightarrow> if endpoint p s \<noteq> None then Some p else None)"
  unfolding find_by_slot_def registry_insert_def by (induction pairs) auto

lemma find_by_slot_None:
  "find_by_slot pairs s = None \<longleftrightarrow> (\<forall>p \<in> set pairs. endpoint p s = None)"
  by (auto simp: find_by_slot_def find_None_iff)

lemma prune_dead_subset: "set (prune_dead pairs n l) \<subseteq> set pairs"
  by (auto simp: prune_dead_def)

lemma prune_dead_idem: "prune_dead (prune_dead pairs n l) n l = prune_dead pairs n l"
  by (simp add: prune_dead_def)

end
