(* ===== verification/Supervision.thy ===== *)
theory Supervision
  imports Pairing
begin

text \<open>
  What the stack keeps of an instance between its processes, and the backoff that paces its
  restarts: \<open>node-stack-internal/src/node_stack/supervision.rs\<close>. The wall clock a function reads
  (\<open>SystemTime::now()\<close>) is its argument \<open>wall\<close>.

  A shared allocation whose identity the code compares or shares is named by an address: the
  goal of a first start (\<open>Arc::ptr_eq\<close>) by \<open>fs_goal_ref\<close>, the restart token by
  \<open>restart_token\<close>. A token is made with its slot and never replaced, so whether it is cancelled
  is a field of the slot's supervision, \<open>token_cancelled\<close>, and a clone of the token is its
  address.
\<close>

section \<open>The state kept\<close>

record health_kill =
  unanswered_for :: duration
  last_answer :: "instant option"

record first_start =
  fs_restart :: resolved_restart
  fs_goal_ref :: nat
  fs_goal :: node_run_goal

record registrations =
  reg_observations :: "string \<rightharpoonup> observation_targets"
  reg_watchers :: "string list"

definition registrations_default :: registrations where
  "registrations_default = \<lparr>reg_observations = Map.empty, reg_watchers = []\<rparr>"

record supervision =
  sv_first_start :: "first_start option"
  sv_health_kill :: "health_kill option"
  restart_count :: u32
  attempt :: u32
  last_exit :: "exit_cause option"
  run_started :: "instant option"
  running_since :: "system_time option"
  next_start :: "system_time option"
  restart_token :: nat
  token_cancelled :: bool
  held_pairs :: "planned_pair list"
  sv_registrations :: registrations

definition supervision_default :: "nat \<Rightarrow> supervision" where
  "supervision_default token =
     \<lparr>sv_first_start = None, sv_health_kill = None, restart_count = 0, attempt = 0,
      last_exit = None, run_started = None, running_since = None, next_start = None,
      restart_token = token, token_cancelled = False, held_pairs = [],
      sv_registrations = registrations_default\<rparr>"

text \<open>\<open>Supervision::restart\<close>: \<open>never\<close> for a slot without a first start.\<close>

definition restart_of :: "supervision \<Rightarrow> resolved_restart" where
  "restart_of sv =
     (case sv_first_start sv of
        None \<Rightarrow> \<lparr>restart_decl = policy_only Never, restart_org = Default\<rparr>
      | Some first \<Rightarrow> fs_restart first)"

record restart_status =
  rs_restart :: restart_declaration
  rs_restart_origin :: restart_origin
  rs_restart_count :: u32
  rs_attempt :: u32
  rs_last_exit :: "exit_cause option"
  rs_running_since_ms :: "u64 option"
  rs_next_start_ms :: "u64 option"

definition status :: "supervision \<Rightarrow> restart_status" where
  "status sv =
     \<lparr>rs_restart = restart_decl (restart_of sv),
      rs_restart_origin = restart_org (restart_of sv),
      rs_restart_count = restart_count sv,
      rs_attempt = attempt sv,
      rs_last_exit = last_exit sv,
      rs_running_since_ms = map_option unix_ms (running_since sv),
      rs_next_start_ms = map_option unix_ms (next_start sv)\<rparr>"

section \<open>The backoff\<close>

record restart_backoff =
  first_delay :: duration
  max_delay :: duration
  reset_after :: duration

record next_attempt =
  na_attempt :: u32
  na_delay :: duration

definition backoff_next :: "restart_backoff \<Rightarrow> u32 \<Rightarrow> duration option \<Rightarrow> next_attempt" where
  "backoff_next b previous_attempt ran_for =
     (let att = (if (case ran_for of None \<Rightarrow> False | Some r \<Rightarrow> r \<ge> reset_after b) then 1
                 else saturating_add32 1 previous_attempt);
          delay = min (case checked_pow2 (att - 1) of
                         None \<Rightarrow> max_delay b
                       | Some multiplier \<Rightarrow> duration_saturating_mul (first_delay b) multiplier)
                      (max_delay b)
      in \<lparr>na_attempt = att, na_delay = delay\<rparr>)"

datatype attempt_outcome =
    Scheduled u32 duration instant nat
  | Capped u32 nat

definition advance_backoff ::
    "supervision \<Rightarrow> restart_backoff \<Rightarrow> duration option \<Rightarrow> instant \<Rightarrow> system_time \<Rightarrow>
     attempt_outcome \<times> supervision" where
  "advance_backoff sv b ran_for now wall =
     (let nx = backoff_next b (attempt sv) ran_for;
          sv1 = sv\<lparr>attempt := na_attempt nx\<rparr>
      in case max_restarts (restart_decl (restart_of sv1)) of
           Some m \<Rightarrow>
             if na_attempt nx > m
             then (Capped m (restart_token sv1), sv1\<lparr>next_start := None\<rparr>)
             else (Scheduled (na_attempt nx) (na_delay nx) now (restart_token sv1),
                   sv1\<lparr>next_start := system_time_checked_add wall (na_delay nx)\<rparr>)
         | None \<Rightarrow>
             (Scheduled (na_attempt nx) (na_delay nx) now (restart_token sv1),
              sv1\<lparr>next_start := system_time_checked_add wall (na_delay nx)\<rparr>))"

section \<open>Starts, claims and removals\<close>

datatype spawn_target = SpawnNew first_start | Respawn

datatype start_run = RunNew nat | RunRespawn nat u32

record respawn_inputs =
  ri_goal :: node_run_goal
  ri_held_pairs :: "planned_pair list"
  ri_restart :: resolved_restart
  ri_first_start_goal :: nat
  ri_restart_count :: u32
  ri_previous_run_log :: "string option"

record exit_record =
  er_exit :: exit_cause
  er_registrations :: registrations
  er_next :: "attempt_outcome option"

record kept_relations =
  kr_pair_daemons :: "string set"
  kr_watchers :: "string list"

definition kept_relations_of :: "supervision \<Rightarrow> kept_relations" where
  "kept_relations_of sv =
     \<lparr>kr_pair_daemons =
        set (map (\<lambda>h. sa_core_node (peer h))
               (filter (\<lambda>h. sa_core_node (peer h) \<noteq> sa_core_node (own h)) (held_pairs sv))),
      kr_watchers = reg_watchers (sv_registrations sv)\<rparr>"

datatype slot_left = LeftStarting bool | RunsAnotherProcess

datatype slot_removal = Removed kept_relations | Left slot_left | Untracked

datatype process_claim = ProcessClaimed | ProcessClaimedElsewhere | ProcessGone

datatype starting_claim =
    StartClaimed kept_relations | StartIsFirst | StartClaimedElsewhere | NotStarting

record running_health =
  rh_running :: nat
  rh_healthy :: nat

section \<open>The delays\<close>

lemma backoff_attempt_nonzero [simp]: "na_attempt (backoff_next b p r) \<noteq> 0"
  by (simp add: backoff_next_def Let_def)

lemma backoff_delay_le_max: "na_delay (backoff_next b p r) \<le> max_delay b"
  by (simp add: backoff_next_def Let_def)

definition resets :: "restart_backoff \<Rightarrow> duration option \<Rightarrow> bool" where
  "resets b ran_for = (case ran_for of None \<Rightarrow> False | Some r \<Rightarrow> r \<ge> reset_after b)"

lemma backoff_attempt:
  "unat (na_attempt (backoff_next b p r)) =
     (if resets b r then 1 else min (Suc (unat p)) (2 ^ 32 - 1))"
  by (simp add: backoff_next_def Let_def resets_def unat_saturating_add32 split: option.splits)

text \<open>
  The delay of attempt number \<open>n\<close>: doubled from the first delay while the multiplier fits a
  32-bit count, the longest delay after that.
\<close>

definition delay_of_attempt :: "restart_backoff \<Rightarrow> nat \<Rightarrow> duration" where
  "delay_of_attempt b n =
     (if n \<le> 32 then min (first_delay b * 2 ^ (n - 1)) (max_delay b) else max_delay b)"

lemma unat_minus_one: "a \<noteq> 0 \<Longrightarrow> unat (a - 1 :: u32) = unat a - 1"
  by (simp add: unat_minus_one)

lemma backoff_delay:
  assumes "max_delay b \<le> duration_max"
  shows "na_delay (backoff_next b p r) = delay_of_attempt b (unat (na_attempt (backoff_next b p r)))"
proof -
  let ?a = "na_attempt (backoff_next b p r)"
  have nz: "?a \<noteq> 0" by simp
  then have pos: "unat ?a \<ge> 1" by (metis One_nat_def Suc_leI unat_gt_0)
  have delay: "na_delay (backoff_next b p r) =
      min (case checked_pow2 (?a - 1) of
             None \<Rightarrow> max_delay b
           | Some m \<Rightarrow> duration_saturating_mul (first_delay b) m) (max_delay b)"
    by (simp add: backoff_next_def Let_def)
  show ?thesis
  proof (cases "unat ?a \<le> 32")
    case True
    with pos nz have lt: "unat (?a - 1) < 32" by (simp add: unat_minus_one)
    then have "unat ((2::u32) ^ unat (?a - 1)) = 2 ^ (unat ?a - 1)"
      using nz by (simp add: unat_two_power unat_minus_one)
    with lt True assms show ?thesis
      by (simp add: delay checked_pow2_def duration_saturating_mul_def delay_of_attempt_def)
  next
    case False
    with nz have "\<not> unat (?a - 1) < 32" by (simp add: unat_minus_one)
    with False show ?thesis by (simp add: delay checked_pow2_def delay_of_attempt_def)
  qed
qed

lemma delay_of_attempt_mono: "m \<le> n \<Longrightarrow> delay_of_attempt b m \<le> delay_of_attempt b n"
proof -
  assume mn: "m \<le> n"
  then have "first_delay b * 2 ^ (m - 1) \<le> first_delay b * 2 ^ (n - 1)"
    by (intro mult_le_mono2 power_increasing) simp_all
  then have "min (first_delay b * 2 ^ (m - 1)) (max_delay b)
      \<le> min (first_delay b * 2 ^ (n - 1)) (max_delay b)"
    by (rule min.mono) simp
  with mn show ?thesis by (auto simp only: delay_of_attempt_def split: if_splits)
qed

lemma advance_backoff_attempt:
  "attempt (snd (advance_backoff sv b r now wall)) = na_attempt (backoff_next b (attempt sv) r)"
  by (simp add: advance_backoff_def Let_def split: option.splits)

text \<open>The fields the backoff does not write.\<close>

lemma advance_backoff_frame:
  assumes "advance_backoff sv b r now wall = (out, sv')"
  shows "sv_first_start sv' = sv_first_start sv" "restart_count sv' = restart_count sv"
    "restart_token sv' = restart_token sv" "token_cancelled sv' = token_cancelled sv"
    "held_pairs sv' = held_pairs sv" "sv_registrations sv' = sv_registrations sv"
    "last_exit sv' = last_exit sv" "run_started sv' = run_started sv"
    "sv_health_kill sv' = sv_health_kill sv" "running_since sv' = running_since sv"
  using assms by (auto simp: advance_backoff_def Let_def split: option.splits if_splits)

lemma restart_of_frame: "sv_first_start sv' = sv_first_start sv \<Longrightarrow> restart_of sv' = restart_of sv"
  by (simp add: restart_of_def)


section \<open>Theorems on the backoff\<close>

text \<open>
  C37: the pace of restarts. A run as long as the reset window starts the count again at 1; otherwise
  the count goes up by one and stays at \<open>u32::MAX\<close>. The delay of attempt \<open>n\<close> is the first delay
  doubled \<open>n - 1\<close> times and cut at the longest delay, never more than it, and never shorter for a
  later attempt.
\<close>

theorem backoff_paces_restarts:
  assumes "max_delay b \<le> duration_max"
  shows "(let nx = backoff_next b previous ran_for; n = unat (na_attempt nx) in
      n = (if resets b ran_for then 1 else min (Suc (unat previous)) (2 ^ 32 - 1)) \<and>
      na_delay nx = delay_of_attempt b n \<and> na_delay nx \<le> max_delay b \<and>
      na_delay nx \<le> delay_of_attempt b (Suc n))"
  unfolding Let_def
  using backoff_delay [OF assms, of previous ran_for]
    delay_of_attempt_mono [of "unat (na_attempt (backoff_next b previous ran_for))" _ b, OF le_SucI]
    backoff_delay_le_max [of b previous ran_for] backoff_attempt [of b previous ran_for]
  by simp

theorem backoff_paces_restarts_witness:
  "(let b = \<lparr>first_delay = 500, max_delay = 30000, reset_after = 60000\<rparr> in
      na_delay (backoff_next b 2 (Some 10)) = delay_of_attempt b 3 \<and> delay_of_attempt b 3 = 2000)"
proof -
  let ?b = "\<lparr>first_delay = 500, max_delay = 30000, reset_after = 60000\<rparr>"
  have "max_delay ?b \<le> duration_max" by (simp add: duration_max_def nanos_per_sec_def)
  from backoff_paces_restarts [OF this, of 2 "Some 10"]
  show ?thesis by (simp add: Let_def resets_def delay_of_attempt_def)
qed

end
