(* ===== verification/Node_Instance.thy ===== *)
theory Node_Instance
  imports Supervision
begin

text \<open>
  One instance slot of a node: \<open>TrackedNodeInstance\<close> of
  \<open>node-stack-internal/src/node_stack/entity.rs\<close>, with every operation that changes it. What the
  operations touch outside the slot is the \<open>world\<close>: the process-wide counters generations and
  incarnations are drawn from, the health flags that a slot and its health monitor share by
  address, fresh addresses, the paths on disk, and the process groups alive.

  The slot invariant \<open>slot_inv\<close> ties the state of a slot to its pid, endpoints, attempt, cap,
  kept start, and restart token; every operation keeps it. \<open>legal_move\<close> is the abstract life
  cycle the operations implement.
\<close>

section \<open>The world around a slot\<close>

record world =
  next_incarnation_ctr :: u64
  next_generation_ctr :: u64
  next_ref :: nat
  health_flags :: "nat \<Rightarrow> bool"
  disk :: "string set"
  live_groups :: "u32 set"

definition next_incarnation :: "world \<Rightarrow> u64 \<times> world" where
  "next_incarnation w =
     (next_incarnation_ctr w, w\<lparr>next_incarnation_ctr := next_incarnation_ctr w + 1\<rparr>)"

definition next_entity_generation :: "world \<Rightarrow> u64 \<times> world" where
  "next_entity_generation w =
     (next_generation_ctr w, w\<lparr>next_generation_ctr := next_generation_ctr w + 1\<rparr>)"

text \<open>\<open>Arc::new(AtomicBool::new(v))\<close>: a flag at a fresh address.\<close>

definition new_flag :: "bool \<Rightarrow> world \<Rightarrow> nat \<times> world" where
  "new_flag v w =
     (next_ref w, w\<lparr>next_ref := Suc (next_ref w), health_flags := (health_flags w)(next_ref w := v)\<rparr>)"

definition new_ref :: "world \<Rightarrow> nat \<times> world" where
  "new_ref w = (next_ref w, w\<lparr>next_ref := Suc (next_ref w)\<rparr>)"

definition remove_path :: "string \<Rightarrow> world \<Rightarrow> world" where
  "remove_path p w = w\<lparr>disk := disk w - {p}\<rparr>"

text \<open>\<open>std::fs::remove_dir_all\<close> takes a directory with everything below it.\<close>

definition under_dir :: "string \<Rightarrow> string \<Rightarrow> bool" where
  "under_dir d p \<longleftrightarrow> p = d \<or> take (Suc (length d)) p = d @ ''/''"

definition remove_dir_all :: "string \<Rightarrow> world \<Rightarrow> world" where
  "remove_dir_all d w = w\<lparr>disk := Set.filter (\<lambda>p. \<not> under_dir d p) (disk w)\<rparr>"

text \<open>A forked process leads a group that lives until it is killed.\<close>

definition kill_group :: "u32 \<Rightarrow> world \<Rightarrow> world" where
  "kill_group p w = w\<lparr>live_groups := live_groups w - {p}\<rparr>"

record spawn_files =
  sf_runtime_config :: string
  sf_credential :: string

definition spawn_files_remove :: "spawn_files \<Rightarrow> world \<Rightarrow> world" where
  "spawn_files_remove f w = remove_path (sf_credential f) (remove_path (sf_runtime_config f) w)"

section \<open>The slot\<close>

record instance_endpoint =
  ep_label :: string
  ep_kind :: string
  ep_urls :: "string list"

record launch_identity =
  li_launch_id :: string
  li_coordinator :: string

record tracked_instance =
  instance_id :: string
  pid :: "u32 option"
  inst_state :: instance_state
  incarnation :: u64
  instance_dir :: "string option"
  inst_spawn_files :: "spawn_files option"
  run_log_path :: "string option"
  inst_slot_bindings :: slot_bindings
  inst_clock :: clock_binding
  inst_launch :: "launch_identity option"
  inst_copy :: "string option"
  healthy_ref :: nat
  stopping :: bool
  shutdown_requests :: u32
  endpoints :: "instance_endpoint list"
  inst_supervision :: supervision

definition tracked_new ::
    "string \<Rightarrow> instance_state \<Rightarrow> slot_bindings \<Rightarrow> world \<Rightarrow> tracked_instance \<times> world" where
  "tracked_new i st bindings w =
     (let (inc, w1) = next_incarnation w;
          (flag, w2) = new_flag True w1;
          (tok, w3) = new_ref w2
      in (\<lparr>instance_id = i, pid = None, inst_state = st, incarnation = inc, instance_dir = None,
           inst_spawn_files = None, run_log_path = None, inst_slot_bindings = bindings,
           inst_clock = Wall, inst_launch = None, inst_copy = None, healthy_ref = flag,
           stopping = False, shutdown_requests = 0, endpoints = [],
           inst_supervision = supervision_default tok\<rparr>, w3))"

definition with_first_start :: "first_start \<Rightarrow> tracked_instance \<Rightarrow> tracked_instance" where
  "with_first_start fs t = t\<lparr>inst_supervision := (inst_supervision t)\<lparr>sv_first_start := Some fs\<rparr>\<rparr>"

definition awaits_restart :: "tracked_instance \<Rightarrow> bool" where
  "awaits_restart t \<longleftrightarrow> inst_state t = Restarting \<and> \<not> stopping t"

definition runs_unclaimed :: "tracked_instance \<Rightarrow> bool" where
  "runs_unclaimed t \<longleftrightarrow> inst_state t = Running \<and> \<not> stopping t"

definition keeps_held_pair :: "tracked_instance \<Rightarrow> slot_addr \<Rightarrow> slot_addr \<Rightarrow> bool" where
  "keeps_held_pair t own_slot peer_slot \<longleftrightarrow>
     list_ex (\<lambda>h. own h = own_slot \<and> peer h = peer_slot) (held_pairs (inst_supervision t))"

definition runs_process :: "tracked_instance \<Rightarrow> u32 \<Rightarrow> bool" where
  "runs_process t p \<longleftrightarrow> inst_state t = Running \<and> pid t = Some p"

definition runs_unclaimed_process :: "tracked_instance \<Rightarrow> u32 \<Rightarrow> bool" where
  "runs_unclaimed_process t p \<longleftrightarrow> runs_process t p \<and> \<not> stopping t"

definition starts_a_restart :: "tracked_instance \<Rightarrow> bool" where
  "starts_a_restart t \<longleftrightarrow> inst_state t = Starting \<and> attempt (inst_supervision t) > 0"

definition first_started_from :: "tracked_instance \<Rightarrow> nat \<Rightarrow> bool" where
  "first_started_from t goal_ref \<longleftrightarrow>
     (case sv_first_start (inst_supervision t) of
        None \<Rightarrow> False | Some first \<Rightarrow> fs_goal_ref first = goal_ref)"

definition is_restart_of :: "tracked_instance \<Rightarrow> nat \<Rightarrow> u32 \<Rightarrow> bool" where
  "is_restart_of t goal_ref n \<longleftrightarrow>
     first_started_from t goal_ref \<and> restart_count (inst_supervision t) = n"

fun starts_for :: "tracked_instance \<Rightarrow> start_run \<Rightarrow> bool" where
  "starts_for t (RunNew goal_ref) =
     (inst_state t = Starting \<and> \<not> starts_a_restart t \<and> first_started_from t goal_ref)"
| "starts_for t (RunRespawn goal_ref n) = (starts_a_restart t \<and> is_restart_of t goal_ref n)"

fun awaits_restart_of :: "tracked_instance \<Rightarrow> start_run \<Rightarrow> bool" where
  "awaits_restart_of t (RunNew _) = False"
| "awaits_restart_of t (RunRespawn goal_ref n) = (awaits_restart t \<and> is_restart_of t goal_ref n)"

definition inst_restart_status :: "tracked_instance \<Rightarrow> restart_status" where
  "inst_restart_status t = status (inst_supervision t)"

definition set_slot_binding :: "string \<Rightarrow> bound_producers \<Rightarrow> tracked_instance \<Rightarrow> tracked_instance" where
  "set_slot_binding link producers t =
     t\<lparr>inst_slot_bindings := (inst_slot_bindings t)(link \<mapsto> producers)\<rparr>"

definition live_incarnation :: "tracked_instance \<Rightarrow> u64 option" where
  "live_incarnation t =
     (let forked = (inst_state t = Running \<or> pid t \<noteq> None)
      in if has_process (inst_state t) \<and> forked then Some (incarnation t) else None)"

definition healthy :: "tracked_instance \<Rightarrow> world \<Rightarrow> bool" where
  "healthy t w = health_flags w (healthy_ref t)"

definition set_healthy :: "tracked_instance \<Rightarrow> bool \<Rightarrow> world \<Rightarrow> world" where
  "set_healthy t h w = w\<lparr>health_flags := (health_flags w)(healthy_ref t := h)\<rparr>"

text \<open>\<open>claim_once\<close>: whether this call set the flag, and the slot after it.\<close>

definition claim_once :: "tracked_instance \<Rightarrow> bool \<times> tracked_instance" where
  "claim_once t =
     (\<not> stopping t,
      t\<lparr>stopping := True,
        inst_supervision := (inst_supervision t)\<lparr>token_cancelled := True\<rparr>\<rparr>)"

definition mark_stopping :: "tracked_instance \<Rightarrow> tracked_instance" where
  "mark_stopping t = snd (claim_once t)"

definition set_running :: "string \<Rightarrow> tracked_instance \<Rightarrow> tracked_instance" where
  "set_running dir t = t\<lparr>inst_state := Running, instance_dir := Some dir\<rparr>"

definition set_endpoints :: "instance_endpoint list \<Rightarrow> tracked_instance \<Rightarrow> tracked_instance" where
  "set_endpoints eps t = t\<lparr>endpoints := eps\<rparr>"

definition set_starting_process ::
    "u32 \<Rightarrow> spawn_files \<Rightarrow> tracked_instance \<Rightarrow> tracked_instance" where
  "set_starting_process p files t = t\<lparr>pid := Some p, inst_spawn_files := Some files\<rparr>"

definition take_next_attempt ::
    "restart_backoff \<Rightarrow> duration option \<Rightarrow> instant \<Rightarrow> system_time \<Rightarrow> tracked_instance \<Rightarrow>
     attempt_outcome \<times> tracked_instance" where
  "take_next_attempt b ran_for now wall t =
     (let (out, sv) = advance_backoff (inst_supervision t) b ran_for now wall;
          t1 = t\<lparr>inst_supervision := sv\<rparr>
      in case out of
           Capped _ _ \<Rightarrow> (out, t1\<lparr>inst_state := Failed\<rparr>)
         | Scheduled _ _ _ _ \<Rightarrow> (out, t1))"

text \<open>
  How long the process ran (\<open>ran_for\<close>) and why it ended, as \<open>record_exit\<close> reads them off the
  slot: a process the health monitor killed ran until it last answered, and its kill is the
  cause whatever the status.
\<close>

definition exit_ran_for :: "tracked_instance \<Rightarrow> instant \<Rightarrow> duration option" where
  "exit_ran_for t now =
     map_option
       (\<lambda>since. case sv_health_kill (inst_supervision t) of
          Some kill \<Rightarrow> (case last_answer kill of
                         None \<Rightarrow> 0
                       | Some answer \<Rightarrow> saturating_duration_since answer since)
        | None \<Rightarrow> saturating_duration_since now since)
       (run_started (inst_supervision t))"

definition exit_cause_of :: "tracked_instance \<Rightarrow> exit_cause \<Rightarrow> exit_cause" where
  "exit_cause_of t cause =
     (case sv_health_kill (inst_supervision t) of
        Some kill \<Rightarrow> HealthKill (as_secs (unanswered_for kill)) | None \<Rightarrow> cause)"

definition record_exit ::
    "exit_cause \<Rightarrow> restart_backoff \<Rightarrow> instant \<Rightarrow> system_time \<Rightarrow> registrations \<Rightarrow> tracked_instance \<Rightarrow>
     exit_record \<times> tracked_instance" where
  "record_exit cause b now wall regs t =
     (let ran_for = exit_ran_for t now;
          ext = exit_cause_of t cause;
          failed = (\<not> is_clean ext);
          sv1 = (inst_supervision t)\<lparr>sv_health_kill := None, run_started := None,
                                    last_exit := Some ext\<rparr>;
          t1 = t\<lparr>inst_supervision := sv1, pid := None, endpoints := []\<rparr>;
          pol = policy (restart_decl (restart_of sv1));
          policy_restarts = (if failed then restarts_after_failure pol
                             else restarts_after_clean_exit pol);
          shutdown_requested = (shutdown_requests t > 0);
          restarts_again = (policy_restarts \<and> \<not> shutdown_requested);
          t2 = (if shutdown_requested
                then t1\<lparr>inst_supervision := (inst_supervision t1)\<lparr>attempt := 0\<rparr>\<rparr> else t1);
          t3 = t2\<lparr>inst_state := (if restarts_again then Restarting
                                 else if failed then Failed else Finished)\<rparr>
      in if restarts_again
         then let t4 = t3\<lparr>inst_supervision := (inst_supervision t3)\<lparr>sv_registrations := regs\<rparr>\<rparr>;
                  (out, t5) = take_next_attempt b ran_for now wall t4
              in (\<lparr>er_exit = ext, er_registrations = regs, er_next = Some out\<rparr>, t5)
         else (\<lparr>er_exit = ext, er_registrations = regs, er_next = None\<rparr>, t3))"

definition begin_respawn :: "tracked_instance \<Rightarrow> world \<Rightarrow> tracked_instance \<times> world" where
  "begin_respawn t w =
     (let (inc, w1) = next_incarnation w;
          (flag, w2) = new_flag True w1;
          w3 = (case inst_spawn_files t of None \<Rightarrow> w2 | Some files \<Rightarrow> spawn_files_remove files w2)
      in (t\<lparr>inst_state := Starting, incarnation := inc, pid := None, endpoints := [],
            inst_supervision := (inst_supervision t)\<lparr>next_start := None\<rparr>,
            healthy_ref := flag, inst_spawn_files := None\<rparr>, w3))"

definition revert_respawn :: "tracked_instance \<Rightarrow> tracked_instance" where
  "revert_respawn t = t\<lparr>inst_state := Restarting, pid := None, inst_spawn_files := None\<rparr>"

definition record_running :: "instant \<Rightarrow> system_time \<Rightarrow> tracked_instance \<Rightarrow> tracked_instance" where
  "record_running now wall t =
     (let sv = (inst_supervision t)\<lparr>run_started := Some now, running_since := Some wall\<rparr>
      in t\<lparr>inst_supervision :=
            (if attempt sv > 0
             then sv\<lparr>restart_count := saturating_add32 (restart_count sv) 1,
                     sv_registrations := registrations_default\<rparr>
             else sv)\<rparr>)"

section \<open>The life cycle of a slot\<close>

inductive legal_move :: "instance_state \<Rightarrow> instance_state \<Rightarrow> bool" where
  commit: "legal_move Starting Running"
| start_undone: "legal_move Starting Restarting"
| exit_restarts: "legal_move Running Restarting"
| exit_finishes: "legal_move Running Finished"
| exit_fails: "legal_move Running Failed"
| respawn: "legal_move Restarting Starting"
| restart_ends: "legal_move Restarting Failed"

inductive_cases move_from_terminal: "legal_move Finished s" "legal_move Failed s"
inductive_cases move_to_running: "legal_move s Running"

lemma terminal_absorbing: "\<not> legal_move Finished s" "\<not> legal_move Failed s"
  by (auto elim: move_from_terminal)

code_pred legal_move .

fun cap_allows :: "u32 option \<Rightarrow> u32 \<Rightarrow> bool" where
  "cap_allows None a = True"
| "cap_allows (Some m) a = (a \<le> m)"

definition within_cap :: "supervision \<Rightarrow> bool" where
  "within_cap sv = cap_allows (max_restarts (restart_decl (restart_of sv))) (attempt sv)"

definition policy_of :: "supervision \<Rightarrow> restart_policy" where
  "policy_of sv = policy (restart_decl (restart_of sv))"

fun is_terminal :: "instance_state \<Rightarrow> bool" where
  "is_terminal s = (s = Finished \<or> s = Failed)"

definition slot_inv :: "tracked_instance \<Rightarrow> bool" where
  "slot_inv t \<longleftrightarrow>
     (let sv = inst_supervision t; st = inst_state t in
        (st = Restarting \<longrightarrow> attempt sv \<noteq> 0) \<and>
        (\<not> is_terminal st \<and> attempt sv \<noteq> 0 \<longrightarrow> policy_of sv \<noteq> Never \<and> within_cap sv) \<and>
        (\<not> is_terminal st \<and> attempt sv = 0 \<longrightarrow> restart_count sv = 0) \<and>
        (st = Running \<and> attempt sv \<noteq> 0 \<longrightarrow> restart_count sv \<noteq> 0) \<and>
        (\<not> has_process st \<longrightarrow> pid t = None) \<and>
        (st \<noteq> Running \<longrightarrow> endpoints t = [] \<and> run_started sv = None \<and> sv_health_kill sv = None) \<and>
        (next_start sv \<noteq> None \<longrightarrow> st = Restarting) \<and>
        stopping t = token_cancelled sv)"

lemma within_cap_frame:
  "sv_first_start sv' = sv_first_start sv \<Longrightarrow> attempt sv' = attempt sv \<Longrightarrow>
     within_cap sv' = within_cap sv"
  by (simp add: within_cap_def restart_of_def)

lemma policy_of_frame: "sv_first_start sv' = sv_first_start sv \<Longrightarrow> policy_of sv' = policy_of sv"
  by (simp add: policy_of_def restart_of_def)

lemma saturating_add32_one_neq_0' [simp]: "saturating_add32 a 1 \<noteq> 0"
proof -
  have "unat (saturating_add32 a 1) \<noteq> 0" by (simp add: unat_saturating_add32)
  then show ?thesis by (metis unat_0)
qed

lemma saturating_add32_one_pos [simp]: "0 < saturating_add32 a 1"
  using saturating_add32_one_neq_0' [of a] by (simp only: word_neq_0_conv)

lemmas sv_frames = within_cap_def policy_of_def restart_of_def

lemma advance_backoff_within_cap:
  "advance_backoff sv b r now wall = (Scheduled a d n tok, sv') \<Longrightarrow> within_cap sv'"
  by (auto simp: advance_backoff_def Let_def sv_frames split: option.splits if_splits)

lemma advance_backoff_capped_iff:
  "(\<exists>m tok. fst (advance_backoff sv b r now wall) = Capped m tok) \<longleftrightarrow>
     \<not> within_cap (snd (advance_backoff sv b r now wall))"
  by (auto simp: advance_backoff_def Let_def sv_frames not_le split: option.splits)

lemma advance_backoff_next_start:
  "advance_backoff sv b r now wall = (Capped m tok, sv') \<Longrightarrow> next_start sv' = None"
  by (auto simp: advance_backoff_def Let_def split: option.splits if_splits)

subsection \<open>Every operation keeps the invariant\<close>

lemma tracked_new_inv: "st \<noteq> Restarting \<Longrightarrow> slot_inv (fst (tracked_new i st bindings w))"
  by (simp add: tracked_new_def slot_inv_def Let_def supervision_default_def next_incarnation_def
      new_flag_def new_ref_def)

lemma with_first_start_inv:
  "slot_inv t \<Longrightarrow> attempt (inst_supervision t) = 0 \<Longrightarrow> inst_state t = Starting \<Longrightarrow>
     slot_inv (with_first_start fs t)"
  by (simp add: slot_inv_def with_first_start_def Let_def)

lemma claim_once_inv: "slot_inv t \<Longrightarrow> slot_inv (snd (claim_once t))"
  by (simp add: slot_inv_def claim_once_def Let_def sv_frames)

lemma set_starting_process_inv:
  "slot_inv t \<Longrightarrow> inst_state t = Starting \<Longrightarrow> slot_inv (set_starting_process p files t)"
  by (simp add: slot_inv_def set_starting_process_def Let_def)

lemma commit_inv:
  "slot_inv t \<Longrightarrow> inst_state t = Starting \<Longrightarrow>
     slot_inv (record_running now wall (set_endpoints eps (set_running dir t)))"
  by (auto simp: slot_inv_def record_running_def set_endpoints_def set_running_def Let_def sv_frames
      word_neq_0_conv)

lemma begin_respawn_inv:
  "slot_inv t \<Longrightarrow> inst_state t = Restarting \<Longrightarrow> slot_inv (fst (begin_respawn t w))"
  by (simp add: slot_inv_def begin_respawn_def Let_def next_incarnation_def new_flag_def sv_frames)

lemma revert_respawn_inv:
  "slot_inv t \<Longrightarrow> starts_a_restart t \<Longrightarrow> slot_inv (revert_respawn t)"
  by (auto simp: slot_inv_def revert_respawn_def starts_a_restart_def Let_def sv_frames)

lemma take_next_attempt_inv:
  assumes "inst_state t = Restarting" and "policy_of (inst_supervision t) \<noteq> Never"
    and "pid t = None" and "endpoints t = []" and "run_started (inst_supervision t) = None"
    and "sv_health_kill (inst_supervision t) = None"
    and "stopping t = token_cancelled (inst_supervision t)"
  shows "slot_inv (snd (take_next_attempt b r now wall t))"
proof -
  obtain out sv where adv: "advance_backoff (inst_supervision t) b r now wall = (out, sv)"
    by fastforce
  note frame = advance_backoff_frame [OF adv]
  have att: "attempt sv \<noteq> 0"
    using advance_backoff_attempt [of "inst_supervision t" b r now wall] adv by simp
  have pol: "policy_of sv \<noteq> Never"
    using assms(2) policy_of_frame [OF frame(1)] by simp
  show ?thesis
  proof (cases out)
    case (Scheduled a d n tok)
    with adv have "within_cap sv" by (blast dest: advance_backoff_within_cap)
    with assms frame att pol Scheduled show ?thesis
      by (simp add: take_next_attempt_def adv slot_inv_def Let_def)
  next
    case (Capped m tok)
    with adv have "next_start sv = None" by (blast dest: advance_backoff_next_start)
    with assms frame att pol Capped show ?thesis
      by (simp add: take_next_attempt_def adv slot_inv_def Let_def)
  qed
qed

text \<open>The verdict of an exit: whether the policy starts the instance again.\<close>

definition exit_restarts :: "tracked_instance \<Rightarrow> exit_cause \<Rightarrow> bool" where
  "exit_restarts t cause \<longleftrightarrow>
     shutdown_requests t = 0 \<and>
     (if is_clean (exit_cause_of t cause)
      then restarts_after_clean_exit (policy_of (inst_supervision t))
      else restarts_after_failure (policy_of (inst_supervision t)))"

text \<open>The slot an exit leaves before a restart is scheduled.\<close>

definition exited :: "exit_cause \<Rightarrow> tracked_instance \<Rightarrow> tracked_instance" where
  "exited cause t =
     t\<lparr>pid := None, endpoints := [],
       inst_supervision := (inst_supervision t)\<lparr>sv_health_kill := None, run_started := None,
         last_exit := Some (exit_cause_of t cause)\<rparr>\<rparr>"

lemma record_exit_restarts:
  assumes "exit_restarts t cause"
  shows "record_exit cause b now wall regs t =
    (let t4 = (exited cause t)\<lparr>inst_state := Restarting,
           inst_supervision := (inst_supervision (exited cause t))\<lparr>sv_registrations := regs\<rparr>\<rparr>;
         (out, t5) = take_next_attempt b (exit_ran_for t now) now wall t4
     in (\<lparr>er_exit = exit_cause_of t cause, er_registrations = regs, er_next = Some out\<rparr>, t5))"
  using assms
  by (auto simp: record_exit_def exit_restarts_def exited_def Let_def policy_of_def restart_of_def
      word_neq_0_conv split: if_splits)

lemma record_exit_ends:
  assumes "\<not> exit_restarts t cause"
  shows "record_exit cause b now wall regs t =
    (\<lparr>er_exit = exit_cause_of t cause, er_registrations = regs, er_next = None\<rparr>,
     (exited cause t)\<lparr>inst_state := (if is_clean (exit_cause_of t cause) then Finished else Failed),
       inst_supervision := (inst_supervision (exited cause t))\<lparr>attempt :=
         (if shutdown_requests t = 0 then attempt (inst_supervision t) else 0)\<rparr>\<rparr>)"
  using assms
  by (cases t, cases "inst_supervision t")
    (auto simp: record_exit_def exit_restarts_def exited_def Let_def policy_of_def restart_of_def
      word_neq_0_conv split: if_splits)

lemma record_exit_inv:
  assumes inv: "slot_inv t" and run: "inst_state t = Running"
  shows "slot_inv (snd (record_exit cause b now wall regs t))"
proof (cases "exit_restarts t cause")
  case True
  let ?t4 = "(exited cause t)\<lparr>inst_state := Restarting,
           inst_supervision := (inst_supervision (exited cause t))\<lparr>sv_registrations := regs\<rparr>\<rparr>"
  from True have "policy_of (inst_supervision t) \<noteq> Never"
    by (auto simp: exit_restarts_def split: if_splits)
  then have pol: "policy_of (inst_supervision ?t4) \<noteq> Never"
    by (simp add: exited_def policy_of_def restart_of_def)
  have "slot_inv (snd (take_next_attempt b (exit_ran_for t now) now wall ?t4))"
    by (rule take_next_attempt_inv [OF _ pol])
      (use inv in \<open>simp_all add: exited_def slot_inv_def Let_def\<close>)
  with True show ?thesis
    by (simp add: record_exit_restarts Let_def case_prod_beta)
next
  case False
  with inv run show ?thesis
    by (simp add: record_exit_ends exited_def slot_inv_def Let_def)
qed

subsection \<open>Which state an operation leaves\<close>

lemma take_next_attempt_state:
  "inst_state (snd (take_next_attempt b r now wall t)) =
     (if within_cap (snd (advance_backoff (inst_supervision t) b r now wall)) then inst_state t
      else Failed)"
  using advance_backoff_capped_iff [of "inst_supervision t" b r now wall]
  by (auto simp: take_next_attempt_def Let_def case_prod_beta split: attempt_outcome.splits)

lemma take_next_attempt_supervision:
  "inst_supervision (snd (take_next_attempt b r now wall t)) =
     snd (advance_backoff (inst_supervision t) b r now wall)"
  by (simp add: take_next_attempt_def Let_def case_prod_beta split: attempt_outcome.splits)

lemma take_next_attempt_keeps:
  "instance_id (snd (take_next_attempt b r now wall t)) = instance_id t"
  "stopping (snd (take_next_attempt b r now wall t)) = stopping t"
  "shutdown_requests (snd (take_next_attempt b r now wall t)) = shutdown_requests t"
  "pid (snd (take_next_attempt b r now wall t)) = pid t"
  "endpoints (snd (take_next_attempt b r now wall t)) = endpoints t"
  "incarnation (snd (take_next_attempt b r now wall t)) = incarnation t"
  by (simp_all add: take_next_attempt_def Let_def case_prod_beta split: attempt_outcome.splits)

text \<open>The attempt an exit takes next, and whether the cap still allows it.\<close>

definition attempt_after_exit :: "restart_backoff \<Rightarrow> instant \<Rightarrow> tracked_instance \<Rightarrow> u32" where
  "attempt_after_exit b now t =
     na_attempt (backoff_next b (attempt (inst_supervision t)) (exit_ran_for t now))"

definition cap_of :: "tracked_instance \<Rightarrow> u32 option" where
  "cap_of t = max_restarts (restart_decl (restart_of (inst_supervision t)))"

lemma advance_backoff_within_cap_iff:
  "within_cap (snd (advance_backoff sv b r now wall)) \<longleftrightarrow>
     cap_allows (max_restarts (restart_decl (restart_of sv))) (na_attempt (backoff_next b (attempt sv) r))"
  by (auto simp: within_cap_def advance_backoff_def Let_def restart_of_def split: option.splits)

lemma record_exit_state:
  "inst_state (snd (record_exit cause b now wall regs t)) =
     (if exit_restarts t cause
      then (if cap_allows (cap_of t) (attempt_after_exit b now t) then Restarting else Failed)
      else if is_clean (exit_cause_of t cause) then Finished else Failed)"
proof (cases "exit_restarts t cause")
  case True
  then show ?thesis
    by (simp add: record_exit_restarts Let_def case_prod_beta take_next_attempt_state
        advance_backoff_within_cap_iff exited_def restart_of_def cap_of_def attempt_after_exit_def)
next
  case False
  then show ?thesis by (simp add: record_exit_ends)
qed

lemma record_exit_keeps:
  "instance_id (snd (record_exit cause b now wall regs t)) = instance_id t"
  "stopping (snd (record_exit cause b now wall regs t)) = stopping t"
  "incarnation (snd (record_exit cause b now wall regs t)) = incarnation t"
  "pid (snd (record_exit cause b now wall regs t)) = None"
  "endpoints (snd (record_exit cause b now wall regs t)) = []"
  by (cases "exit_restarts t cause",
      simp_all add: record_exit_restarts record_exit_ends Let_def case_prod_beta
        take_next_attempt_keeps exited_def)+

lemma record_exit_attempt:
  "attempt (inst_supervision (snd (record_exit cause b now wall regs t))) =
     (if exit_restarts t cause then attempt_after_exit b now t
      else if shutdown_requests t = 0 then attempt (inst_supervision t) else 0)"
proof (cases "exit_restarts t cause")
  case True
  then show ?thesis
    by (simp add: record_exit_restarts Let_def case_prod_beta take_next_attempt_supervision
        advance_backoff_attempt exited_def attempt_after_exit_def)
next
  case False
  then show ?thesis by (simp add: record_exit_ends)
qed


section \<open>Theorems on one slot\<close>

text \<open>What an exit writes besides the state and the attempt.\<close>

lemma record_exit_records:
  "er_exit (fst (record_exit cause b now wall regs t)) = exit_cause_of t cause"
  "er_registrations (fst (record_exit cause b now wall regs t)) = regs"
  "er_next (fst (record_exit cause b now wall regs t)) \<noteq> None \<longleftrightarrow> exit_restarts t cause"
  "last_exit (inst_supervision (snd (record_exit cause b now wall regs t))) = Some (exit_cause_of t cause)"
  "sv_health_kill (inst_supervision (snd (record_exit cause b now wall regs t))) = None"
  "run_started (inst_supervision (snd (record_exit cause b now wall regs t))) = None"
  "sv_registrations (inst_supervision (snd (record_exit cause b now wall regs t))) =
     (if exit_restarts t cause then regs else sv_registrations (inst_supervision t))"
  "sv_first_start (inst_supervision (snd (record_exit cause b now wall regs t))) = sv_first_start (inst_supervision t)"
  "restart_count (inst_supervision (snd (record_exit cause b now wall regs t))) = restart_count (inst_supervision t)"
  "shutdown_requests (snd (record_exit cause b now wall regs t)) = shutdown_requests t"
proof -
  note frame = advance_backoff_frame [OF surjective_pairing]
  note simps = record_exit_restarts record_exit_ends Let_def case_prod_beta take_next_attempt_supervision
    take_next_attempt_keeps exited_def frame
  show "er_exit (fst (record_exit cause b now wall regs t)) = exit_cause_of t cause"
    "er_registrations (fst (record_exit cause b now wall regs t)) = regs"
    "er_next (fst (record_exit cause b now wall regs t)) \<noteq> None \<longleftrightarrow> exit_restarts t cause"
    "last_exit (inst_supervision (snd (record_exit cause b now wall regs t))) = Some (exit_cause_of t cause)"
    "sv_health_kill (inst_supervision (snd (record_exit cause b now wall regs t))) = None"
    "run_started (inst_supervision (snd (record_exit cause b now wall regs t))) = None"
    "sv_registrations (inst_supervision (snd (record_exit cause b now wall regs t))) =
       (if exit_restarts t cause then regs else sv_registrations (inst_supervision t))"
    "sv_first_start (inst_supervision (snd (record_exit cause b now wall regs t))) = sv_first_start (inst_supervision t)"
    "restart_count (inst_supervision (snd (record_exit cause b now wall regs t))) = restart_count (inst_supervision t)"
    "shutdown_requests (snd (record_exit cause b now wall regs t)) = shutdown_requests t"
    by (cases "exit_restarts t cause"; simp add: simps)+
qed

text \<open>
  C36: the verdict of an exit. The exit recorded is the health kill the monitor armed, with the seconds
  it waited for an answer, and otherwise the cause of the process; the run lasted until the process
  ended, and under a health kill until it last answered. The slot restarts when no shutdown was
  requested and the policy covers that exit, unless the attempt the backoff gives is past the
  cap, and then it has failed; a slot that does not restart has finished after exit code 0 and
  failed after any other. The armed kill, the run, the process and its endpoints are gone, a
  requested shutdown resets the attempts, and only a restart keeps the registrations.
\<close>

theorem record_exit_verdict:
  "(let (rec, t') = record_exit cause b now wall regs t; sv = inst_supervision t; sv' = inst_supervision t';
        declaration = restart_decl (restart_of sv);
        ext = (case sv_health_kill sv of
                 Some kill \<Rightarrow> HealthKill (unanswered_for kill div nanos_per_sec) | None \<Rightarrow> cause);
        ran = (case run_started sv of
                 None \<Rightarrow> None
               | Some since \<Rightarrow> Some (case sv_health_kill sv of
                     None \<Rightarrow> now - since
                   | Some kill \<Rightarrow> (case last_answer kill of None \<Rightarrow> 0 | Some answer \<Rightarrow> answer - since)));
        restarts = (shutdown_requests t = 0 \<and>
          (case policy declaration of Never \<Rightarrow> False | OnFailure \<Rightarrow> ext \<noteq> Code 0 | Always \<Rightarrow> True));
        next = na_attempt (backoff_next b (attempt sv) ran)
    in er_exit rec = ext \<and> last_exit sv' = Some ext \<and> er_registrations rec = regs \<and>
       sv_health_kill sv' = None \<and> run_started sv' = None \<and> pid t' = None \<and> endpoints t' = [] \<and>
       instance_id t' = instance_id t \<and> incarnation t' = incarnation t \<and> stopping t' = stopping t \<and>
       (er_next rec \<noteq> None \<longleftrightarrow> restarts) \<and>
       sv_registrations sv' = (if restarts then regs else sv_registrations sv) \<and>
       inst_state t' =
         (if restarts
          then (case max_restarts declaration of
                  None \<Rightarrow> Restarting | Some m \<Rightarrow> if next \<le> m then Restarting else Failed)
          else if ext = Code 0 then Finished else Failed) \<and>
       attempt sv' = (if restarts then next else if shutdown_requests t = 0 then attempt sv else 0))"
proof -
  have ext: "(case sv_health_kill (inst_supervision t) of
      Some kill \<Rightarrow> HealthKill (unanswered_for kill div nanos_per_sec) | None \<Rightarrow> cause) = exit_cause_of t cause"
    by (simp add: exit_cause_of_def as_secs_def split: option.split)
  have ran: "(case run_started (inst_supervision t) of
        None \<Rightarrow> None
      | Some since \<Rightarrow> Some (case sv_health_kill (inst_supervision t) of
            None \<Rightarrow> now - since
          | Some kill \<Rightarrow> (case last_answer kill of None \<Rightarrow> 0 | Some answer \<Rightarrow> answer - since))) = exit_ran_for t now"
    by (simp add: exit_ran_for_def saturating_duration_since_def split: option.split)
  have restarts: "(shutdown_requests t = 0 \<and>
      (case policy (restart_decl (restart_of (inst_supervision t))) of
         Never \<Rightarrow> False | OnFailure \<Rightarrow> exit_cause_of t cause \<noteq> Code 0 | Always \<Rightarrow> True)) = exit_restarts t cause"
    by (simp add: exit_restarts_def policy_of_def split: restart_policy.split)
  have cap: "(case max_restarts (restart_decl (restart_of (inst_supervision t))) of
      None \<Rightarrow> Restarting | Some m \<Rightarrow> if a \<le> m then Restarting else Failed) =
      (if cap_allows (cap_of t) a then Restarting else Failed)" for a
    by (simp add: cap_of_def split: option.split)
  have next_eq: "na_attempt (backoff_next b (attempt (inst_supervision t)) (exit_ran_for t now)) = attempt_after_exit b now t"
    by (simp add: attempt_after_exit_def)
  show ?thesis
    unfolding Let_def case_prod_beta ext ran restarts cap next_eq
    by (simp only: fst_conv snd_conv record_exit_records record_exit_keeps record_exit_state record_exit_attempt
        is_clean.simps simp_thms)
qed

text \<open>
  The health monitor of an ended process cannot touch the one that replaced it. A respawn reads
  a flag of its own, which starts healthy and which no write through the old slot changes, and it
  draws a later incarnation.
\<close>

theorem respawn_health_is_its_own:
  assumes "healthy_ref t < next_ref w"
  shows "(let (t', w') = begin_respawn t w in
      healthy t' w' \<and> (healthy t' (set_healthy t h w') \<longleftrightarrow> healthy t' w') \<and>
      incarnation t' = next_incarnation_ctr w \<and>
      next_incarnation_ctr w' = next_incarnation_ctr w + 1 \<and> healthy_ref t' < next_ref w')"
  using assms
  by (simp add: begin_respawn_def next_incarnation_def new_flag_def healthy_def set_healthy_def
      spawn_files_remove_def remove_path_def Let_def split: option.split)

theorem respawn_health_is_its_own_witness:
  "(let w = \<lparr>next_incarnation_ctr = 7, next_generation_ctr = 1, next_ref = 0,
             health_flags = (\<lambda>_. False), disk = {}, live_groups = {}\<rparr>;
        (t, w1) = tracked_new ''cam'' Restarting Map.empty w;
        (t', w2) = begin_respawn t w1
    in healthy t' (set_healthy t False w2) \<and> incarnation t' = 8)"
proof -
  let ?w = "\<lparr>next_incarnation_ctr = 7, next_generation_ctr = 1, next_ref = 0,
             health_flags = (\<lambda>_. False), disk = {}, live_groups = {}\<rparr>"
  let ?t = "fst (tracked_new ''cam'' Restarting Map.empty ?w)"
  let ?w1 = "snd (tracked_new ''cam'' Restarting Map.empty ?w)"
  have "healthy_ref ?t < next_ref ?w1" and ctr: "next_incarnation_ctr ?w1 = 8"
    by (simp_all add: tracked_new_def next_incarnation_def new_flag_def new_ref_def Let_def)
  from respawn_health_is_its_own [OF this(1), of False] ctr
  show ?thesis by (simp add: Let_def case_prod_beta)
qed

section \<open>Samples\<close>

definition sample_world :: world where
  "sample_world =
     \<lparr>next_incarnation_ctr = 1, next_generation_ctr = 1, next_ref = 0, health_flags = (\<lambda>_. False),
      disk = {}, live_groups = {}\<rparr>"

definition sample_first_start :: first_start where
  "sample_first_start =
     \<lparr>fs_restart = \<lparr>restart_decl = \<lparr>policy = OnFailure, max_restarts = Some 2\<rparr>, restart_org = Instance\<rparr>,
      fs_goal_ref = 0, fs_goal = goal_new (instance_plan_new ''cam'') ''camera'' ''v1'' 60\<rparr>"

definition sample_backoff :: restart_backoff where
  "sample_backoff = \<lparr>first_delay = 1, max_delay = 8, reset_after = 10\<rparr>"

end
