(* ===== verification/Node_Config.thy ===== *)
theory Node_Config
  imports Runtime_Types
begin

text \<open>
  A node's manifest and interfaces (\<open>peppy-config-model/src/node/types.rs\<close>) and the plan-phase
  validation of its \<open>depends_on\<close> block (\<open>peppy-config-model/src/node/validation.rs\<close>).

  Of an entry that declares an interface the validation reads the name and the link id; the rest
  of the declaration (description, QoS, retention, formats, refinement) is only ever compared as
  a whole, so it is one string here. The names of a manifest are ASCII, and \<open>str::trim\<close> drops the
  ASCII white space.
\<close>

section \<open>Interfaces\<close>

datatype interface_kind = KTopic | KService | KAction

fun kind_label :: "interface_kind \<Rightarrow> string" where
  "kind_label KTopic = ''Topic''"
| "kind_label KService = ''Service''"
| "kind_label KAction = ''Action''"

fun consumed_section :: "interface_kind \<Rightarrow> string" where
  "consumed_section KTopic = ''topics.consumes''"
| "consumed_section KService = ''services.consumes''"
| "consumed_section KAction = ''actions.consumes''"

fun kind_display :: "interface_kind \<Rightarrow> string" where
  "kind_display KTopic = ''topic''"
| "kind_display KService = ''service''"
| "kind_display KAction = ''action''"

definition kind_from_str :: "string \<Rightarrow> string + interface_kind" where
  "kind_from_str s =
     (if s = ''topic'' then Inr KTopic
      else if s = ''service'' then Inr KService
      else if s = ''action'' then Inr KAction
      else Inl (''unknown interface kind: '' @ s))"

record linked_entry =
  le_link_id :: string
  le_name :: string
  le_refine :: "string option"

record native_entry =
  ne_name :: string
  ne_declaration :: string

text \<open>\<open>EmittedTopic\<close>, \<open>ExposedService\<close> and \<open>ExposedAction\<close>: one macro gives them the same surface.\<close>

datatype produced_entry = Linked linked_entry | Native native_entry

fun entry_name :: "produced_entry \<Rightarrow> string" where
  "entry_name (Linked e) = le_name e"
| "entry_name (Native n) = ne_name n"

fun entry_link_id :: "produced_entry \<Rightarrow> string option" where
  "entry_link_id (Linked e) = Some (le_link_id e)"
| "entry_link_id (Native _) = None"

record consumed_entry =
  ce_link_id :: string
  ce_name :: string
  ce_refine :: "string option"

record interface_section =
  produces :: "produced_entry list option"
  consumes :: "consumed_entry list option"

record interfaces =
  topics :: "interface_section option"
  services :: "interface_section option"
  actions :: "interface_section option"

definition section_of :: "interfaces \<Rightarrow> interface_kind \<Rightarrow> interface_section option" where
  "section_of i k = (case k of KTopic \<Rightarrow> topics i | KService \<Rightarrow> services i | KAction \<Rightarrow> actions i)"

definition or_default :: "'a list option \<Rightarrow> 'a list" where
  "or_default = case_option [] id"

definition produced :: "interfaces \<Rightarrow> interface_kind \<Rightarrow> (string option \<times> string) list" where
  "produced i k =
     map (\<lambda>e. (entry_link_id e, entry_name e)) (or_default (Option.bind (section_of i k) produces))"

definition consumed :: "interfaces \<Rightarrow> interface_kind \<Rightarrow> (string \<times> string \<times> bool) list" where
  "consumed i k =
     map (\<lambda>c. (ce_link_id c, ce_name c, ce_refine c \<noteq> None))
       (or_default (Option.bind (section_of i k) consumes))"

section \<open>Manifests\<close>

record node_dependency =
  nd_name :: string
  nd_tag :: string
  nd_link_id :: string
  nd_cardinality :: cardinality

record contract_dependency =
  cdep_name :: string
  cdep_tag :: string
  cdep_link_id :: string
  cdep_sha256 :: "string option"
  cdep_cardinality :: cardinality

record implements_entry =
  ie_name :: string
  ie_tag :: string
  ie_link_id :: string
  ie_sha256 :: "string option"

text \<open>A pairing slot: a participant plays \<open>pd_role\<close>, an observer observes it.\<close>

record pairing_dependency =
  pd_name :: string
  pd_tag :: string
  pd_role :: string
  pd_link_id :: string
  pd_sha256 :: "string option"
  pd_cardinality :: cardinality

record daemon_target =
  dt_name :: string
  dt_tag :: string
  dt_link_id :: string

record depends_on =
  dep_nodes :: "node_dependency list"
  dep_contracts :: "contract_dependency list"
  dep_daemon :: "daemon_target list"
  dep_pairings :: "pairing_dependency list"
  dep_observers :: "pairing_dependency list"

definition producer_slots :: "depends_on \<Rightarrow> (string \<times> cardinality) list" where
  "producer_slots d =
     map (\<lambda>x. (nd_link_id x, nd_cardinality x)) (dep_nodes d) @
     map (\<lambda>x. (cdep_link_id x, cdep_cardinality x)) (dep_contracts d) @
     map (\<lambda>x. (dt_link_id x, One)) (dep_daemon d)"

definition pairing_link_ids :: "depends_on \<Rightarrow> string list" where
  "pairing_link_ids d = map pd_link_id (dep_pairings d) @ map pd_link_id (dep_observers d)"

record manifest =
  m_name :: string
  m_tag :: string
  m_implements :: "implements_entry list"
  m_depends_on :: "depends_on option"

datatype document_kind = Contract | PairingDoc

record document_reference =
  dr_kind :: document_kind
  dr_name :: string
  dr_tag :: string
  dr_sha256 :: "string option"

definition document_references :: "manifest \<Rightarrow> document_reference list" where
  "document_references m =
     map (\<lambda>e. \<lparr>dr_kind = Contract, dr_name = ie_name e, dr_tag = ie_tag e, dr_sha256 = ie_sha256 e\<rparr>)
       (m_implements m) @
     (case m_depends_on m of
        None \<Rightarrow> []
      | Some d \<Rightarrow>
          map (\<lambda>c. \<lparr>dr_kind = Contract, dr_name = cdep_name c, dr_tag = cdep_tag c,
                    dr_sha256 = cdep_sha256 c\<rparr>) (dep_contracts d) @
          map (\<lambda>p. \<lparr>dr_kind = PairingDoc, dr_name = pd_name p, dr_tag = pd_tag p,
                    dr_sha256 = pd_sha256 p\<rparr>) (dep_pairings d @ dep_observers d))"

text \<open>
  The node stack reads of \<open>execution\<close> whether the node runs in a container; the command that
  builds it and the language go into the build.
\<close>

record node_config =
  nc_manifest :: manifest
  nc_interfaces :: interfaces
  nc_container :: bool

abbreviation config_name :: "node_config \<Rightarrow> string" where
  "config_name c \<equiv> m_name (nc_manifest c)"

abbreviation config_tag :: "node_config \<Rightarrow> string" where
  "config_tag c \<equiv> m_tag (nc_manifest c)"

section \<open>Validating the dependencies of a node\<close>

definition is_space :: "char \<Rightarrow> bool" where
  "is_space c \<longleftrightarrow> c \<in> set [CHR '' '', CHR 0x09, CHR 0x0A, CHR 0x0B, CHR 0x0C, CHR 0x0D]"

definition trim :: "string \<Rightarrow> string" where
  "trim s = rev (dropWhile is_space (rev (dropWhile is_space s)))"

record dependency_spec =
  ds_node_name :: string
  ds_node_tag :: string

definition collect_dependency_specs :: "node_config \<Rightarrow> dependency_spec list" where
  "collect_dependency_specs c =
     (case m_depends_on (nc_manifest c) of
        None \<Rightarrow> []
      | Some d \<Rightarrow> map (\<lambda>x. \<lparr>ds_node_name = nd_name x, ds_node_tag = nd_tag x\<rparr>) (dep_nodes d))"

definition node_implements :: "node_config \<Rightarrow> string \<Rightarrow> string \<Rightarrow> bool" where
  "node_implements c n t =
     list_ex (\<lambda>item. ie_name item = n \<and> ie_tag item = t) (m_implements (nc_manifest c))"

record contract_implementation_edge =
  cie_consumer_name :: string
  cie_consumer_tag :: string
  cie_provider_name :: string
  cie_provider_tag :: string
  cie_contract_name :: string
  cie_contract_tag :: string

definition collect_contract_implementation_edges ::
    "node_config list \<Rightarrow> contract_implementation_edge list" where
  "collect_contract_implementation_edges configs =
     concat (map (\<lambda>consumer.
       case m_depends_on (nc_manifest consumer) of
         None \<Rightarrow> []
       | Some d \<Rightarrow>
           concat (map (\<lambda>dep.
             map (\<lambda>provider. \<lparr>cie_consumer_name = config_name consumer,
                              cie_consumer_tag = config_tag consumer,
                              cie_provider_name = config_name provider,
                              cie_provider_tag = config_tag provider,
                              cie_contract_name = cdep_name dep,
                              cie_contract_tag = cdep_tag dep\<rparr>)
               (filter (\<lambda>provider. node_implements provider (cdep_name dep) (cdep_tag dep)) configs))
             (dep_contracts d))) configs)"

datatype missing_dependency_policy = RequireResolvable | AllowAbsentWhenSlotAdmitsEmpty

datatype dependency_error =
    MissingDependency (md_dependant: string) (md_tag: string) (md_dependency: string)
      (md_dependency_tag: string)
  | ConsumedItemReferencesPairingLinkId string string string string
  | ConsumedItemReferencesImplementsLinkId string
  | UndeclaredLinkId string string string
  | ConsumedInterfaceOnlyContractBacked string string string string string string string string string
  | MissingInterface string string string string string string

datatype exposure = ExpNative | ExpContractBackedOnly implements_entry | ExpNone

text \<open>
  \<open>find_exposure\<close>: the loop stops at the first native entry of the name, and otherwise holds the
  link id of the last contract-backed one.
\<close>

fun exposure_scan ::
    "string \<Rightarrow> string option \<Rightarrow> (string option \<times> string) list \<Rightarrow> (unit + string option)" where
  "exposure_scan name found [] = Inr found"
| "exposure_scan name found ((link, ename) # rest) =
     (if trim ename \<noteq> name then exposure_scan name found rest
      else case link of
             None \<Rightarrow> Inl ()
           | Some l \<Rightarrow> exposure_scan name (Some l) rest)"

definition find_exposure :: "node_config \<Rightarrow> interface_kind \<Rightarrow> string \<Rightarrow> exposure" where
  "find_exposure c k name =
     (case exposure_scan name None (produced (nc_interfaces c) k) of
        Inl _ \<Rightarrow> ExpNative
      | Inr None \<Rightarrow> ExpNone
      | Inr (Some l) \<Rightarrow>
          (case find (\<lambda>e. ie_link_id e = l) (m_implements (nc_manifest c)) of
             Some e \<Rightarrow> ExpContractBackedOnly e
           | None \<Rightarrow> ExpNone))"

record resolved_dependency =
  rd_name :: string
  rd_tag :: string
  rd_config :: node_config

record declared_links =
  resolved_dependencies :: "string \<rightharpoonup> resolved_dependency"
  dl_dependency_link_ids :: "string list"
  dl_pairing_link_ids :: "string list"
  dl_implements_link_ids :: "string list"

record dependant =
  dpt_name :: string
  dpt_tag :: string

definition validate_consumed_interface ::
    "string \<Rightarrow> string \<Rightarrow> interface_kind \<Rightarrow> resolved_dependency \<Rightarrow> dependant \<Rightarrow> dependency_error list" where
  "validate_consumed_interface link name k dep who =
     (case find_exposure (rd_config dep) k (trim name) of
        ExpNative \<Rightarrow> []
      | ExpContractBackedOnly e \<Rightarrow>
          [ConsumedInterfaceOnlyContractBacked (dpt_name who) (dpt_tag who) (rd_name dep) (rd_tag dep)
             (kind_label k) name link (ie_name e) (ie_tag e)]
      | ExpNone \<Rightarrow>
          [MissingInterface (dpt_name who) (dpt_tag who) (rd_name dep) (rd_tag dep)
             (kind_label k) name])"

definition validate_consumed_item ::
    "interface_kind \<Rightarrow> declared_links \<Rightarrow> dependant \<Rightarrow> string \<times> string \<Rightarrow> dependency_error list" where
  "validate_consumed_item k links who item =
     (case item of (link, name) \<Rightarrow>
        if link \<in> set (dl_pairing_link_ids links)
        then (if k \<noteq> KTopic
              then [ConsumedItemReferencesPairingLinkId (dpt_name who) (dpt_tag who) link
                      (consumed_section k)]
              else [])
        else if link \<in> set (dl_implements_link_ids links)
        then [ConsumedItemReferencesImplementsLinkId link]
        else case resolved_dependencies links link of
               None \<Rightarrow> (if link \<notin> set (dl_dependency_link_ids links)
                        then [UndeclaredLinkId (dpt_name who) (dpt_tag who) link] else [])
             | Some dep \<Rightarrow> validate_consumed_interface link name k dep who)"

definition validate_consumed_items ::
    "(string \<times> string) list \<Rightarrow> interface_kind \<Rightarrow> declared_links \<Rightarrow> dependant \<Rightarrow>
     dependency_error list" where
  "validate_consumed_items items k links who = concat (map (validate_consumed_item k links who) items)"

text \<open>Phase 1 of \<open>validate_dependency_specs\<close>: the loop over \<open>depends_on.nodes\<close>.\<close>

fun resolve_nodes ::
    "dependant \<Rightarrow> missing_dependency_policy \<Rightarrow> (string \<Rightarrow> string \<Rightarrow> node_config option) \<Rightarrow>
     node_dependency list \<Rightarrow> (string \<rightharpoonup> resolved_dependency) \<Rightarrow>
     dependency_error list \<times> (string \<rightharpoonup> resolved_dependency)" where
  "resolve_nodes who pol resolve [] m = ([], m)"
| "resolve_nodes who pol resolve (dep # deps) m =
     (case resolve (nd_name dep) (nd_tag dep) of
        None \<Rightarrow>
          (if pol = AllowAbsentWhenSlotAdmitsEmpty \<and> admits (nd_cardinality dep) 0
           then resolve_nodes who pol resolve deps m
           else let (es, m') = resolve_nodes who pol resolve deps m
                in (MissingDependency (dpt_name who) (dpt_tag who) (nd_name dep) (nd_tag dep) # es, m'))
      | Some c \<Rightarrow>
          resolve_nodes who pol resolve deps
            (m(nd_link_id dep \<mapsto> \<lparr>rd_name = nd_name dep, rd_tag = nd_tag dep, rd_config = c\<rparr>)))"

definition validate_dependency_specs ::
    "manifest \<Rightarrow> interfaces \<Rightarrow> string \<Rightarrow> string \<Rightarrow> missing_dependency_policy \<Rightarrow>
     (string \<Rightarrow> string \<Rightarrow> node_config option) \<Rightarrow> dependency_error list" where
  "validate_dependency_specs m i dname dtag pol resolve =
     (let who = \<lparr>dpt_name = dname, dpt_tag = dtag\<rparr>;
          deps = (case m_depends_on m of None \<Rightarrow> [] | Some d \<Rightarrow> dep_nodes d);
          (missing, resolved) = resolve_nodes who pol resolve deps Map.empty;
          links = \<lparr>resolved_dependencies = resolved,
                   dl_dependency_link_ids =
                     (case m_depends_on m of None \<Rightarrow> [] | Some d \<Rightarrow> map fst (producer_slots d)),
                   dl_pairing_link_ids =
                     (case m_depends_on m of None \<Rightarrow> [] | Some d \<Rightarrow> pairing_link_ids d),
                   dl_implements_link_ids = map ie_link_id (m_implements m)\<rparr>
      in missing @
         concat (map (\<lambda>k. validate_consumed_items
                            (map (\<lambda>(link, name, _). (link, name)) (consumed i k)) k links who)
                   [KTopic, KService, KAction]))"

subsection \<open>What the validation accepts\<close>

lemma kind_from_display: "kind_from_str (kind_display k) = Inr k"
  by (cases k) (simp_all add: kind_from_str_def)

lemma exposure_scan_native:
  "isl (exposure_scan name found es) \<longleftrightarrow> (\<exists>n. (None, n) \<in> set es \<and> trim n = name)"
proof (induction name found es rule: exposure_scan.induct)
  case (2 name found link ename rest)
  then show ?case by (cases link) auto
qed simp

definition natively_exposes :: "node_config \<Rightarrow> interface_kind \<Rightarrow> string \<Rightarrow> bool" where
  "natively_exposes c k name \<longleftrightarrow>
     list_ex (\<lambda>(l, n). l = None \<and> trim n = name) (produced (nc_interfaces c) k)"

lemma find_exposure_native: "find_exposure c k name = ExpNative \<longleftrightarrow> natively_exposes c k name"
proof -
  have "natively_exposes c k name \<longleftrightarrow>
      isl (exposure_scan name None (produced (nc_interfaces c) k))"
    by (auto simp: natively_exposes_def list_ex_iff exposure_scan_native)
  moreover have "find_exposure c k name = ExpNative \<longleftrightarrow>
      isl (exposure_scan name None (produced (nc_interfaces c) k))"
    by (cases "exposure_scan name None (produced (nc_interfaces c) k)")
       (simp_all add: find_exposure_def split: option.split)
  ultimately show ?thesis by simp
qed

lemma validate_consumed_interface_ok:
  "validate_consumed_interface link name k dep who = [] \<longleftrightarrow>
     natively_exposes (rd_config dep) k (trim name)"
  unfolding find_exposure_native [symmetric] validate_consumed_interface_def
  by (cases "find_exposure (rd_config dep) k (trim name)") simp_all

definition dependency_present ::
    "missing_dependency_policy \<Rightarrow> (string \<Rightarrow> string \<Rightarrow> node_config option) \<Rightarrow> node_dependency \<Rightarrow> bool" where
  "dependency_present pol resolve dep \<longleftrightarrow>
     resolve (nd_name dep) (nd_tag dep) \<noteq> None \<or>
     (pol = AllowAbsentWhenSlotAdmitsEmpty \<and> admits (nd_cardinality dep) 0)"

lemma resolve_nodes_errors:
  "fst (resolve_nodes who pol resolve deps m) =
     map (\<lambda>dep. MissingDependency (dpt_name who) (dpt_tag who) (nd_name dep) (nd_tag dep))
       (filter (\<lambda>dep. \<not> dependency_present pol resolve dep) deps)"
proof (induction deps arbitrary: m)
  case (Cons dep deps)
  then show ?case
    by (cases "dependency_present pol resolve dep")
       (auto simp: dependency_present_def Let_def case_prod_beta split: option.split)
qed simp

lemma resolve_nodes_map:
  "snd (resolve_nodes who pol resolve deps m) =
     fold (\<lambda>dep m. case resolve (nd_name dep) (nd_tag dep) of
             None \<Rightarrow> m
           | Some c \<Rightarrow> m(nd_link_id dep \<mapsto>
               \<lparr>rd_name = nd_name dep, rd_tag = nd_tag dep, rd_config = c\<rparr>)) deps m"
  by (induction deps arbitrary: m) (auto simp: Let_def case_prod_beta split: option.split)

declare resolve_nodes.simps [simp del]

lemma resolve_nodes_other:
  "link \<notin> nd_link_id ` set deps \<Longrightarrow> snd (resolve_nodes who pol resolve deps m) link = m link"
  unfolding resolve_nodes_map
  by (induction deps arbitrary: m) (simp_all split: option.split)

lemma resolve_nodes_link:
  assumes "distinct (map nd_link_id deps)" and "dep \<in> set deps" and "m (nd_link_id dep) = None"
  shows "map_option rd_config (snd (resolve_nodes who pol resolve deps m) (nd_link_id dep)) =
     resolve (nd_name dep) (nd_tag dep)"
  using assms
proof (induction deps arbitrary: m)
  case (Cons d deps)
  show ?case
  proof (cases "dep = d")
    case True
    with Cons.prems have "nd_link_id dep \<notin> nd_link_id ` set deps" by simp
    from resolve_nodes_other [OF this] True Cons.prems(3) show ?thesis
      by (cases "resolve (nd_name d) (nd_tag d)") (simp_all add: resolve_nodes_map)
  next
    case False
    with Cons.prems have rest: "dep \<in> set deps" by simp
    then have "nd_link_id dep \<in> nd_link_id ` set deps" by simp
    with Cons.prems(1) have "nd_link_id dep \<noteq> nd_link_id d" by auto
    with rest Cons.prems Cons.IH show ?thesis
      by (cases "resolve (nd_name d) (nd_tag d)") (simp_all add: resolve_nodes_map)
  qed
qed simp

text \<open>What a consumed item may name, by the kind of slot its link id belongs to.\<close>

definition consumed_item_ok ::
    "manifest \<Rightarrow> (string \<Rightarrow> string \<Rightarrow> node_config option) \<Rightarrow> interface_kind \<Rightarrow> string \<Rightarrow> string \<Rightarrow> bool" where
  "consumed_item_ok m resolve k link name \<longleftrightarrow>
     (case m_depends_on m of
        None \<Rightarrow> False
      | Some d \<Rightarrow>
          if link \<in> set (pairing_link_ids d) then k = KTopic
          else link \<notin> ie_link_id ` set (m_implements m) \<and>
               link \<in> fst ` set (producer_slots d) \<and>
               list_all (\<lambda>dep. nd_link_id dep = link \<longrightarrow>
                 (case resolve (nd_name dep) (nd_tag dep) of
                    None \<Rightarrow> True | Some c \<Rightarrow> natively_exposes c k (trim name))) (dep_nodes d))"

lemma node_link_in_producer_slots:
  "dep \<in> set (dep_nodes d) \<Longrightarrow> nd_link_id dep \<in> fst ` set (producer_slots d)"
  by (force simp: producer_slots_def)

text \<open>The links a manifest declares, as the validation collects them.\<close>

definition manifest_links ::
    "manifest \<Rightarrow> missing_dependency_policy \<Rightarrow> (string \<Rightarrow> string \<Rightarrow> node_config option) \<Rightarrow>
     dependant \<Rightarrow> declared_links" where
  "manifest_links m pol resolve who =
     (let d = m_depends_on m in
      \<lparr>resolved_dependencies =
         snd (resolve_nodes who pol resolve (case_option [] dep_nodes d) Map.empty),
       dl_dependency_link_ids = case_option [] (\<lambda>d. map fst (producer_slots d)) d,
       dl_pairing_link_ids = case_option [] pairing_link_ids d,
       dl_implements_link_ids = map ie_link_id (m_implements m)\<rparr>)"

lemma validate_dependency_specs_alt:
  "validate_dependency_specs m i dname dtag pol resolve =
     (let who = \<lparr>dpt_name = dname, dpt_tag = dtag\<rparr> in
      fst (resolve_nodes who pol resolve (case_option [] dep_nodes (m_depends_on m)) Map.empty) @
      concat (map (\<lambda>k. concat (map (\<lambda>x. validate_consumed_item k
          (manifest_links m pol resolve who) who (fst x, fst (snd x))) (consumed i k)))
        [KTopic, KService, KAction]))"
  by (simp add: validate_dependency_specs_def validate_consumed_items_def manifest_links_def Let_def
      comp_def case_prod_beta)

lemma validate_consumed_item_ok:
  assumes "m_depends_on m = Some d" and "distinct (map nd_link_id (dep_nodes d))"
  shows "validate_consumed_item k (manifest_links m pol resolve who) who (link, name) = [] \<longleftrightarrow>
     consumed_item_ok m resolve k link name"
proof -
  let ?r = "snd (resolve_nodes who pol resolve (dep_nodes d) Map.empty)"
  have "(case ?r link of
           None \<Rightarrow> link \<in> fst ` set (producer_slots d)
         | Some dep \<Rightarrow> natively_exposes (rd_config dep) k (trim name)) \<longleftrightarrow>
        link \<in> fst ` set (producer_slots d) \<and>
        list_all (\<lambda>dep. nd_link_id dep = link \<longrightarrow>
          (case resolve (nd_name dep) (nd_tag dep) of
             None \<Rightarrow> True | Some c \<Rightarrow> natively_exposes c k (trim name))) (dep_nodes d)"
  proof (cases "link \<in> nd_link_id ` set (dep_nodes d)")
    case True
    then obtain dep where dep: "dep \<in> set (dep_nodes d)" "nd_link_id dep = link" by auto
    with assms(2) have only: "\<forall>x\<in>set (dep_nodes d). nd_link_id x = link \<longrightarrow> x = dep"
      by (auto simp: distinct_map inj_on_def)
    have all: "list_all (\<lambda>x. nd_link_id x = link \<longrightarrow> Q x) (dep_nodes d) = Q dep" for Q
      unfolding list_all_iff using dep only by blast
    have slot: "link \<in> fst ` set (producer_slots d)"
      using node_link_in_producer_slots dep by blast
    from dep assms(2) have "map_option rd_config (?r link) = resolve (nd_name dep) (nd_tag dep)"
      using resolve_nodes_link [of "dep_nodes d" dep Map.empty] by simp
    with slot show ?thesis
      unfolding all by (auto split: option.splits)
  next
    case False
    then have "?r link = None" by (simp add: resolve_nodes_other)
    with False show ?thesis by (auto simp: list_all_iff)
  qed
  then have "consumed_item_ok m resolve k link name \<longleftrightarrow>
      (if link \<in> set (pairing_link_ids d) then k = KTopic
       else link \<notin> ie_link_id ` set (m_implements m) \<and>
         (case ?r link of
            None \<Rightarrow> link \<in> fst ` set (producer_slots d)
          | Some dep \<Rightarrow> natively_exposes (rd_config dep) k (trim name)))"
    by (simp only: consumed_item_ok_def assms(1) option.case)
  moreover have "validate_consumed_item k (manifest_links m pol resolve who) who (link, name) = [] \<longleftrightarrow>
      (if link \<in> set (pairing_link_ids d) then k = KTopic
       else link \<notin> ie_link_id ` set (m_implements m) \<and>
         (case ?r link of
            None \<Rightarrow> link \<in> fst ` set (producer_slots d)
          | Some dep \<Rightarrow> natively_exposes (rd_config dep) k (trim name)))"
    by (cases "?r link")
       (simp_all add: validate_consumed_item_def manifest_links_def Let_def assms(1)
         validate_consumed_interface_ok)
  ultimately show ?thesis by simp
qed

lemma validate_consumed_item_no_block:
  "m_depends_on m = None \<Longrightarrow>
     validate_consumed_item k (manifest_links m pol resolve who) who (link, name) \<noteq> []"
  by (simp add: validate_consumed_item_def manifest_links_def Let_def resolve_nodes.simps)

text \<open>
  C12: validating the dependencies of a manifest whose node slots have distinct link ids finds no
  error exactly when every declared node dependency resolves, or may be absent under the policy,
  and every consumed item names a slot it may name: a pairing slot for a topic only, never an
  implemented contract's slot, always a declared slot, and for a node slot that resolves an
  interface that the producer exposes natively.
\<close>

theorem validate_dependency_specs_accepts:
  assumes "distinct (map nd_link_id (case_option [] dep_nodes (m_depends_on m)))"
  shows "validate_dependency_specs m i dname dtag pol resolve = [] \<longleftrightarrow>
     list_all (dependency_present pol resolve) (case_option [] dep_nodes (m_depends_on m)) \<and>
     (\<forall>k link name refines. (link, name, refines) \<in> set (consumed i k) \<longrightarrow>
        consumed_item_ok m resolve k link name)"
proof -
  let ?who = "\<lparr>dpt_name = dname, dpt_tag = dtag\<rparr>"
  have item: "validate_consumed_item k (manifest_links m pol resolve ?who) ?who (link, name) = [] \<longleftrightarrow>
      consumed_item_ok m resolve k link name" for k link name
  proof (cases "m_depends_on m")
    case None
    then show ?thesis using validate_consumed_item_no_block by (simp add: consumed_item_ok_def)
  next
    case (Some d)
    then show ?thesis using assms validate_consumed_item_ok by simp
  qed
  have items: "concat (map (\<lambda>x. validate_consumed_item k (manifest_links m pol resolve ?who) ?who
        (fst x, fst (snd x))) (consumed i k)) = [] \<longleftrightarrow>
      (\<forall>link name refines. (link, name, refines) \<in> set (consumed i k) \<longrightarrow>
         consumed_item_ok m resolve k link name)" for k
    using item by force
  have kinds: "(\<forall>k. P k) \<longleftrightarrow> P KTopic \<and> P KService \<and> P KAction" for P
    by (metis interface_kind.exhaust)
  show ?thesis
    unfolding validate_dependency_specs_alt Let_def list.map concat.simps append_Nil2 append_is_Nil_conv
      items kinds resolve_nodes_errors list_all_iff
    by (simp add: filter_empty_conv)
qed

text \<open>A batch of two nodes: the camera exposes a topic natively, the viewer consumes it.\<close>

definition camera_config :: node_config where
  "camera_config =
     \<lparr>nc_manifest = \<lparr>m_name = ''camera'', m_tag = ''v1'', m_implements = [], m_depends_on = None\<rparr>,
      nc_interfaces =
        \<lparr>topics = Some \<lparr>produces = Some [Native \<lparr>ne_name = ''frames'', ne_declaration = ''raw''\<rparr>],
                       consumes = None\<rparr>, services = None, actions = None\<rparr>,
      nc_container = False\<rparr>"

definition viewer_config :: node_config where
  "viewer_config =
     \<lparr>nc_manifest =
        \<lparr>m_name = ''viewer'', m_tag = ''v1'', m_implements = [],
         m_depends_on = Some
           \<lparr>dep_nodes = [\<lparr>nd_name = ''camera'', nd_tag = ''v1'', nd_link_id = ''cam'',
                         nd_cardinality = One\<rparr>],
            dep_contracts = [], dep_daemon = [], dep_pairings = [], dep_observers = []\<rparr>\<rparr>,
      nc_interfaces =
        \<lparr>topics = Some \<lparr>produces = None,
                       consumes = Some [\<lparr>ce_link_id = ''cam'', ce_name = ''frames'',
                                        ce_refine = None\<rparr>]\<rparr>, services = None, actions = None\<rparr>,
      nc_container = False\<rparr>"

definition camera_only :: "string \<Rightarrow> string \<Rightarrow> node_config option" where
  "camera_only n t = (if n = ''camera'' \<and> t = ''v1'' then Some camera_config else None)"

lemmas batch_defs = camera_config_def viewer_config_def camera_only_def

theorem validate_dependency_specs_accepts_witness:
  "validate_dependency_specs (nc_manifest viewer_config) (nc_interfaces viewer_config) ''viewer'' ''v1''
     RequireResolvable camera_only = []"
proof -
  have "distinct (map nd_link_id (case_option [] dep_nodes (m_depends_on (nc_manifest viewer_config))))"
    and "list_all (dependency_present RequireResolvable camera_only)
      (case_option [] dep_nodes (m_depends_on (nc_manifest viewer_config)))"
    by (simp_all add: batch_defs dependency_present_def)
  moreover have "consumed_item_ok (nc_manifest viewer_config) camera_only k link name"
    if "(link, name, refines) \<in> set (consumed (nc_interfaces viewer_config) k)" for k link name refines
    using that
    by (cases k) (auto simp: consumed_def section_of_def or_default_def batch_defs consumed_item_ok_def
        pairing_link_ids_def producer_slots_def natively_exposes_def produced_def trim_def is_space_def)
  ultimately show ?thesis
    using validate_dependency_specs_accepts [of "nc_manifest viewer_config"
        "nc_interfaces viewer_config" _ _ RequireResolvable camera_only]
    by blast
qed

end
