(* ===== verification/Node_Entity.thy ===== *)
theory Node_Entity
  imports Node_Instance Node_Config
begin

text \<open>
  A node of the stack: \<open>NodeEntity\<close> of \<open>node-stack-internal/src/node_stack/entity.rs\<close>, its stages,
  its build and the starts, exits, claims and removals of its instances. An operation that runs in
  one section of the entity's lock is one function. \<open>build\<close>, \<open>prepare_and_spawn\<close>, \<open>commit_started\<close>
  and \<open>abort_started\<close> release the lock between their phases: each phase is a function, and
  \<open>interfere\<close> is what other tasks do to the entity and the world at a release.

  What the file system, the process spawner and the builder answer are arguments. The value in the
  stage watch channel is the field \<open>stage_label\<close>.
\<close>

section \<open>Stages\<close>

record built_in_launch =
  bl_executable :: string
  bl_args :: "string list"
  bl_env :: "(string \<times> string) list"

datatype artifact = Built string | BuiltIn built_in_launch

fun artifact_file :: "artifact \<Rightarrow> string" where
  "artifact_file (Built p) = p"
| "artifact_file (BuiltIn l) = bl_executable l"

fun artifact_built_in :: "artifact \<Rightarrow> built_in_launch option" where
  "artifact_built_in (Built p) = None"
| "artifact_built_in (BuiltIn l) = Some l"

datatype serialized_stage = SAdded | SBuilding | SReady | SRoot

fun stage_as_str :: "serialized_stage \<Rightarrow> string" where
  "stage_as_str SAdded = ''Added''"
| "stage_as_str SBuilding = ''Building''"
| "stage_as_str SReady = ''Ready''"
| "stage_as_str SRoot = ''Root''"

datatype node_stage =
    Added string
  | Building string
  | Ready string artifact "tracked_instance list"
  | Root string tracked_instance

fun to_serialized :: "node_stage \<Rightarrow> serialized_stage" where
  "to_serialized (Added _) = SAdded"
| "to_serialized (Building _) = SBuilding"
| "to_serialized (Ready _ _ _) = SReady"
| "to_serialized (Root _ _) = SRoot"

definition stage_name :: "node_stage \<Rightarrow> string" where
  "stage_name st = stage_as_str (to_serialized st)"

fun ensure_buildable :: "node_stage \<Rightarrow> string + unit" where
  "ensure_buildable (Added _) = Inr ()"
| "ensure_buildable other = Inl (stage_name other)"

fun ensure_spawnable :: "node_stage \<Rightarrow> string + unit" where
  "ensure_spawnable (Ready _ _ _) = Inr ()"
| "ensure_spawnable other = Inl (stage_name other)"

section \<open>Errors\<close>

datatype stack_error =
    ErrConfig dependency_error
  | PairingSlotNotFound string string
  | PairingInstanceNotInStack string
  | PairingInstanceWithoutProcess string instance_state
  | PairingSlotAlreadyPaired string string
  | PairAlreadyHeld string string
  | PairingRolesNotComplementary string string string string string
  | PairingMismatch string string string string string string
  | PairingShaMismatch string string string string string string
  | CannotModifyRootNode
  | CannotOverwriteNodeWithDependents string string
  | CannotOverwriteNodeWithLiveInstances string string
  | DuplicateInstanceId string string string string instance_state
  | RespawnTargetMissing string
  | ErrStartClaimed string
  | CannotRemoveNodeWithInstances string string
  | InvalidStageTransition string string string string
  | BuildFailed string string string
  | StartFailed string string string
  | VirtualDeptreeCycle "string list"
  | ServiceActionContractCycle "string list" string string
  | DuplicateLocalNode string string string string

section \<open>The entity\<close>

record node_entity =
  ent_config :: node_config
  ent_stage :: node_stage
  generation :: u64
  pending_working_dir :: "string option"
  documents :: "string list"
  stage_label :: serialized_stage

abbreviation ent_name :: "node_entity \<Rightarrow> string" where
  "ent_name e \<equiv> m_name (nc_manifest (ent_config e))"

abbreviation ent_tag :: "node_entity \<Rightarrow> string" where
  "ent_tag e \<equiv> m_tag (nc_manifest (ent_config e))"

definition with_stage ::
    "node_config \<Rightarrow> node_stage \<Rightarrow> string list \<Rightarrow> world \<Rightarrow> node_entity \<times> world" where
  "with_stage c st docs w =
     (let (g, w1) = next_entity_generation w
      in (\<lparr>ent_config = c, ent_stage = st, generation = g, pending_working_dir = None,
           documents = docs, stage_label = to_serialized st\<rparr>, w1))"

definition entity_built_in ::
    "node_config \<Rightarrow> string \<Rightarrow> built_in_launch \<Rightarrow> string list \<Rightarrow> world \<Rightarrow> node_entity \<times> world" where
  "entity_built_in c path launch docs w = with_stage c (Ready path (BuiltIn launch) []) docs w"

definition entity_new :: "node_config \<Rightarrow> string \<Rightarrow> string list \<Rightarrow> world \<Rightarrow> node_entity \<times> world" where
  "entity_new c path docs w = with_stage c (Added path) docs w"

definition entity_root :: "node_config \<Rightarrow> string \<Rightarrow> tracked_instance \<Rightarrow> world \<Rightarrow> node_entity \<times> world" where
  "entity_root c path t w = with_stage c (Root path t) [] w"

definition broadcast_stage :: "node_entity \<Rightarrow> node_entity" where
  "broadcast_stage e = e\<lparr>stage_label := to_serialized (ent_stage e)\<rparr>"

definition set_pending_working_dir :: "string \<Rightarrow> node_entity \<Rightarrow> node_entity" where
  "set_pending_working_dir d e = e\<lparr>pending_working_dir := Some d\<rparr>"

definition take_pending_working_dir_if_generation ::
    "u64 \<Rightarrow> node_entity \<Rightarrow> (u64 + string option) \<times> node_entity" where
  "take_pending_working_dir_if_generation expected e =
     (if generation e = expected
      then (Inr (pending_working_dir e), e\<lparr>pending_working_dir := None\<rparr>)
      else (Inl (generation e), e))"

definition rollback_building_to_added :: "string \<Rightarrow> node_entity \<Rightarrow> node_entity" where
  "rollback_building_to_added dir e =
     (case ent_stage e of
        Building path \<Rightarrow>
          (broadcast_stage (e\<lparr>ent_stage := Added path\<rparr>))\<lparr>pending_working_dir := Some dir\<rparr>
      | _ \<Rightarrow> e)"

definition config_path :: "node_entity \<Rightarrow> string" where
  "config_path e =
     (case ent_stage e of Added p \<Rightarrow> p | Building p \<Rightarrow> p | Ready p _ _ \<Rightarrow> p | Root p _ \<Rightarrow> p)"

definition artifact_path :: "node_entity \<Rightarrow> string option" where
  "artifact_path e = (case ent_stage e of Ready _ a _ \<Rightarrow> Some (artifact_file a) | _ \<Rightarrow> None)"

definition instances :: "node_entity \<Rightarrow> tracked_instance list" where
  "instances e =
     (case ent_stage e of Ready _ _ is \<Rightarrow> is | Root _ t \<Rightarrow> [t] | Added _ \<Rightarrow> [] | Building _ \<Rightarrow> [])"

section \<open>Building\<close>

record build_snapshot =
  bs_node_name :: string
  bs_node_tag :: string
  bs_config_path :: string
  bs_generation :: u64

text \<open>Phase 1 of \<open>build\<close>: \<open>Added\<close> to \<open>Building\<close>, with the snapshot the build works from.\<close>

definition build_begin :: "node_entity \<Rightarrow> (stack_error + build_snapshot) \<times> node_entity" where
  "build_begin e =
     (case ensure_buildable (ent_stage e) of
        Inl from \<Rightarrow> (Inl (InvalidStageTransition (ent_name e) (ent_tag e) from ''Ready''), e)
      | Inr _ \<Rightarrow>
          (Inr \<lparr>bs_node_name = ent_name e, bs_node_tag = ent_tag e,
                bs_config_path = config_path e, bs_generation = generation e\<rparr>,
           broadcast_stage (e\<lparr>ent_stage := Building (config_path e)\<rparr>)))"

text \<open>Phase 3 of \<open>build\<close>: publish the artifact, on the entity the build started from only.\<close>

definition build_publish ::
    "build_snapshot \<Rightarrow> (stack_error + string) \<Rightarrow> node_entity \<Rightarrow> (stack_error + string) \<times> node_entity" where
  "build_publish snap build_result e =
     (if to_serialized (ent_stage e) \<noteq> SBuilding \<or> generation e \<noteq> bs_generation snap
      then (Inl (InvalidStageTransition (bs_node_name snap) (bs_node_tag snap)
                   (stage_name (ent_stage e)) ''Ready''), e)
      else case build_result of
             Inl err \<Rightarrow> (Inl err, e)
           | Inr path \<Rightarrow>
               (Inr path,
                broadcast_stage (e\<lparr>ent_stage := Ready (bs_config_path snap) (Built path) []\<rparr>)))"

definition build ::
    "(build_snapshot \<Rightarrow> stack_error + string) \<Rightarrow> (node_entity \<Rightarrow> node_entity) \<Rightarrow> node_entity \<Rightarrow>
     (stack_error + string) \<times> node_entity" where
  "build produce_artifact interfere e =
     (case build_begin e of
        (Inl err, e1) \<Rightarrow> (Inl err, e1)
      | (Inr snap, e1) \<Rightarrow> build_publish snap (produce_artifact snap) (interfere e1))"

section \<open>The slots of an entity\<close>

definition instances_mut :: "node_entity \<Rightarrow> tracked_instance list" where
  "instances_mut e = (case ent_stage e of Ready _ _ is \<Rightarrow> is | _ \<Rightarrow> [])"

definition set_instances :: "tracked_instance list \<Rightarrow> node_entity \<Rightarrow> node_entity" where
  "set_instances is e =
     (case ent_stage e of Ready p a _ \<Rightarrow> e\<lparr>ent_stage := Ready p a is\<rparr> | _ \<Rightarrow> e)"

definition instance_of :: "node_entity \<Rightarrow> string \<Rightarrow> tracked_instance option" where
  "instance_of e i = find (\<lambda>t. instance_id t = i) (instances e)"

definition instance_mut :: "node_entity \<Rightarrow> string \<Rightarrow> tracked_instance option" where
  "instance_mut e i = find (\<lambda>t. instance_id t = i) (instances_mut e)"

text \<open>
  An edit of the slot \<open>i\<close> when it is there and \<open>guard\<close> holds of it: \<open>instance_mut(i)\<close>, \<open>filter\<close> and
  \<open>map\<close> of the code. It gives what the edit returned, or nothing.
\<close>

definition edit_if ::
    "(tracked_instance \<Rightarrow> bool) \<Rightarrow> (tracked_instance \<Rightarrow> 'r \<times> tracked_instance) \<Rightarrow> string \<Rightarrow>
     node_entity \<Rightarrow> 'r option \<times> node_entity" where
  "edit_if guard edit i e =
     (case instance_mut e i of
        None \<Rightarrow> (None, e)
      | Some t \<Rightarrow>
          if guard t
          then (Some (fst (edit t)),
                set_instances (update_first (\<lambda>t. instance_id t = i) (\<lambda>_. snd (edit t))
                  (instances_mut e)) e)
          else (None, e))"

definition edit_instance ::
    "(tracked_instance \<Rightarrow> tracked_instance) \<Rightarrow> string \<Rightarrow> node_entity \<Rightarrow> bool \<times> node_entity" where
  "edit_instance f i e =
     (let (r, e') = edit_if (\<lambda>_. True) (\<lambda>t. ((), f t)) i e in (r \<noteq> None, e'))"

definition edit_restarting ::
    "(tracked_instance \<Rightarrow> tracked_instance) \<Rightarrow> string \<Rightarrow> node_entity \<Rightarrow> bool \<times> node_entity" where
  "edit_restarting f i e =
     (let (r, e') = edit_if (\<lambda>t. inst_state t = Restarting) (\<lambda>t. ((), f t)) i e in (r \<noteq> None, e'))"

definition edit_awaiting_restart ::
    "(tracked_instance \<Rightarrow> 'r \<times> tracked_instance) \<Rightarrow> string \<Rightarrow> node_entity \<Rightarrow> 'r option \<times> node_entity" where
  "edit_awaiting_restart f i e = edit_if awaits_restart f i e"

definition edit_process ::
    "(tracked_instance \<Rightarrow> tracked_instance) \<Rightarrow> string \<Rightarrow> u32 \<Rightarrow> node_entity \<Rightarrow> node_entity" where
  "edit_process f i p e = snd (edit_if (\<lambda>t. runs_process t p) (\<lambda>t. ((), f t)) i e)"

text \<open>
  \<open>stopping\<close> and the restart token are shared atomics, so a claim needs only \<open>&self\<close>: it reaches
  the slot of any stage.
\<close>

definition shared_edit ::
    "(tracked_instance \<Rightarrow> tracked_instance) \<Rightarrow> string \<Rightarrow> node_entity \<Rightarrow> node_entity" where
  "shared_edit f i e =
     (case ent_stage e of
        Ready p a is \<Rightarrow> e\<lparr>ent_stage := Ready p a (update_first (\<lambda>t. instance_id t = i) f is)\<rparr>
      | Root p t \<Rightarrow> (if instance_id t = i then e\<lparr>ent_stage := Root p (f t)\<rparr> else e)
      | _ \<Rightarrow> e)"

record process_group =
  pg_pid :: u32
  pg_is_container :: bool

definition process_group_of :: "node_entity \<Rightarrow> u32 \<Rightarrow> process_group" where
  "process_group_of e p = \<lparr>pg_pid = p, pg_is_container = nc_container (ent_config e)\<rparr>"

section \<open>Starting an instance\<close>

definition undo_start :: "string \<Rightarrow> node_entity \<Rightarrow> node_entity" where
  "undo_start i e =
     (let is = instances_mut e;
          starting = (\<lambda>t. instance_id t = i \<and> inst_state t = Starting)
      in case find starting is of
           None \<Rightarrow> e
         | Some t \<Rightarrow>
             if starts_a_restart t \<and> \<not> stopping t
             then set_instances (update_first starting revert_respawn is) e
             else set_instances (remove_first starting is) e)"

definition abandoned_start_group :: "string \<Rightarrow> start_run \<Rightarrow> node_entity \<Rightarrow> process_group option" where
  "abandoned_start_group i run e =
     (case instance_of e i of
        None \<Rightarrow> None
      | Some t \<Rightarrow> if starts_for t run then map_option (process_group_of e) (pid t) else None)"

definition undo_abandoned_start ::
    "(node_entity \<Rightarrow> node_entity) \<Rightarrow> string \<Rightarrow> start_run \<Rightarrow> node_entity \<Rightarrow> bool \<times> node_entity" where
  "undo_abandoned_start interfere i run e =
     (let (starts, awaits) = (case instance_of e i of
            None \<Rightarrow> (False, False) | Some t \<Rightarrow> (starts_for t run, awaits_restart_of t run))
      in (starts \<or> awaits, if starts then undo_start i (interfere e) else e))"

definition record_starting_process :: "string \<Rightarrow> u32 \<Rightarrow> spawn_files \<Rightarrow> node_entity \<Rightarrow> node_entity" where
  "record_starting_process i p files e =
     snd (edit_if (\<lambda>t. inst_state t = Starting) (\<lambda>t. ((), set_starting_process p files t)) i e)"

record start_context =
  sc_core_node :: string
  sc_run_log_path :: string
  sc_instance_id :: string
  sc_slot_bindings :: slot_bindings
  sc_clock :: clock_binding
  sc_launch :: "launch_identity option"
  sc_copy :: "string option"
  sc_spawn :: spawn_target
  sc_credential :: string

text \<open>The slot a first start registers.\<close>

definition first_slot :: "start_context \<Rightarrow> first_start \<Rightarrow> world \<Rightarrow> tracked_instance \<times> world" where
  "first_slot ctx fs w =
     (let (t, w1) = tracked_new (sc_instance_id ctx) Starting (sc_slot_bindings ctx) w
      in ((with_first_start fs (t\<lparr>inst_clock := sc_clock ctx, inst_launch := sc_launch ctx,
             inst_copy := sc_copy ctx\<rparr>))\<lparr>run_log_path := Some (sc_run_log_path ctx)\<rparr>, w1))"

text \<open>Phase 1 of \<open>prepare_and_spawn\<close>: registers the start, and gives the generation it saw.\<close>

definition register_start ::
    "start_context \<Rightarrow> node_entity \<Rightarrow> world \<Rightarrow> (stack_error + u64) \<times> node_entity \<times> world" where
  "register_start ctx e w =
     (case ensure_spawnable (ent_stage e) of
        Inl from \<Rightarrow> (Inl (InvalidStageTransition (ent_name e) (ent_tag e) from ''spawn instance''), e, w)
      | Inr _ \<Rightarrow>
          (case sc_spawn ctx of
             SpawnNew fs \<Rightarrow>
               (case find (\<lambda>t. instance_id t = sc_instance_id ctx) (instances_mut e) of
                  Some t \<Rightarrow>
                    (Inl (DuplicateInstanceId (sc_instance_id ctx) (ent_name e) (ent_tag e)
                            (sc_core_node ctx) (inst_state t)), e, w)
                | None \<Rightarrow>
                    let (t, w1) = first_slot ctx fs w
                    in (Inr (generation e), set_instances (instances_mut e @ [t]) e, w1))
           | Respawn \<Rightarrow>
               let waiting = (\<lambda>t. instance_id t = sc_instance_id ctx \<and> awaits_restart t)
               in case find waiting (instances_mut e) of
                    None \<Rightarrow> (Inl (RespawnTargetMissing (sc_instance_id ctx)), e, w)
                  | Some t \<Rightarrow>
                      let (t', w1) = begin_respawn t w
                      in (Inr (generation e),
                          set_instances (update_first waiting (\<lambda>_. t') (instances_mut e)) e, w1)))"

text \<open>Phase 3b: a stop that claimed the slot ends the start, otherwise the process is forked and
  recorded in the same section.\<close>

definition fork_start ::
    "start_context \<Rightarrow> string \<times> string \<Rightarrow> spawn_files \<Rightarrow> string \<Rightarrow> string + u32 \<Rightarrow> node_entity \<Rightarrow> world \<Rightarrow>
     (stack_error + u32) \<times> node_entity \<times> world" where
  "fork_start ctx node files desc forked e w =
     (if (case instance_of e (sc_instance_id ctx) of None \<Rightarrow> False | Some t \<Rightarrow> stopping t)
      then (Inl (ErrStartClaimed (sc_instance_id ctx)), e, w)
      else case forked of
             Inl reason \<Rightarrow>
               (Inl (StartFailed (fst node) (snd node)
                  (''failed to spawn `'' @ desc @ ''`: '' @ reason)), e, w)
           | Inr p \<Rightarrow>
               (Inr p, record_starting_process (sc_instance_id ctx) p files e,
                w\<lparr>live_groups := insert p (live_groups w)\<rparr>))"

record started_ctx =
  st_instance_dir :: string
  st_spawn_files :: spawn_files
  st_group :: process_group
  st_generation :: u64

record spawn_command =
  cmd_runtime_config :: string
  cmd_description :: string

text \<open>What the file system and the spawner answer at each phase of one start.\<close>

record start_io =
  io_instance_dir :: "string + string"
  io_command :: "string + spawn_command"
  io_fork :: "string + u32"

type_synonym interference = "nat \<Rightarrow> node_entity \<times> world \<Rightarrow> node_entity \<times> world"

text \<open>An error return drops the guard of the key file, which removes the file.\<close>

definition refuse_start ::
    "start_context \<Rightarrow> stack_error \<Rightarrow> node_entity \<times> world \<Rightarrow>
     (stack_error + started_ctx) \<times> node_entity \<times> world" where
  "refuse_start ctx err ew = (Inl err, fst ew, remove_path (sc_credential ctx) (snd ew))"

definition prepare_and_spawn ::
    "interference \<Rightarrow> start_context \<Rightarrow> start_io \<Rightarrow> node_entity \<Rightarrow> world \<Rightarrow>
     (stack_error + started_ctx) \<times> node_entity \<times> world" where
  "prepare_and_spawn interfere ctx io e w =
     (let i = sc_instance_id ctx; node = (ent_name e, ent_tag e) in
      case register_start ctx e w of
        (Inl err, e1, w1) \<Rightarrow> refuse_start ctx err (e1, w1)
      | (Inr gen, e1, w1) \<Rightarrow>
         let (e2, w2) = interfere 0 (e1, w1) in
         case io_instance_dir io of
           Inl reason \<Rightarrow>
             refuse_start ctx (StartFailed (fst node) (snd node) reason) (undo_start i e2, w2)
         | Inr dir \<Rightarrow>
            let w3 = w2\<lparr>disk := insert dir (disk w2)\<rparr>; (e4, w4) = interfere 1 (e2, w3) in
            case io_command io of
              Inl reason \<Rightarrow>
                refuse_start ctx
                  (StartFailed (fst node) (snd node) (''failed to build spawn command: '' @ reason))
                  (undo_start i e4, remove_dir_all dir w4)
            | Inr cmd \<Rightarrow>
               let files = \<lparr>sf_runtime_config = cmd_runtime_config cmd,
                            sf_credential = sc_credential ctx\<rparr>;
                   w5 = w4\<lparr>disk := insert (cmd_runtime_config cmd) (disk w4)\<rparr>
               in case fork_start ctx node files (cmd_description cmd) (io_fork io) e4 w5 of
                    (Inl err, e6, w6) \<Rightarrow>
                      let (e7, w7) = interfere 2 (e6, w6)
                      in refuse_start ctx err
                           (undo_start i e7, spawn_files_remove files (remove_dir_all dir w7))
                  | (Inr p, e6, w6) \<Rightarrow>
                      (Inr \<lparr>st_instance_dir = dir, st_spawn_files = files,
                            st_group = \<lparr>pg_pid = p, pg_is_container = nc_container (ent_config e)\<rparr>,
                            st_generation = gen\<rparr>, e6, w6))"

text \<open>The entity half of \<open>commit_started\<close>.\<close>

definition commit_starting_instance ::
    "u64 \<Rightarrow> string \<Rightarrow> string \<Rightarrow> instance_endpoint list \<Rightarrow> instant \<Rightarrow> system_time \<Rightarrow> node_entity \<Rightarrow>
     (stack_error + unit) \<times> node_entity" where
  "commit_starting_instance start_generation i dir eps now wall e =
     (let refuse = (\<lambda>from to. (Inl (InvalidStageTransition (ent_name e) (ent_tag e) from to), e)) in
      if generation e \<noteq> start_generation then refuse ''stale-generation'' ''Running''
      else case ent_stage e of
             Ready p a is \<Rightarrow>
               (case find (\<lambda>t. instance_id t = i) is of
                  None \<Rightarrow> refuse ''missing'' ''Running''
                | Some t \<Rightarrow>
                    if inst_state t \<noteq> Starting then refuse ''Running'' ''Running''
                    else (Inr (), set_instances
                            (update_first (\<lambda>t. instance_id t = i)
                              (\<lambda>t. record_running now wall (set_endpoints eps (set_running dir t))) is) e))
           | _ \<Rightarrow> refuse (stage_name (ent_stage e)) ''Ready'')"

definition commit_started ::
    "started_ctx \<Rightarrow> string \<Rightarrow> instance_endpoint list \<Rightarrow> instant \<Rightarrow> system_time \<Rightarrow> node_entity \<Rightarrow> world \<Rightarrow>
     (stack_error + unit) \<times> node_entity \<times> world" where
  "commit_started sctx i eps now wall e w =
     (case commit_starting_instance (st_generation sctx) i (st_instance_dir sctx) eps now wall e of
        (Inl err, e1) \<Rightarrow>
          (Inl err, e1,
           spawn_files_remove (st_spawn_files sctx)
             (remove_dir_all (st_instance_dir sctx) (kill_group (pg_pid (st_group sctx)) w)))
      | (Inr _, e1) \<Rightarrow> (Inr (), e1, w))"

definition abort_started ::
    "interference \<Rightarrow> started_ctx \<Rightarrow> string \<Rightarrow> node_entity \<Rightarrow> world \<Rightarrow> node_entity \<times> world" where
  "abort_started interfere sctx i e w =
     (let (e1, w1) = interfere 0 (e, kill_group (pg_pid (st_group sctx)) w);
          w2 = spawn_files_remove (st_spawn_files sctx) (remove_dir_all (st_instance_dir sctx) w1)
      in if generation e1 = st_generation sctx
         then let (e3, w3) = interfere 1 (e1, w2) in (undo_start i e3, w3)
         else (e1, w2))"

section \<open>Exits, claims and removals\<close>

definition mark_instance_exited ::
    "string \<Rightarrow> u32 \<Rightarrow> exit_cause \<Rightarrow> restart_backoff \<Rightarrow> instant \<Rightarrow> system_time \<Rightarrow> registrations \<Rightarrow>
     node_entity \<Rightarrow> exit_record option \<times> node_entity" where
  "mark_instance_exited i p cause b now wall regs e =
     edit_if (\<lambda>t. runs_unclaimed_process t p) (record_exit cause b now wall regs) i e"

definition mark_start_failed ::
    "string \<Rightarrow> exit_cause \<Rightarrow> restart_backoff \<Rightarrow> instant \<Rightarrow> system_time \<Rightarrow> node_entity \<Rightarrow>
     attempt_outcome option \<times> node_entity" where
  "mark_start_failed i ext b now wall e =
     edit_awaiting_restart
       (\<lambda>t. take_next_attempt b None now wall
              (t\<lparr>inst_supervision := (inst_supervision t)\<lparr>last_exit := Some ext\<rparr>\<rparr>)) i e"

definition refuse_restart :: "tracked_instance \<Rightarrow> tracked_instance" where
  "refuse_restart t =
     t\<lparr>inst_state := Failed, inst_supervision := (inst_supervision t)\<lparr>next_start := None\<rparr>\<rparr>"

definition mark_restart_refused :: "string \<Rightarrow> node_entity \<Rightarrow> bool \<times> node_entity" where
  "mark_restart_refused i e =
     (let (r, e') = edit_awaiting_restart (\<lambda>t. ((), refuse_restart t)) i e in (r \<noteq> None, e'))"

definition record_respawn_log :: "string \<Rightarrow> string \<Rightarrow> node_entity \<Rightarrow> node_entity" where
  "record_respawn_log i path e =
     snd (edit_awaiting_restart (\<lambda>t. ((), t\<lparr>run_log_path := Some path\<rparr>)) i e)"

definition remove_instance_files :: "tracked_instance \<Rightarrow> world \<Rightarrow> world" where
  "remove_instance_files t w =
     (let w1 = (case instance_dir t of None \<Rightarrow> w | Some d \<Rightarrow> remove_dir_all d w)
      in case inst_spawn_files t of None \<Rightarrow> w1 | Some files \<Rightarrow> spawn_files_remove files w1)"

definition stop_instance ::
    "string \<Rightarrow> node_entity \<Rightarrow> world \<Rightarrow> kept_relations option \<times> node_entity \<times> world" where
  "stop_instance i e w =
     (let removable = (\<lambda>t. instance_id t = i \<and> inst_state t \<noteq> Starting)
      in case find removable (instances_mut e) of
           None \<Rightarrow> (None, e, w)
         | Some t \<Rightarrow>
             (Some (kept_relations_of (inst_supervision t)),
              set_instances (remove_first removable (instances_mut e)) e,
              remove_instance_files t w))"

definition claim_instance :: "string \<Rightarrow> node_entity \<Rightarrow> tracked_instance option \<times> node_entity" where
  "claim_instance i e =
     (case instance_of e i of
        None \<Rightarrow> (None, e)
      | Some t \<Rightarrow> (Some (mark_stopping t), shared_edit mark_stopping i e))"

definition claim_and_remove_slot ::
    "string \<Rightarrow> node_entity \<Rightarrow> world \<Rightarrow> kept_relations option \<times> node_entity \<times> world" where
  "claim_and_remove_slot i e w =
     (case claim_instance i e of
        (None, e1) \<Rightarrow> (None, e1, w)
      | (Some _, e1) \<Rightarrow> stop_instance i e1 w)"

definition claim_and_remove ::
    "string \<Rightarrow> u32 option \<Rightarrow> node_entity \<Rightarrow> world \<Rightarrow> slot_removal \<times> node_entity \<times> world" where
  "claim_and_remove i stopped_pid e w =
     (case instance_of e i of
        None \<Rightarrow> (Untracked, e, w)
      | Some t \<Rightarrow>
          if inst_state t = Starting then (Left (LeftStarting (starts_a_restart t)), e, w)
          else if inst_state t = Running \<and> pid t \<noteq> stopped_pid
          then (Left RunsAnotherProcess, e, w)
          else case claim_and_remove_slot i e w of
                 (None, e1, w1) \<Rightarrow> (Untracked, e1, w1)
               | (Some kept, e1, w1) \<Rightarrow> (Removed kept, e1, w1))"

definition entity_runs_unclaimed_process :: "node_entity \<Rightarrow> string \<Rightarrow> u32 \<Rightarrow> bool" where
  "entity_runs_unclaimed_process e i p =
     (case instance_of e i of None \<Rightarrow> False | Some t \<Rightarrow> runs_unclaimed_process t p)"

definition claim_process :: "string \<Rightarrow> u32 \<Rightarrow> node_entity \<Rightarrow> process_claim \<times> node_entity" where
  "claim_process i p e =
     (case instance_of e i of
        None \<Rightarrow> (ProcessGone, e)
      | Some t \<Rightarrow>
          if \<not> runs_process t p then (ProcessGone, e)
          else let e1 = shared_edit mark_stopping i e
               in if fst (claim_once t) then (ProcessClaimed, e1) else (ProcessClaimedElsewhere, e1))"

definition claim_starting :: "string \<Rightarrow> node_entity \<Rightarrow> starting_claim \<times> node_entity" where
  "claim_starting i e =
     (case instance_of e i of
        None \<Rightarrow> (NotStarting, e)
      | Some t \<Rightarrow>
          if inst_state t \<noteq> Starting then (NotStarting, e)
          else if \<not> stopping t \<and> \<not> starts_a_restart t then (StartIsFirst, e)
          else let e1 = shared_edit mark_stopping i e
               in if fst (claim_once t)
                  then (StartClaimed (kept_relations_of (inst_supervision t)), e1)
                  else (StartClaimedElsewhere, e1))"

definition awaiting_restart_slot :: "node_entity \<Rightarrow> string \<Rightarrow> tracked_instance option" where
  "awaiting_restart_slot e i =
     (case instance_of e i of None \<Rightarrow> None | Some t \<Rightarrow> if awaits_restart t then Some t else None)"

definition respawn_inputs_of :: "string \<Rightarrow> node_entity \<Rightarrow> respawn_inputs option" where
  "respawn_inputs_of i e =
     (case awaiting_restart_slot e i of
        None \<Rightarrow> None
      | Some t \<Rightarrow>
          (case sv_first_start (inst_supervision t) of
             None \<Rightarrow> None
           | Some first \<Rightarrow>
               let regs = sv_registrations (inst_supervision t)
               in Some \<lparr>ri_goal = for_respawn (fs_goal first) (inst_slot_bindings t)
                                   (reg_observations regs) (reg_watchers regs),
                        ri_held_pairs = held_pairs (inst_supervision t),
                        ri_restart = fs_restart first,
                        ri_first_start_goal = fs_goal_ref first,
                        ri_restart_count = restart_count (inst_supervision t),
                        ri_previous_run_log = run_log_path t\<rparr>))"

section \<open>Edits of what an instance keeps\<close>

definition pairing_slot_cardinality :: "node_entity \<Rightarrow> string \<Rightarrow> cardinality option" where
  "pairing_slot_cardinality e link =
     (case m_depends_on (nc_manifest (ent_config e)) of
        None \<Rightarrow> None
      | Some d \<Rightarrow> map_option pd_cardinality (find (\<lambda>p. pd_link_id p = link) (dep_pairings d)))"

definition set_held_pairs :: "planned_pair list \<Rightarrow> tracked_instance \<Rightarrow> tracked_instance" where
  "set_held_pairs ps t = t\<lparr>inst_supervision := (inst_supervision t)\<lparr>held_pairs := ps\<rparr>\<rparr>"

text \<open>The list a recorded pair leaves, with the pairs it displaced.\<close>

definition hold_pair ::
    "cardinality \<Rightarrow> planned_pair \<Rightarrow> planned_pair list \<Rightarrow> planned_pair list \<times> planned_pair list" where
  "hold_pair c pair held =
     (let (displaced, kept) =
            (if is_scalar c
             then partition (\<lambda>other. own other = own pair \<and> other \<noteq> pair) held
             else ([], held))
      in (displaced, if pair \<in> set kept then kept else kept @ [pair]))"

definition record_held_pair :: "planned_pair \<Rightarrow> node_entity \<Rightarrow> planned_pair list option \<times> node_entity" where
  "record_held_pair pair e =
     (case pairing_slot_cardinality e (sa_link_id (own pair)) of
        None \<Rightarrow> (None, e)
      | Some c \<Rightarrow>
          edit_if (\<lambda>_. True)
            (\<lambda>t. let (displaced, held) = hold_pair c pair (held_pairs (inst_supervision t))
                 in (displaced, set_held_pairs held t))
            (sa_instance_id (own pair)) e)"

definition forget_held_pair :: "planned_pair \<Rightarrow> node_entity \<Rightarrow> node_entity" where
  "forget_held_pair pair e =
     snd (edit_instance
       (\<lambda>t. set_held_pairs (filter (\<lambda>h. h \<noteq> pair) (held_pairs (inst_supervision t))) t)
       (sa_instance_id (own pair)) e)"

definition forget_pairs_held_with :: "string \<Rightarrow> string \<Rightarrow> node_entity \<Rightarrow> node_entity" where
  "forget_pairs_held_with core_node i e =
     set_instances
       (map (\<lambda>t. set_held_pairs
          (filter (\<lambda>h. sa_core_node (peer h) \<noteq> core_node \<or> sa_instance_id (peer h) \<noteq> i)
            (held_pairs (inst_supervision t))) t) (instances_mut e)) e"

definition record_observations_for_restart ::
    "string \<Rightarrow> (string \<rightharpoonup> observation_targets) \<Rightarrow> node_entity \<Rightarrow> bool \<times> node_entity" where
  "record_observations_for_restart i observations e =
     edit_restarting
       (\<lambda>t. t\<lparr>inst_supervision := (inst_supervision t)\<lparr>sv_registrations :=
           (sv_registrations (inst_supervision t))\<lparr>reg_observations :=
             reg_observations (sv_registrations (inst_supervision t)) ++ observations\<rparr>\<rparr>\<rparr>) i e"

definition record_watchers_for_restart :: "string \<Rightarrow> string list \<Rightarrow> node_entity \<Rightarrow> node_entity" where
  "record_watchers_for_restart i ws e =
     snd (edit_restarting
       (\<lambda>t. t\<lparr>inst_supervision := (inst_supervision t)\<lparr>sv_registrations :=
           (sv_registrations (inst_supervision t))\<lparr>reg_watchers := ws\<rparr>\<rparr>\<rparr>) i e)"

definition arm_health_kill ::
    "string \<Rightarrow> health_kill \<Rightarrow> node_entity \<Rightarrow> process_group option \<times> node_entity" where
  "arm_health_kill i kill e =
     (let (r, e') = edit_if (\<lambda>t. runs_unclaimed t \<and> pid t \<noteq> None)
            (\<lambda>t. (the (pid t),
                  t\<lparr>inst_supervision := (inst_supervision t)\<lparr>sv_health_kill := Some kill\<rparr>\<rparr>)) i e
      in (map_option (process_group_of e) r, e'))"

definition note_shutdown_request :: "string \<Rightarrow> u32 \<Rightarrow> node_entity \<Rightarrow> node_entity" where
  "note_shutdown_request i p e =
     edit_process (\<lambda>t. t\<lparr>shutdown_requests := shutdown_requests t + 1\<rparr>) i p e"

definition withdraw_shutdown_request :: "string \<Rightarrow> u32 \<Rightarrow> node_entity \<Rightarrow> node_entity" where
  "withdraw_shutdown_request i p e =
     edit_process (\<lambda>t. t\<lparr>shutdown_requests := saturating_sub32 (shutdown_requests t) 1\<rparr>) i p e"

definition set_instance_slot_binding ::
    "string \<Rightarrow> string \<Rightarrow> bound_producers \<Rightarrow> node_entity \<Rightarrow> bool \<times> node_entity" where
  "set_instance_slot_binding i link producers e = edit_instance (set_slot_binding link producers) i e"

definition record_slot_binding_for_restart ::
    "string \<Rightarrow> string \<Rightarrow> bound_producers \<Rightarrow> node_entity \<Rightarrow> bool \<times> node_entity" where
  "record_slot_binding_for_restart i link producers e =
     edit_restarting (set_slot_binding link producers) i e"

end
