(* ===== verification/Entity_Lifecycle.thy ===== *)
theory Entity_Lifecycle
  imports Node_Entity
begin

text \<open>
  What every operation on an entity keeps, whatever the order in which tasks take its lock.
  \<open>slot_edit\<close> is the contract an edit of one slot meets: it keeps the id and the slot invariant
  and moves the slot along its life cycle. Every edit of \<open>Node_Entity\<close> is an instance of it, so the
  lemmas of the locale give the entity-level facts of each operation.

  \<open>entity_step\<close> has one rule for each section of the entity's lock, so its runs are the
  interleavings of all tasks.
\<close>

section \<open>The invariant of an entity\<close>

definition ent_inv :: "node_entity \<Rightarrow> bool" where
  "ent_inv e \<longleftrightarrow>
     distinct (map instance_id (instances e)) \<and> list_all slot_inv (instances e) \<and>
     stage_label e = to_serialized (ent_stage e)"

definition slot_moves :: "tracked_instance \<Rightarrow> tracked_instance \<Rightarrow> bool" where
  "slot_moves t t' \<longleftrightarrow>
     instance_id t' = instance_id t \<and>
     (inst_state t' = inst_state t \<or> legal_move (inst_state t) (inst_state t'))"

text \<open>Every slot after a step is one from before that moved legally, or a new one that starts.\<close>

definition evolves :: "tracked_instance list \<Rightarrow> tracked_instance list \<Rightarrow> bool" where
  "evolves is is' \<longleftrightarrow>
     (\<forall>t'\<in>set is'. (\<exists>t\<in>set is. slot_moves t t') \<or>
        (inst_state t' = Starting \<and> instance_id t' \<notin> instance_id ` set is))"

lemma slot_moves_refl [simp, intro]: "slot_moves t t"
  by (simp add: slot_moves_def)

lemma evolves_refl [simp, intro]: "evolves is is"
  by (auto simp: evolves_def)

lemma evolves_Nil [simp, intro]: "evolves is []"
  by (simp add: evolves_def)

lemma evolves_subset: "set is' \<subseteq> set is \<Longrightarrow> evolves is is'"
  by (auto simp: evolves_def)

lemma evolves_append:
  "inst_state t = Starting \<Longrightarrow> instance_id t \<notin> instance_id ` set is \<Longrightarrow> evolves is (is @ [t])"
  by (auto simp: evolves_def)

lemma evolves_map: "(\<And>t. slot_moves t (f t)) \<Longrightarrow> evolves is (map f is)"
  by (auto simp: evolves_def)

lemma evolves_update_first:
  assumes "\<And>t. find p is = Some t \<Longrightarrow> slot_moves t (f t)"
  shows "evolves is (update_first p f is)"
proof (cases "find p is")
  case None
  then show ?thesis by (simp add: update_first_None)
next
  case (Some t)
  then obtain ys zs where "is = ys @ t # zs" "update_first p f is = ys @ f t # zs"
    by (rule find_split) blast
  with assms [OF Some] show ?thesis by (auto simp: evolves_def)
qed

lemma instances_mut_cases: "instances_mut e = instances e \<or> instances_mut e = []"
  by (simp add: instances_mut_def instances_def split: node_stage.split)

lemma ent_inv_slots:
  assumes "ent_inv e"
  shows "distinct (map instance_id (instances_mut e))" "t \<in> set (instances_mut e) \<Longrightarrow> slot_inv t"
  using assms instances_mut_cases [of e] by (auto simp: ent_inv_def list_all_iff)

lemma set_instances_frame [simp]:
  "ent_config (set_instances is e) = ent_config e" "generation (set_instances is e) = generation e"
  "stage_label (set_instances is e) = stage_label e"
  "to_serialized (ent_stage (set_instances is e)) = to_serialized (ent_stage e)"
  "pending_working_dir (set_instances is e) = pending_working_dir e"
  by (simp_all add: set_instances_def split: node_stage.split)

lemma instances_set_instances:
  "instances_mut (set_instances is e) = (case ent_stage e of Ready _ _ _ \<Rightarrow> is | _ \<Rightarrow> [])"
  "instances (set_instances is e) = (case ent_stage e of Ready _ _ _ \<Rightarrow> is | _ \<Rightarrow> instances e)"
  by (simp_all add: set_instances_def instances_mut_def instances_def split: node_stage.split)

lemma set_instances_inv:
  assumes "ent_inv e" and "distinct (map instance_id is)" and "\<And>t. t \<in> set is \<Longrightarrow> slot_inv t"
  shows "ent_inv (set_instances is e)"
  using assms
  by (auto simp: ent_inv_def instances_set_instances list_all_iff split: node_stage.split)

lemma evolves_set_instances:
  "evolves (instances_mut e) is \<Longrightarrow> evolves (instances e) (instances (set_instances is e))"
  by (cases "ent_stage e") (simp_all add: set_instances_def instances_mut_def instances_def)

lemma update_first_inv:
  assumes "ent_inv e" and "find p (instances_mut e) = Some t" and "slot_inv (f t)"
    and "instance_id (f t) = instance_id t"
  shows "ent_inv (set_instances (update_first p f (instances_mut e)) e)"
proof -
  from assms(2) obtain ys zs where split: "instances_mut e = ys @ t # zs"
    and upd: "update_first p f (instances_mut e) = ys @ f t # zs"
    by (rule find_split) blast
  note slots = ent_inv_slots [OF assms(1)]
  show ?thesis
    unfolding upd
    by (rule set_instances_inv [OF assms(1)]) (use slots split assms(3,4) in auto)
qed

lemma remove_first_inv:
  assumes "ent_inv e"
  shows "ent_inv (set_instances (remove_first p (instances_mut e)) e)"
  by (rule set_instances_inv [OF assms])
     (use ent_inv_slots [OF assms] in \<open>auto intro: distinct_map_remove_first\<close>)

section \<open>The contract of an edit\<close>

locale slot_edit =
  fixes guard :: "tracked_instance \<Rightarrow> bool"
    and edit :: "tracked_instance \<Rightarrow> 'r \<times> tracked_instance"
  assumes keeps_inv: "slot_inv t \<Longrightarrow> guard t \<Longrightarrow> slot_inv (snd (edit t))"
    and moves: "slot_inv t \<Longrightarrow> guard t \<Longrightarrow> slot_moves t (snd (edit t))"
begin

lemma edit_inv:
  assumes "ent_inv e"
  shows "ent_inv (snd (edit_if guard edit i e))"
proof (cases "instance_mut e i")
  case None
  with assms show ?thesis by (simp add: edit_if_def)
next
  case (Some t)
  then have "slot_inv t"
    using ent_inv_slots [OF assms] by (auto simp: instance_mut_def dest: find_Some_in)
  with Some assms keeps_inv moves show ?thesis
    by (auto simp: edit_if_def instance_mut_def slot_moves_def intro!: update_first_inv)
qed

lemma edit_evolves:
  assumes "ent_inv e"
  shows "evolves (instances e) (instances (snd (edit_if guard edit i e)))"
proof (cases "instance_mut e i")
  case None
  then show ?thesis by (simp add: edit_if_def)
next
  case (Some t)
  then have "slot_inv t"
    using ent_inv_slots [OF assms] by (auto simp: instance_mut_def dest: find_Some_in)
  with Some moves show ?thesis
    by (auto simp: edit_if_def instance_mut_def intro!: evolves_set_instances evolves_update_first)
qed

lemma edit_generation: "generation (snd (edit_if guard edit i e)) = generation e"
  by (simp add: edit_if_def split: option.split)

lemma edit_self:
  assumes "ent_inv e" and "instance_mut e i = Some t" and "guard t"
  shows "instance_mut (snd (edit_if guard edit i e)) i = Some (snd (edit t))"
    and "fst (edit_if guard edit i e) = Some (fst (edit t))"
proof -
  have t: "slot_inv t" "instance_id t = i" "find (\<lambda>t. instance_id t = i) (instances_mut e) = Some t"
    using ent_inv_slots [OF assms(1)] assms(2) by (auto simp: instance_mut_def dest: find_Some_in)
  with moves assms(3) have "instance_id (snd (edit t)) = i" by (simp add: slot_moves_def)
  moreover from assms(2) obtain p a where "ent_stage e = Ready p a (instances_mut e)"
    by (auto simp: instance_mut_def instances_mut_def split: node_stage.splits)
  ultimately show "instance_mut (snd (edit_if guard edit i e)) i = Some (snd (edit t))"
    using assms(2,3) t(3)
    by (simp add: edit_if_def instance_mut_def instances_set_instances find_update_first_same)
  show "fst (edit_if guard edit i e) = Some (fst (edit t))"
    using assms(2,3) by (simp add: edit_if_def)
qed

lemma edit_other:
  assumes "ent_inv e" and "j \<noteq> i"
  shows "instance_mut (snd (edit_if guard edit i e)) j = instance_mut e j"
proof (cases "instance_mut e i")
  case None
  then show ?thesis by (simp add: edit_if_def)
next
  case (Some t)
  then have t: "slot_inv t" "instance_id t = i" "find (\<lambda>t. instance_id t = i) (instances_mut e) = Some t"
    using ent_inv_slots [OF assms(1)] by (auto simp: instance_mut_def dest: find_Some_in)
  show ?thesis
  proof (cases "guard t")
    case True
    with moves t have "instance_id (snd (edit t)) = i" by (simp add: slot_moves_def)
    with assms(2) have "find (\<lambda>t. instance_id t = j)
        (update_first (\<lambda>t. instance_id t = i) (\<lambda>_. snd (edit t)) (instances_mut e)) =
        find (\<lambda>t. instance_id t = j) (instances_mut e)"
      by (intro find_update_first_other) auto
    moreover from Some obtain p a where "ent_stage e = Ready p a (instances_mut e)"
      by (auto simp: instance_mut_def instances_mut_def split: node_stage.splits)
    ultimately show ?thesis
      using Some True by (simp add: edit_if_def instance_mut_def instances_set_instances)
  qed (simp add: edit_if_def Some)
qed

end

section \<open>Every edit of a slot meets the contract\<close>

text \<open>A quiet edit writes no field the invariant or the life cycle reads.\<close>

definition quiet :: "tracked_instance \<Rightarrow> tracked_instance \<Rightarrow> bool" where
  "quiet t t' \<longleftrightarrow>
     instance_id t' = instance_id t \<and> inst_state t' = inst_state t \<and> pid t' = pid t \<and>
     endpoints t' = endpoints t \<and> stopping t' = stopping t \<and>
     sv_first_start (inst_supervision t') = sv_first_start (inst_supervision t) \<and>
     attempt (inst_supervision t') = attempt (inst_supervision t) \<and>
     restart_count (inst_supervision t') = restart_count (inst_supervision t) \<and>
     run_started (inst_supervision t') = run_started (inst_supervision t) \<and>
     sv_health_kill (inst_supervision t') = sv_health_kill (inst_supervision t) \<and>
     next_start (inst_supervision t') = next_start (inst_supervision t) \<and>
     token_cancelled (inst_supervision t') = token_cancelled (inst_supervision t)"

lemma quiet_inv: "quiet t t' \<Longrightarrow> slot_inv t' = slot_inv t"
  by (simp add: quiet_def slot_inv_def Let_def within_cap_def policy_of_def restart_of_def)

lemma quiet_moves: "quiet t t' \<Longrightarrow> slot_moves t t'"
  by (simp add: quiet_def slot_moves_def)

lemma quiet_slot_edit:
  assumes "\<And>t. quiet t (snd (edit t))"
  shows "slot_edit guard edit"
  by unfold_locales (use assms quiet_inv quiet_moves in blast)+

lemma record_exit_moves:
  assumes "inst_state t = Running"
  shows "slot_moves t (snd (record_exit cause b now wall regs t))"
  using assms
  by (auto simp: slot_moves_def record_exit_keeps record_exit_state intro: legal_move.intros)

interpretation exit_edit:
  slot_edit "\<lambda>t. runs_unclaimed_process t p" "record_exit cause b now wall regs"
  for p cause b now wall regs
  by unfold_locales
     (simp_all add: record_exit_inv record_exit_moves runs_unclaimed_process_def runs_process_def)

definition fail_start ::
    "exit_cause \<Rightarrow> restart_backoff \<Rightarrow> instant \<Rightarrow> system_time \<Rightarrow> tracked_instance \<Rightarrow>
     attempt_outcome \<times> tracked_instance" where
  "fail_start ext b now wall t =
     take_next_attempt b None now wall
       (t\<lparr>inst_supervision := (inst_supervision t)\<lparr>last_exit := Some ext\<rparr>\<rparr>)"

lemma mark_start_failed_alt:
  "mark_start_failed i ext b now wall = edit_if awaits_restart (fail_start ext b now wall) i"
  by (simp add: fun_eq_iff mark_start_failed_def edit_awaiting_restart_def fail_start_def [abs_def])

lemma fail_start_inv:
  assumes "slot_inv t" and "inst_state t = Restarting"
  shows "slot_inv (snd (fail_start ext b now wall t))"
  unfolding fail_start_def
  by (rule take_next_attempt_inv)
     (use assms in \<open>auto simp: slot_inv_def Let_def policy_of_def restart_of_def\<close>)

lemma fail_start_moves:
  "inst_state t = Restarting \<Longrightarrow> slot_moves t (snd (fail_start ext b now wall t))"
  by (simp add: slot_moves_def fail_start_def take_next_attempt_keeps take_next_attempt_state
      legal_move.intros)

interpretation start_failed_edit: slot_edit awaits_restart "fail_start ext b now wall"
  for ext b now wall
  by unfold_locales (simp_all add: fail_start_inv fail_start_moves awaits_restart_def)

interpretation refused_edit: slot_edit awaits_restart "\<lambda>t. ((), refuse_restart t)"
  by unfold_locales
     (auto simp: awaits_restart_def refuse_restart_def slot_inv_def Let_def slot_moves_def
        intro: legal_move.intros)

interpretation log_edit: slot_edit awaits_restart "\<lambda>t. ((), t\<lparr>run_log_path := Some path\<rparr>)" for path
  by (rule quiet_slot_edit) (simp add: quiet_def)

interpretation process_edit:
  slot_edit "\<lambda>t. inst_state t = Starting" "\<lambda>t. ((), set_starting_process p files t)" for p files
  by unfold_locales
     (simp_all add: set_starting_process_inv slot_moves_def, simp_all add: set_starting_process_def)

interpretation held_edit:
  slot_edit "\<lambda>_. True" "\<lambda>t. (r t, set_held_pairs (f t) t)" for r f
  by (rule quiet_slot_edit) (simp add: quiet_def set_held_pairs_def)

interpretation observations_edit:
  slot_edit "\<lambda>t. inst_state t = Restarting"
    "\<lambda>t. ((), t\<lparr>inst_supervision := (inst_supervision t)\<lparr>sv_registrations := f t\<rparr>\<rparr>)" for f
  by (rule quiet_slot_edit) (simp add: quiet_def)

interpretation arm_edit:
  slot_edit "\<lambda>t. runs_unclaimed t \<and> pid t \<noteq> None"
    "\<lambda>t. (the (pid t), t\<lparr>inst_supervision := (inst_supervision t)\<lparr>sv_health_kill := Some kill\<rparr>\<rparr>)"
  for kill
  by unfold_locales
     (auto simp: runs_unclaimed_def slot_inv_def Let_def slot_moves_def within_cap_def policy_of_def
        restart_of_def)

interpretation request_edit:
  slot_edit "\<lambda>t. runs_process t p" "\<lambda>t. ((), t\<lparr>shutdown_requests := f t\<rparr>)" for p f
  by (rule quiet_slot_edit) (simp add: quiet_def)

interpretation binding_edit:
  slot_edit guard "\<lambda>t. ((), set_slot_binding link producers t)" for guard link producers
  by (rule quiet_slot_edit) (simp add: quiet_def set_slot_binding_def)

section \<open>Every operation keeps the entity well formed\<close>

definition keeps :: "node_entity \<Rightarrow> node_entity \<Rightarrow> bool" where
  "keeps e e' \<longleftrightarrow>
     ent_inv e' \<and> evolves (instances e) (instances e') \<and>
     generation e' = generation e \<and> ent_config e' = ent_config e"

lemma keeps_refl: "ent_inv e \<Longrightarrow> keeps e e"
  by (simp add: keeps_def)

lemma edit_if_config [simp]: "ent_config (snd (edit_if guard edit i e)) = ent_config e"
  by (simp add: edit_if_def split: option.split)

context slot_edit
begin

lemma edit_keeps: "ent_inv e \<Longrightarrow> keeps e (snd (edit_if guard edit i e))"
  by (simp add: keeps_def edit_inv edit_evolves edit_generation)

end

lemma set_instances_keeps:
  assumes "ent_inv e" and "distinct (map instance_id is)" and "\<And>t. t \<in> set is \<Longrightarrow> slot_inv t"
    and "evolves (instances_mut e) is"
  shows "keeps e (set_instances is e)"
  using assms by (simp add: keeps_def set_instances_inv evolves_set_instances)

lemma update_first_keeps:
  assumes "ent_inv e" and "find p (instances_mut e) = Some t" and "slot_inv (f t)" and "slot_moves t (f t)"
  shows "keeps e (set_instances (update_first p f (instances_mut e)) e)"
proof -
  have "evolves (instances_mut e) (update_first p f (instances_mut e))"
    by (rule evolves_update_first) (use assms(2,4) in simp)
  moreover have "ent_inv (set_instances (update_first p f (instances_mut e)) e)"
    using update_first_inv [OF assms(1,2), of f] assms(3,4) by (simp add: slot_moves_def)
  ultimately show ?thesis by (simp add: keeps_def evolves_set_instances)
qed

lemma remove_first_keeps:
  "ent_inv e \<Longrightarrow> keeps e (set_instances (remove_first p (instances_mut e)) e)"
  by (simp add: keeps_def remove_first_inv evolves_set_instances evolves_subset set_remove_first)

lemma undo_start_keeps:
  assumes "ent_inv e"
  shows "keeps e (undo_start i e)"
proof (cases "find (\<lambda>t. instance_id t = i \<and> inst_state t = Starting) (instances_mut e)")
  case None
  with assms show ?thesis by (simp add: undo_start_def keeps_refl)
next
  case (Some t)
  then have t: "slot_inv t" "inst_state t = Starting"
    using ent_inv_slots [OF assms] by (auto dest: find_Some_in)
  show ?thesis
  proof (cases "starts_a_restart t \<and> \<not> stopping t")
    case True
    moreover have "slot_moves t (revert_respawn t)"
      using t by (simp add: slot_moves_def revert_respawn_def legal_move.intros)
    ultimately show ?thesis
      using assms Some t by (simp add: undo_start_def Let_def update_first_keeps revert_respawn_inv)
  next
    case False
    with Some assms show ?thesis by (auto simp: undo_start_def Let_def remove_first_keeps)
  qed
qed

lemma first_slot_facts:
  "instance_id (fst (first_slot ctx fs w)) = sc_instance_id ctx"
  "inst_state (fst (first_slot ctx fs w)) = Starting"
  "slot_inv (fst (first_slot ctx fs w))"
  by (simp_all add: first_slot_def tracked_new_def with_first_start_def Let_def case_prod_beta
      slot_inv_def supervision_default_def)

lemma register_start_keeps:
  assumes "ent_inv e"
  shows "keeps e (fst (snd (register_start ctx e w)))"
proof (cases "sc_spawn ctx")
  case (SpawnNew fs)
  let ?t = "fst (first_slot ctx fs w)"
  show ?thesis
  proof (cases "find (\<lambda>t. instance_id t = sc_instance_id ctx) (instances_mut e)")
    case None
    then have "sc_instance_id ctx \<notin> instance_id ` set (instances_mut e)" by (auto simp: find_None_iff)
    then have "distinct (map instance_id (instances_mut e @ [?t]))"
      and "evolves (instances_mut e) (instances_mut e @ [?t])"
      using ent_inv_slots(1) [OF assms] by (simp_all add: first_slot_facts evolves_append)
    moreover have "slot_inv t" if "t \<in> set (instances_mut e @ [?t])" for t
      using that ent_inv_slots(2) [OF assms] by (auto simp: first_slot_facts)
    ultimately have "keeps e (set_instances (instances_mut e @ [?t]) e)"
      by (intro set_instances_keeps [OF assms])
    with None SpawnNew assms show ?thesis
      by (simp add: register_start_def keeps_refl Let_def case_prod_beta split: sum.split)
  qed (simp add: register_start_def SpawnNew keeps_refl assms split: sum.split)
next
  case Respawn
  let ?waiting = "\<lambda>t. instance_id t = sc_instance_id ctx \<and> awaits_restart t"
  show ?thesis
  proof (cases "find ?waiting (instances_mut e)")
    case (Some t)
    then have t: "slot_inv t" "inst_state t = Restarting"
      using ent_inv_slots [OF assms] by (auto simp: awaits_restart_def dest: find_Some_in)
    then have "slot_moves t (fst (begin_respawn t w))"
      by (simp add: slot_moves_def begin_respawn_def Let_def case_prod_beta legal_move.intros)
    with Some t have "keeps e (set_instances (update_first ?waiting (\<lambda>_. fst (begin_respawn t w))
        (instances_mut e)) e)"
      using update_first_keeps [OF assms Some, of "\<lambda>_. fst (begin_respawn t w)"]
      by (simp add: begin_respawn_inv)
    with Some Respawn assms show ?thesis
      by (simp add: register_start_def keeps_refl Let_def case_prod_beta split: sum.split)
  qed (simp add: register_start_def Respawn keeps_refl assms split: sum.split)
qed

lemma fork_start_keeps:
  assumes "ent_inv e"
  shows "keeps e (fst (snd (fork_start ctx node files desc forked e w)))"
  using process_edit.edit_keeps [OF assms] keeps_refl [OF assms]
  by (simp add: fork_start_def record_starting_process_def split: sum.split)

lemma commit_starting_instance_keeps:
  assumes "ent_inv e"
  shows "keeps e (snd (commit_starting_instance g i dir eps now wall e))"
proof -
  let ?f = "\<lambda>t. record_running now wall (set_endpoints eps (set_running dir t))"
  have "keeps e (set_instances (update_first (\<lambda>t. instance_id t = i) ?f is) e)"
    if "ent_stage e = Ready p a is" "find (\<lambda>t. instance_id t = i) is = Some t" "inst_state t = Starting"
    for p a "is" t
  proof -
    from that(1) have "is": "instances_mut e = is" by (simp add: instances_mut_def)
    with that(2) have "slot_inv t" using ent_inv_slots [OF assms] by (auto dest: find_Some_in)
    then have "slot_inv (?f t)" using that(3) by (rule commit_inv)
    moreover have "slot_moves t (?f t)"
      using that(3) by (simp add: slot_moves_def record_running_def set_endpoints_def set_running_def
          Let_def legal_move.intros)
    ultimately show ?thesis
      using update_first_keeps [OF assms, of "\<lambda>t. instance_id t = i" t ?f] "is" that(2) by simp
  qed
  then show ?thesis
    using assms
    by (simp add: commit_starting_instance_def Let_def keeps_refl split: node_stage.split option.split)
qed

lemma mark_stopping_facts:
  "slot_inv t \<Longrightarrow> slot_inv (mark_stopping t)" "slot_moves t (mark_stopping t)"
  by (simp add: mark_stopping_def claim_once_inv)
     (simp add: slot_moves_def mark_stopping_def claim_once_def)

lemma shared_edit_keeps:
  assumes "ent_inv e"
  shows "keeps e (shared_edit mark_stopping i e)"
proof (cases "ent_stage e")
  case (Ready p a "is")
  then have "shared_edit mark_stopping i e =
      set_instances (update_first (\<lambda>t. instance_id t = i) mark_stopping (instances_mut e)) e"
    by (simp add: shared_edit_def set_instances_def instances_mut_def)
  moreover have "keeps e \<dots>"
  proof (cases "find (\<lambda>t. instance_id t = i) (instances_mut e)")
    case None
    have "set_instances (instances_mut e) e = e"
      using Ready by (cases e) (simp add: set_instances_def instances_mut_def)
    with None assms show ?thesis by (simp add: update_first_None keeps_refl)
  next
    case (Some t)
    then have "slot_inv t" using ent_inv_slots [OF assms] by (auto dest: find_Some_in)
    with Some assms show ?thesis by (simp add: update_first_keeps mark_stopping_facts)
  qed
  ultimately show ?thesis by simp
next
  case (Root p t)
  with assms show ?thesis
    by (auto simp: shared_edit_def keeps_def ent_inv_def instances_def evolves_def
        mark_stopping_facts slot_moves_def mark_stopping_def claim_once_def claim_once_inv
        [unfolded claim_once_def snd_conv])
qed (simp_all add: shared_edit_def keeps_refl assms)

lemma stop_instance_keeps:
  "ent_inv e \<Longrightarrow> keeps e (fst (snd (stop_instance i e w)))"
  by (simp add: stop_instance_def Let_def remove_first_keeps keeps_refl split: option.split)

lemma forget_pairs_held_with_keeps:
  assumes "ent_inv e"
  shows "keeps e (forget_pairs_held_with c i e)"
proof -
  let ?f = "\<lambda>t. set_held_pairs (filter (\<lambda>h. sa_core_node (peer h) \<noteq> c \<or> sa_instance_id (peer h) \<noteq> i)
            (held_pairs (inst_supervision t))) t"
  have quiet: "quiet t (?f t)" for t by (simp add: quiet_def set_held_pairs_def)
  then have ids: "map instance_id (map ?f is) = map instance_id is" for "is"
    by (simp add: quiet_def)
  show ?thesis
    unfolding forget_pairs_held_with_def
  proof (rule set_instances_keeps [OF assms])
    show "distinct (map instance_id (map ?f (instances_mut e)))"
      using ent_inv_slots(1) [OF assms] by (simp only: ids)
    show "evolves (instances_mut e) (map ?f (instances_mut e))"
      by (rule evolves_map) (rule quiet_moves [OF quiet])
  qed (use ent_inv_slots(2) [OF assms] quiet_inv [OF quiet] in auto)
qed

lemma record_held_pair_keeps:
  assumes "ent_inv e"
  shows "keeps e (snd (record_held_pair pair e))"
proof (cases "pairing_slot_cardinality e (sa_link_id (own pair))")
  case (Some c)
  then show ?thesis
    by (simp add: record_held_pair_def Let_def case_prod_beta) (rule held_edit.edit_keeps [OF assms])
qed (simp add: record_held_pair_def keeps_refl assms)

section \<open>Runs of an entity\<close>

text \<open>
  One rule for each section of the entity's lock. The world changes with the entity and, at any
  moment, by itself (\<open>world\<close>): other entities, the file system and the processes.
\<close>

inductive entity_step :: "node_entity \<times> world \<Rightarrow> node_entity \<times> world \<Rightarrow> bool" where
  world: "entity_step (e, w) (e, w')"
| set_dir: "entity_step (e, w) (set_pending_working_dir d e, w)"
| take_dir: "entity_step (e, w) (snd (take_pending_working_dir_if_generation g e), w)"
| build_begin: "entity_step (e, w) (snd (build_begin e), w)"
| build_publish: "entity_step (e, w) (snd (build_publish snap result e), w)"
| rollback: "entity_step (e, w) (rollback_building_to_added d e, w)"
| register: "entity_step (e, w) (snd (register_start ctx e w))"
| fork: "entity_step (e, w) (snd (fork_start ctx node files desc forked e w))"
| undo: "entity_step (e, w) (undo_start i e, w)"
| commit: "entity_step (e, w) (snd (commit_starting_instance g i dir eps now wall e), w)"
| exited: "entity_step (e, w) (snd (mark_instance_exited i p cause b now wall regs e), w)"
| start_failed: "entity_step (e, w) (snd (mark_start_failed i ext b now wall e), w)"
| restart_refused: "entity_step (e, w) (snd (mark_restart_refused i e), w)"
| respawn_log: "entity_step (e, w) (record_respawn_log i path e, w)"
| claim: "entity_step (e, w) (snd (claim_instance i e), w)"
| claim_process: "entity_step (e, w) (snd (claim_process i p e), w)"
| claim_starting: "entity_step (e, w) (snd (claim_starting i e), w)"
| stop: "entity_step (e, w) (snd (stop_instance i e w))"
| remove: "entity_step (e, w) (snd (claim_and_remove i q e w))"
| hold_pair: "entity_step (e, w) (snd (record_held_pair pair e), w)"
| forget_pair: "entity_step (e, w) (forget_held_pair pair e, w)"
| forget_peer: "entity_step (e, w) (forget_pairs_held_with c i e, w)"
| observations: "entity_step (e, w) (snd (record_observations_for_restart i obs e), w)"
| watchers: "entity_step (e, w) (record_watchers_for_restart i ws e, w)"
| arm: "entity_step (e, w) (snd (arm_health_kill i kill e), w)"
| note_request: "entity_step (e, w) (note_shutdown_request i p e, w)"
| withdraw: "entity_step (e, w) (withdraw_shutdown_request i p e, w)"
| bind: "entity_step (e, w) (snd (set_instance_slot_binding i link producers e), w)"
| bind_restart: "entity_step (e, w) (snd (record_slot_binding_for_restart i link producers e), w)"

lemma evolves_same:
  assumes "map (\<lambda>t. (instance_id t, inst_state t)) is1 = map (\<lambda>t. (instance_id t, inst_state t)) is"
    and "evolves is1 is2"
  shows "evolves is is2"
proof -
  have img: "(\<lambda>t. (instance_id t, inst_state t)) ` set is1 = (\<lambda>t. (instance_id t, inst_state t)) ` set is"
    using assms(1) by (metis list.set_map)
  have "\<exists>u\<in>set is. instance_id u = instance_id t \<and> inst_state u = inst_state t" if "t \<in> set is1" for t
    using that img by (smt (verit, best) image_iff prod.inject)
  moreover have "instance_id ` set is = instance_id ` set is1"
    using img by (metis (no_types, lifting) fst_conv image_cong image_image)
  ultimately show ?thesis
    using assms(2) unfolding evolves_def slot_moves_def by metis
qed

lemma shared_edit_same:
  "map (\<lambda>t. (instance_id t, inst_state t)) (instances (shared_edit mark_stopping i e)) =
     map (\<lambda>t. (instance_id t, inst_state t)) (instances e)"
  by (simp add: shared_edit_def instances_def map_update_first_keep mark_stopping_def claim_once_def
      split: node_stage.split)

lemma claim_and_remove_keeps:
  assumes "ent_inv e"
  shows "keeps e (fst (snd (claim_and_remove i q e w)))"
proof -
  let ?e1 = "shared_edit mark_stopping i e"
  have k1: "keeps e ?e1" using assms by (rule shared_edit_keeps)
  then have "ent_inv ?e1" by (simp add: keeps_def)
  then have "keeps ?e1 (fst (snd (stop_instance i ?e1 w)))" by (rule stop_instance_keeps)
  then have "keeps e (fst (snd (stop_instance i ?e1 w)))"
    using k1 evolves_same [OF shared_edit_same] by (auto simp: keeps_def)
  then show ?thesis
    using assms
    by (simp add: claim_and_remove_def claim_and_remove_slot_def claim_instance_def keeps_refl
        case_prod_beta split: option.split)
qed

lemma stage_steps_keep:
  assumes "ent_inv e"
  shows "keeps e (set_pending_working_dir d e)"
    and "keeps e (snd (take_pending_working_dir_if_generation g e))"
    and "keeps e (snd (build_begin e))"
    and "keeps e (snd (build_publish snap result e))"
    and "keeps e (rollback_building_to_added d e)"
proof -
  show "keeps e (set_pending_working_dir d e)"
    using assms by (simp add: keeps_def ent_inv_def instances_def set_pending_working_dir_def)
  show "keeps e (snd (take_pending_working_dir_if_generation g e))"
    using assms
    by (simp add: keeps_def ent_inv_def instances_def take_pending_working_dir_if_generation_def)
  show "keeps e (snd (build_begin e))"
    using assms
    by (cases "ent_stage e")
       (simp_all add: build_begin_def keeps_def broadcast_stage_def ent_inv_def instances_def)
  show "keeps e (snd (build_publish snap result e))"
    using assms
    by (simp add: build_publish_def keeps_def broadcast_stage_def ent_inv_def instances_def
        split: sum.split)
  show "keeps e (rollback_building_to_added d e)"
    using assms
    by (cases "ent_stage e")
       (simp_all add: rollback_building_to_added_def keeps_def broadcast_stage_def ent_inv_def
         instances_def)
qed

lemmas op_defs = mark_instance_exited_def mark_start_failed_alt mark_restart_refused_def
  record_respawn_log_def edit_awaiting_restart_def forget_held_pair_def edit_instance_def
  record_observations_for_restart_def record_watchers_for_restart_def edit_restarting_def
  arm_health_kill_def note_shutdown_request_def withdraw_shutdown_request_def edit_process_def
  set_instance_slot_binding_def record_slot_binding_for_restart_def

lemmas edit_keeps = exit_edit.edit_keeps start_failed_edit.edit_keeps refused_edit.edit_keeps
  log_edit.edit_keeps held_edit.edit_keeps observations_edit.edit_keeps arm_edit.edit_keeps
  request_edit.edit_keeps binding_edit.edit_keeps

lemma claims_keep:
  assumes "ent_inv e"
  shows "keeps e (snd (claim_instance i e))" and "keeps e (snd (claim_process i p e))"
    and "keeps e (snd (claim_starting i e))"
  using keeps_refl [OF assms] shared_edit_keeps [OF assms]
  by (simp_all add: claim_instance_def claim_process_def claim_starting_def Let_def split: option.split)

lemma entity_step_keeps: "entity_step s s' \<Longrightarrow> ent_inv (fst s) \<Longrightarrow> keeps (fst s) (fst s')"
  by (induction rule: entity_step.induct)
     (simp_all add: keeps_refl stage_steps_keep undo_start_keeps commit_starting_instance_keeps
       record_held_pair_keeps forget_pairs_held_with_keeps claims_keep register_start_keeps
       fork_start_keeps stop_instance_keeps claim_and_remove_keeps op_defs edit_keeps Let_def
       case_prod_beta del: not_None_eq)

text \<open>The runs of an entity, from each constructor; the root is made of a well-formed slot.\<close>

inductive entity_run :: "node_entity \<times> world \<Rightarrow> bool" where
  run_new: "entity_run (entity_new c path docs w)"
| run_built_in: "entity_run (entity_built_in c path launch docs w)"
| run_root: "slot_inv t \<Longrightarrow> entity_run (entity_root c path t w)"
| run_step: "entity_run s \<Longrightarrow> entity_step s s' \<Longrightarrow> entity_run s'"

lemma constructors_inv:
  "ent_inv (fst (entity_new c path docs w))" "ent_inv (fst (entity_built_in c path launch docs w))"
  "slot_inv t \<Longrightarrow> ent_inv (fst (entity_root c path t w))"
  by (simp_all add: entity_new_def entity_built_in_def entity_root_def with_stage_def Let_def
      case_prod_beta ent_inv_def instances_def)

lemma entity_run_ent_inv: "entity_run s \<Longrightarrow> ent_inv (fst s)"
  by (induction rule: entity_run.induct)
     (use entity_step_keeps constructors_inv in \<open>auto simp: keeps_def\<close>)


text \<open>
  C2: in every run, a step of any task leaves each slot in its state, moves it along the life cycle
  (\<open>legal_move\<close>), removes it, or adds a new slot that is starting. So a finished or failed slot
  never runs again, and nothing runs that did not start.
\<close>

theorem entity_step_legal:
  assumes "entity_run (e, w)" and "entity_step (e, w) (e', w')" and "t' \<in> set (instances e')"
  shows "(\<exists>t\<in>set (instances e). instance_id t = instance_id t' \<and>
            (inst_state t' = inst_state t \<or> legal_move (inst_state t) (inst_state t'))) \<or>
         (inst_state t' = Starting \<and> instance_id t' \<notin> instance_id ` set (instances e))"
proof -
  have "ent_inv e" using entity_run_ent_inv [OF assms(1)] by simp
  with entity_step_keeps [OF assms(2)] have "evolves (instances e) (instances e')"
    by (simp add: keeps_def)
  with assms(3) show ?thesis unfolding evolves_def slot_moves_def by metis
qed

section \<open>Builds\<close>


end
