(* ===== verification/Instance_Starts.thy ===== *)
theory Instance_Starts
  imports Entity_Lifecycle
begin

text \<open>
  A start from end to end: \<open>prepare_and_spawn\<close>, \<open>commit_started\<close> and \<open>abort_started\<close>, with what other
  tasks may do between the sections of the lock; and the claims a stop path takes on an instance.
\<close>

section \<open>Undoing a start\<close>

definition well_behaved :: "interference \<Rightarrow> bool" where
  "well_behaved interfere \<longleftrightarrow> (\<forall>n e w. ent_inv e \<longrightarrow> ent_inv (fst (interfere n (e, w))))"

lemma well_behavedD: "well_behaved f \<Longrightarrow> f n (e, w) = (e', w') \<Longrightarrow> ent_inv e \<Longrightarrow> ent_inv e'"
  unfolding well_behaved_def by (metis fst_conv)

lemma set_instances_same: "set_instances (instances_mut e) e = e"
  by (cases e) (simp add: set_instances_def instances_mut_def split: node_stage.split)

lemma set_instances_twice: "set_instances xs (set_instances ys e) = set_instances xs e"
  by (cases e) (simp add: set_instances_def split: node_stage.split)

lemma instances_mut_set:
  "ent_stage e = Ready p a is' \<Longrightarrow> instances_mut (set_instances is e) = is"
  by (simp add: set_instances_def instances_mut_def)

lemma undo_start_not_starting:
  assumes "ent_inv e" and "t \<in> set (instances_mut (undo_start i e))" and "instance_id t = i"
  shows "inst_state t \<noteq> Starting"
proof (cases "find (\<lambda>t. instance_id t = i \<and> inst_state t = Starting) (instances_mut e)")
  case None
  with assms(2,3) show ?thesis by (auto simp: undo_start_def find_None_iff)
next
  case (Some s)
  then obtain ys zs where split: "instances_mut e = ys @ s # zs"
    "update_first (\<lambda>t. instance_id t = i \<and> inst_state t = Starting) revert_respawn (instances_mut e) =
       ys @ revert_respawn s # zs"
    "remove_first (\<lambda>t. instance_id t = i \<and> inst_state t = Starting) (instances_mut e) = ys @ zs"
    by (rule find_split) blast
  from Some have s: "instance_id s = i" by auto
  have "i \<notin> instance_id ` set ys" "i \<notin> instance_id ` set zs"
    using ent_inv_slots(1) [OF assms(1)] unfolding split(1) s [symmetric] by auto
  moreover obtain p a where stage: "ent_stage e = Ready p a (instances_mut e)"
    using split(1) by (auto simp: instances_mut_def split: node_stage.splits)
  have "instances_mut (undo_start i e) =
      (if starts_a_restart s \<and> \<not> stopping s then ys @ revert_respawn s # zs else ys @ zs)"
    unfolding undo_start_def Let_def Some option.case split(2,3)
    by (simp add: instances_mut_set [OF stage])
  ultimately show ?thesis
    using assms(2,3) by (auto simp: revert_respawn_def split: if_split_asm)
qed

lemma remove_path_disk [simp]: "p \<notin> disk (remove_path p w)" "q \<notin> disk w \<Longrightarrow> q \<notin> disk (remove_path p w)"
  by (simp_all add: remove_path_def)

lemma remove_dir_all_disk [simp]: "d \<notin> disk (remove_dir_all d w)"
  "q \<notin> disk w \<Longrightarrow> q \<notin> disk (remove_dir_all d w)"
  by (simp_all add: remove_dir_all_def under_dir_def)

lemma spawn_files_remove_disk [simp]:
  "sf_runtime_config f \<notin> disk (spawn_files_remove f w)" "sf_credential f \<notin> disk (spawn_files_remove f w)"
  "q \<notin> disk w \<Longrightarrow> q \<notin> disk (spawn_files_remove f w)"
  by (simp_all add: spawn_files_remove_def)

lemma removals_keep_groups [simp]:
  "live_groups (remove_path p w) = live_groups w" "live_groups (remove_dir_all d w) = live_groups w"
  "live_groups (spawn_files_remove f w) = live_groups w"
  by (simp_all add: spawn_files_remove_def remove_path_def remove_dir_all_def)

text \<open>
  C3: a start that fails after it registered leaves nothing behind, whatever other tasks do to the
  entity between its phases: the instance is not starting, and the key file, the instance directory
  and the runtime config of the start are gone from the disk.
\<close>

theorem failed_start_leaves_nothing:
  assumes "ent_inv e" and "well_behaved interfere" and "fst (register_start ctx e w) = Inr gen"
    and "prepare_and_spawn interfere ctx io e w = (Inl err, e', w')"
  shows "(\<forall>t\<in>set (instances_mut e'). instance_id t = sc_instance_id ctx \<longrightarrow> inst_state t \<noteq> Starting) \<and>
     sc_credential ctx \<notin> disk w' \<and>
     (\<forall>dir. io_instance_dir io = Inr dir \<longrightarrow> dir \<notin> disk w' \<and>
        (\<forall>cmd. io_command io = Inr cmd \<longrightarrow> cmd_runtime_config cmd \<notin> disk w'))"
proof -
  let ?i = "sc_instance_id ctx"
  obtain e1 w1 where reg: "register_start ctx e w = (Inr gen, e1, w1)"
    using assms(3) by (cases "register_start ctx e w") auto
  have inv1: "ent_inv e1" using register_start_keeps [OF assms(1), of ctx w] reg by (simp add: keeps_def)
  obtain e2 w2 where i0: "interfere 0 (e1, w1) = (e2, w2)" by (cases "interfere 0 (e1, w1)")
  have inv2: "ent_inv e2" using well_behavedD [OF assms(2) i0 inv1] .
  have clear: "\<forall>t\<in>set (instances_mut (undo_start ?i x)). instance_id t = ?i \<longrightarrow> inst_state t \<noteq> Starting"
    if "ent_inv x" for x
    using undo_start_not_starting [OF that] by blast
  show ?thesis
  proof (cases "io_instance_dir io")
    case (Inl reason)
    have "e' = undo_start ?i e2 \<and> w' = remove_path (sc_credential ctx) w2"
      using assms(4) by (simp add: prepare_and_spawn_def reg i0 Inl refuse_start_def)
    then show ?thesis by (simp add: clear [OF inv2] Inl)
  next
    case (Inr dir)
    let ?w3 = "w2\<lparr>disk := insert dir (disk w2)\<rparr>"
    obtain e4 w4 where i1: "interfere 1 (e2, ?w3) = (e4, w4)" by (cases "interfere 1 (e2, ?w3)")
    have inv4: "ent_inv e4" using well_behavedD [OF assms(2) i1 inv2] .
    show ?thesis
    proof (cases "io_command io")
      case (Inl reason)
      have "e' = undo_start ?i e4 \<and> w' = remove_path (sc_credential ctx) (remove_dir_all dir w4)"
        using assms(4) i1 by (simp add: prepare_and_spawn_def reg i0 Inr Inl refuse_start_def Let_def)
      then show ?thesis by (simp add: clear [OF inv4] Inr Inl)
    next
      case cmd: (Inr cmd)
      let ?files = "\<lparr>sf_runtime_config = cmd_runtime_config cmd, sf_credential = sc_credential ctx\<rparr>"
      let ?fork = "fork_start ctx (ent_name e, ent_tag e) ?files (cmd_description cmd) (io_fork io) e4
          (w4\<lparr>disk := insert (cmd_runtime_config cmd) (disk w4)\<rparr>)"
      obtain r e6 w6 where fork: "?fork = (r, e6, w6)" by (cases ?fork)
      have inv6: "ent_inv e6"
        using fork_start_keeps [OF inv4, of ctx "(ent_name e, ent_tag e)" ?files "cmd_description cmd"
            "io_fork io" "w4\<lparr>disk := insert (cmd_runtime_config cmd) (disk w4)\<rparr>"]
        by (simp add: fork keeps_def)
      obtain e7 w7 where i2: "interfere 2 (e6, w6) = (e7, w7)" by (cases "interfere 2 (e6, w6)")
      have inv7: "ent_inv e7" using well_behavedD [OF assms(2) i2 inv6] .
      have "e' = undo_start ?i e7 \<and>
          w' = remove_path (sc_credential ctx) (spawn_files_remove ?files (remove_dir_all dir w7))"
        using assms(4) i1 fork i2
        by (cases r) (simp_all add: prepare_and_spawn_def reg i0 Inr cmd refuse_start_def Let_def)
      then show ?thesis
        using spawn_files_remove_disk(1) [of ?files "remove_dir_all dir w7"]
        by (simp add: clear [OF inv7] Inr cmd)
    qed
  qed
qed

section \<open>A start that succeeds\<close>

lemma not_in_image: "i \<notin> f ` A \<Longrightarrow> \<forall>x\<in>A. f x \<noteq> i"
  by auto

lemma find_not_in_image: "i \<notin> f ` set xs \<Longrightarrow> find (\<lambda>x. f x = i) xs = None"
  by (auto simp: find_None_iff)

lemma register_new:
  assumes "ent_stage e = Ready p a is" and "sc_spawn ctx = SpawnNew fs"
    and "sc_instance_id ctx \<notin> instance_id ` set is"
  shows "register_start ctx e w =
     (Inr (generation e), set_instances (is @ [fst (first_slot ctx fs w)]) e, snd (first_slot ctx fs w))"
proof -
  have "find (\<lambda>t. instance_id t = sc_instance_id ctx) is = None"
    by (rule find_not_in_image [OF assms(3)])
  then show ?thesis
    using assms(1,2) by (simp add: register_start_def instances_mut_def Let_def case_prod_beta)
qed

lemma update_first_append:
  "(\<forall>x\<in>set xs. \<not> p x) \<Longrightarrow> p y \<Longrightarrow> update_first p f (xs @ [y]) = xs @ [f y]"
  by (induction xs) auto

lemma remove_first_append: "(\<forall>x\<in>set xs. \<not> p x) \<Longrightarrow> p y \<Longrightarrow> remove_first p (xs @ [y]) = xs"
  by (induction xs) auto

lemma find_append_last: "(\<forall>x\<in>set xs. \<not> p x) \<Longrightarrow> p y \<Longrightarrow> find p (xs @ [y]) = Some y"
  by (induction xs) auto

lemma edit_last:
  assumes "ent_stage e = Ready p a is0" and "i \<notin> instance_id ` set is" and "instance_id t = i"
    and "guard t"
  shows "snd (edit_if guard edit i (set_instances (is @ [t]) e)) = set_instances (is @ [snd (edit t)]) e"
proof -
  have none: "\<forall>x\<in>set is. instance_id x \<noteq> i" using assms(2) by auto
  have "find (\<lambda>t. instance_id t = i) (is @ [t]) = Some t"
    using none assms(3) by (simp add: find_append_last)
  moreover have "update_first (\<lambda>t. instance_id t = i) (\<lambda>_. snd (edit t)) (is @ [t]) = is @ [snd (edit t)]"
    using none assms(3) by (simp add: update_first_append)
  ultimately show ?thesis
    using assms(4)
    by (simp add: edit_if_def instance_mut_def instances_mut_set [OF assms(1)] set_instances_twice)
qed

lemma first_slot_plain:
  "stopping (fst (first_slot ctx fs w)) = False" "\<not> starts_a_restart (fst (first_slot ctx fs w))"
  "live_groups (snd (first_slot ctx fs w)) = live_groups w"
  "disk (snd (first_slot ctx fs w)) = disk w"
  by (simp_all add: first_slot_def tracked_new_def with_first_start_def Let_def case_prod_beta
      starts_a_restart_def supervision_default_def next_incarnation_def new_flag_def new_ref_def)

lemma prepare_new_succeeds:
  assumes stage: "ent_stage e = Ready path a is" and new: "sc_spawn ctx = SpawnNew fs"
    and fresh: "sc_instance_id ctx \<notin> instance_id ` set is"
    and io: "io_instance_dir io = Inr dir" "io_command io = Inr cmd" "io_fork io = Inr p"
  shows "\<exists>w'. prepare_and_spawn (\<lambda>_ x. x) ctx io e w =
     (Inr \<lparr>st_instance_dir = dir,
           st_spawn_files = \<lparr>sf_runtime_config = cmd_runtime_config cmd, sf_credential = sc_credential ctx\<rparr>,
           st_group = process_group_of e p, st_generation = generation e\<rparr>,
      set_instances (is @ [set_starting_process p
        \<lparr>sf_runtime_config = cmd_runtime_config cmd, sf_credential = sc_credential ctx\<rparr>
        (fst (first_slot ctx fs w))]) e, w') \<and> p \<in> live_groups w'"
proof -
  let ?t = "fst (first_slot ctx fs w)"
  have none: "\<forall>x\<in>set is. instance_id x \<noteq> sc_instance_id ctx" by (rule not_in_image [OF fresh])
  have inst: "instance_of (set_instances (is @ [?t]) e) (sc_instance_id ctx) = Some ?t"
    using none stage
    by (simp add: instance_of_def instances_set_instances find_append_last first_slot_facts)
  show ?thesis
    using io
    by (simp add: prepare_and_spawn_def register_new [OF stage new fresh] fork_start_def inst
        first_slot_plain record_starting_process_def process_group_of_def Let_def
        edit_last [OF stage fresh] first_slot_facts)
qed

lemma commit_last:
  assumes "ent_stage e = Ready path a is" and "i \<notin> instance_id ` set is" and "instance_id t = i"
    and "inst_state t = Starting"
  shows "commit_starting_instance (generation e) i dir eps now wall (set_instances (is @ [t]) e) =
     (Inr (), set_instances (is @ [record_running now wall (set_endpoints eps (set_running dir t))]) e)"
proof -
  have none: "\<forall>x\<in>set is. instance_id x \<noteq> i" using assms(2) by auto
  have "ent_stage (set_instances (is @ [t]) e) = Ready path a (is @ [t])"
    using assms(1) by (simp add: set_instances_def)
  then show ?thesis
    using none assms(3,4)
    by (simp add: commit_starting_instance_def find_append_last update_first_append set_instances_twice)
qed

text \<open>
  C31: a first start that nothing disturbs reaches \<open>running\<close>. On a \<open>Ready\<close> entity that does not track
  the id, when the directory, the command and the fork succeed, \<open>prepare_and_spawn\<close> and
  \<open>commit_started\<close> succeed; the entity has one more instance than before, last in its list, running
  the forked process with the directory, spawn files and endpoints of the start and no restart
  counted, and the process is alive.
\<close>

theorem first_start_reaches_running:
  assumes "ent_stage e = Ready path a is" and "sc_spawn ctx = SpawnNew fs"
    and "sc_instance_id ctx \<notin> instance_id ` set is"
    and "io_instance_dir io = Inr dir" and "io_command io = Inr cmd" and "io_fork io = Inr p"
  shows "\<exists>sctx e1 w1 t. prepare_and_spawn (\<lambda>_ x. x) ctx io e w = (Inr sctx, e1, w1) \<and>
     commit_started sctx (sc_instance_id ctx) eps now wall e1 w1 =
       (Inr (), set_instances (is @ [t]) e, w1) \<and>
     instance_id t = sc_instance_id ctx \<and> runs_process t p \<and> endpoints t = eps \<and>
     instance_dir t = Some dir \<and> restart_count (inst_supervision t) = 0 \<and> \<not> stopping t \<and>
     p \<in> live_groups w1"
proof -
  let ?files = "\<lparr>sf_runtime_config = cmd_runtime_config cmd, sf_credential = sc_credential ctx\<rparr>"
  let ?t = "set_starting_process p ?files (fst (first_slot ctx fs w))"
  obtain w1 where prep: "prepare_and_spawn (\<lambda>_ x. x) ctx io e w =
     (Inr \<lparr>st_instance_dir = dir, st_spawn_files = ?files, st_group = process_group_of e p,
           st_generation = generation e\<rparr>, set_instances (is @ [?t]) e, w1)" "p \<in> live_groups w1"
    using prepare_new_succeeds [OF assms, of w] by blast
  have t: "instance_id ?t = sc_instance_id ctx" "inst_state ?t = Starting"
    by (simp_all add: set_starting_process_def first_slot_facts)
  let ?t' = "record_running now wall (set_endpoints eps (set_running dir ?t))"
  have "instance_id ?t' = sc_instance_id ctx" "runs_process ?t' p" "endpoints ?t' = eps"
    "instance_dir ?t' = Some dir" "restart_count (inst_supervision ?t') = 0" "\<not> stopping ?t'"
    by (simp_all add: record_running_def set_endpoints_def set_running_def set_starting_process_def
        runs_process_def first_slot_def tracked_new_def with_first_start_def supervision_default_def
        Let_def case_prod_beta)
  with prep commit_last [OF assms(1,3) t] show ?thesis
    by (intro exI [of _ w1] exI [of _ ?t'] exI) (auto simp: commit_started_def)
qed

text \<open>
  C32: A failed first start restores the entity exactly: with no other task at work the entity after
  the refused start is the entity before it, and no process group is left alive by it.
\<close>

theorem failed_first_start_restores:
  assumes "sc_spawn ctx = SpawnNew fs"
    and "prepare_and_spawn (\<lambda>_ x. x) ctx io e w = (Inl err, e', w')"
  shows "e' = e \<and> live_groups w' = live_groups w"
proof (cases "fst (register_start ctx e w)")
  case (Inl err')
  then have "snd (register_start ctx e w) = (e, w)"
    using assms(1)
    by (auto simp: register_start_def Let_def case_prod_beta split: sum.splits option.splits)
  with Inl assms(2) show ?thesis
    by (cases "register_start ctx e w") (auto simp: prepare_and_spawn_def refuse_start_def)
next
  case (Inr gen)
  then obtain path a "is" where stage: "ent_stage e = Ready path a is"
    by (cases "ent_stage e") (auto simp: register_start_def)
  with Inr assms(1) have "find (\<lambda>t. instance_id t = sc_instance_id ctx) is = None"
    by (cases "find (\<lambda>t. instance_id t = sc_instance_id ctx) is")
       (auto simp: register_start_def instances_mut_def)
  then have fresh: "sc_instance_id ctx \<notin> instance_id ` set is" by (auto simp: find_None_iff)
  let ?t = "fst (first_slot ctx fs w)"
  let ?e1 = "set_instances (is @ [?t]) e"
  have none: "\<forall>x\<in>set is. \<not> (instance_id x = sc_instance_id ctx \<and> inst_state x = Starting)"
    using not_in_image [OF fresh] by blast
  have same: "set_instances is e = e"
    using set_instances_same [of e] stage by (simp add: instances_mut_def)
  have undo: "undo_start (sc_instance_id ctx) ?e1 = e"
    using none
    by (simp add: undo_start_def instances_mut_set [OF stage] find_append_last first_slot_facts
        first_slot_plain remove_first_append set_instances_twice same)
  have inst: "instance_of ?e1 (sc_instance_id ctx) = Some ?t"
    using not_in_image [OF fresh] stage
    by (simp add: instance_of_def instances_set_instances find_append_last first_slot_facts)
  show ?thesis
    using assms(2)
    by (auto simp: prepare_and_spawn_def register_new [OF stage assms(1) fresh] refuse_start_def undo
        fork_start_def inst first_slot_plain Let_def split: sum.splits)
qed

section \<open>Committing a start\<close>

text \<open>
  C33: committing a start succeeds exactly when the entity is still the one the start registered on,
  is \<open>Ready\<close> and has the instance starting. Otherwise the entity is left as it is, and the process
  group, the instance directory and the spawn files of the start are gone.
\<close>

theorem commit_started_outcome:
  "(if generation e = st_generation sctx \<and>
       (\<exists>t. instance_mut e i = Some t \<and> inst_state t = Starting)
    then fst (commit_started sctx i eps now wall e w) = Inr () \<and>
         snd (snd (commit_started sctx i eps now wall e w)) = w
    else isl (fst (commit_started sctx i eps now wall e w)) \<and>
         fst (snd (commit_started sctx i eps now wall e w)) = e \<and>
         (let w' = snd (snd (commit_started sctx i eps now wall e w)) in
            pg_pid (st_group sctx) \<notin> live_groups w' \<and> st_instance_dir sctx \<notin> disk w' \<and>
            sf_runtime_config (st_spawn_files sctx) \<notin> disk w' \<and>
            sf_credential (st_spawn_files sctx) \<notin> disk w'))"
proof -
  let ?c = "commit_starting_instance (st_generation sctx) i (st_instance_dir sctx) eps now wall e"
  have ok: "generation e = st_generation sctx \<and>
       (\<exists>t. instance_mut e i = Some t \<and> inst_state t = Starting) \<longleftrightarrow> \<not> isl (fst ?c)"
    by (auto simp: commit_starting_instance_def instance_mut_def instances_mut_def Let_def
        split: node_stage.splits option.splits)
  have refused: "snd ?c = e" if "isl (fst ?c)"
    using that by (auto simp: commit_starting_instance_def Let_def
        split: node_stage.splits option.splits if_splits)
  show ?thesis
    unfolding ok
    by (cases ?c; cases "fst ?c") (use refused in
      \<open>auto simp: commit_started_def kill_group_def Let_def\<close>)
qed

section \<open>A camera that starts\<close>

definition sample_launch :: built_in_launch where
  "sample_launch = \<lparr>bl_executable = ''peppy'', bl_args = [''mcp''], bl_env = []\<rparr>"

definition sample_entity :: "node_entity \<times> world" where
  "sample_entity = entity_built_in camera_config ''peppy.json5'' sample_launch [] sample_world"

definition sample_ctx :: start_context where
  "sample_ctx =
     \<lparr>sc_core_node = ''daemon'', sc_run_log_path = ''run.log'', sc_instance_id = ''cam'',
      sc_slot_bindings = Map.empty, sc_clock = Wall, sc_launch = None, sc_copy = None,
      sc_spawn = SpawnNew sample_first_start, sc_credential = ''cam.key''\<rparr>"

definition sample_io :: "string + u32 \<Rightarrow> start_io" where
  "sample_io forked =
     \<lparr>io_instance_dir = Inr ''instances/cam'',
      io_command = Inr \<lparr>cmd_runtime_config = ''cam.json5'', cmd_description = ''peppy mcp''\<rparr>,
      io_fork = forked\<rparr>"

lemmas start_sample_defs = sample_launch_def sample_entity_def sample_ctx_def sample_io_def
  sample_world_def sample_first_start_def entity_built_in_def with_stage_def
  next_entity_generation_def

lemma sample_entity_inv: "ent_inv (fst sample_entity)"
  by (simp add: sample_entity_def constructors_inv)

lemma sample_entity_run: "entity_run sample_entity"
  unfolding sample_entity_def by (rule run_built_in)

definition sample_registered :: "(stack_error + u64) \<times> node_entity \<times> world" where
  "sample_registered = register_start sample_ctx (fst sample_entity) (snd sample_entity)"

lemma sample_registered_step: "entity_step sample_entity (snd sample_registered)"
  using entity_step.register [of "fst sample_entity" "snd sample_entity" sample_ctx]
  by (simp add: sample_registered_def)

lemma sample_registered_slots:
  "map (\<lambda>t. (instance_id t, inst_state t)) (instances (fst (snd sample_registered))) = [(''cam'', Starting)]"
  "fst sample_registered = Inr 1"
  by (simp_all add: sample_registered_def register_start_def start_sample_defs instances_mut_def
      instances_def set_instances_def Let_def first_slot_def tracked_new_def with_first_start_def
      case_prod_beta)


theorem entity_step_legal_witness:
  "list_all (\<lambda>t. inst_state t = Starting \<and> instance_id t \<notin> instance_id ` set (instances (fst sample_entity)))
     (instances (fst (snd sample_registered)))"
  unfolding list_all_iff
proof
  fix t assume t: "t \<in> set (instances (fst (snd sample_registered)))"
  have "entity_run (fst sample_entity, snd sample_entity)"
    "entity_step (fst sample_entity, snd sample_entity)
      (fst (snd sample_registered), snd (snd sample_registered))"
    using sample_entity_run sample_registered_step by simp_all
  from entity_step_legal [OF this t]
  show "inst_state t = Starting \<and> instance_id t \<notin> instance_id ` set (instances (fst sample_entity))"
    by (simp add: start_sample_defs instances_def Let_def)
qed

definition sample_added :: node_entity where
  "sample_added = fst (entity_new camera_config ''peppy.json5'' [] sample_world)"


lemma fork_start_refused:
  "\<exists>err. fork_start ctx node files desc (Inl reason) e w = (Inl err, e, w)"
  by (simp add: fork_start_def)

lemma sample_refused:
  "\<exists>err e' w'. prepare_and_spawn (\<lambda>_ x. x) sample_ctx (sample_io (Inl ''no such file''))
       (fst sample_entity) (snd sample_entity) = (Inl err, e', w')"
proof -
  obtain e1 w1 where reg: "register_start sample_ctx (fst sample_entity) (snd sample_entity) = (Inr 1, e1, w1)"
    using sample_registered_slots(2) by (cases sample_registered) (simp add: sample_registered_def)
  let ?w = "w1\<lparr>disk := insert ''instances/cam'' (disk w1)\<rparr>"
  obtain err where "fork_start sample_ctx (ent_name (fst sample_entity), ent_tag (fst sample_entity))
      \<lparr>sf_runtime_config = ''cam.json5'', sf_credential = sc_credential sample_ctx\<rparr> ''peppy mcp''
      (Inl ''no such file'') e1 (?w\<lparr>disk := insert ''cam.json5'' (disk ?w)\<rparr>) =
      (Inl err, e1, ?w\<lparr>disk := insert ''cam.json5'' (disk ?w)\<rparr>)"
    using fork_start_refused by blast
  then show ?thesis
    by (simp add: prepare_and_spawn_def reg sample_io_def refuse_start_def Let_def)
qed

theorem failed_start_leaves_nothing_witness:
  "\<exists>err e' w'. prepare_and_spawn (\<lambda>_ x. x) sample_ctx (sample_io (Inl ''no such file''))
       (fst sample_entity) (snd sample_entity) = (Inl err, e', w') \<and>
     ''cam.key'' \<notin> disk w' \<and> ''instances/cam'' \<notin> disk w' \<and> ''cam.json5'' \<notin> disk w'"
proof -
  obtain err e' w' where r: "prepare_and_spawn (\<lambda>_ x. x) sample_ctx (sample_io (Inl ''no such file''))
       (fst sample_entity) (snd sample_entity) = (Inl err, e', w')"
    using sample_refused by blast
  have "well_behaved (\<lambda>_ x. x)" by (simp add: well_behaved_def)
  moreover have "fst (register_start sample_ctx (fst sample_entity) (snd sample_entity)) = Inr 1"
    using sample_registered_slots(2) by (simp add: sample_registered_def)
  ultimately have "''cam.key'' \<notin> disk w' \<and> ''instances/cam'' \<notin> disk w' \<and> ''cam.json5'' \<notin> disk w'"
    using failed_start_leaves_nothing [OF sample_entity_inv _ _ r]
    by (simp add: sample_ctx_def sample_io_def)
  with r show ?thesis by blast
qed

lemma sample_entity_stage: "ent_stage (fst sample_entity) = Ready ''peppy.json5'' (BuiltIn sample_launch) []"
  by (simp add: sample_entity_def entity_built_in_def with_stage_def Let_def case_prod_beta)

theorem first_start_reaches_running_witness:
  "\<exists>sctx e1 w1 t. prepare_and_spawn (\<lambda>_ x. x) sample_ctx (sample_io (Inr 4711)) (fst sample_entity)
       (snd sample_entity) = (Inr sctx, e1, w1) \<and>
     commit_started sctx ''cam'' [] 5 6 e1 w1 = (Inr (), set_instances [t] (fst sample_entity), w1) \<and>
     instance_id t = ''cam'' \<and> runs_process t 4711 \<and> 4711 \<in> live_groups w1"
proof -
  have "sc_spawn sample_ctx = SpawnNew sample_first_start"
    "sc_instance_id sample_ctx = ''cam''" "sc_instance_id sample_ctx \<notin> instance_id ` set []"
    "io_instance_dir (sample_io (Inr 4711)) = Inr ''instances/cam''"
    "io_command (sample_io (Inr 4711)) =
       Inr \<lparr>cmd_runtime_config = ''cam.json5'', cmd_description = ''peppy mcp''\<rparr>"
    "io_fork (sample_io (Inr 4711)) = Inr 4711"
    by (simp_all add: sample_ctx_def sample_io_def)
  note h = this
  from first_start_reaches_running [OF sample_entity_stage h(1,3-6), of "snd sample_entity" "[]" 5 6]
  show ?thesis by (auto simp: h(2))
qed

theorem failed_first_start_restores_witness:
  "\<exists>err w'. prepare_and_spawn (\<lambda>_ x. x) sample_ctx (sample_io (Inl ''no such file''))
     (fst sample_entity) (snd sample_entity) = (Inl err, fst sample_entity, w')"
proof -
  have new: "sc_spawn sample_ctx = SpawnNew sample_first_start" by (simp add: sample_ctx_def)
  obtain err e' w' where r: "prepare_and_spawn (\<lambda>_ x. x) sample_ctx (sample_io (Inl ''no such file''))
     (fst sample_entity) (snd sample_entity) = (Inl err, e', w')"
    using sample_refused by blast
  from failed_first_start_restores [OF new r] r show ?thesis by blast
qed

end
