(* ===== verification/Instance_Restarts.thy ===== *)
theory Instance_Restarts
  imports Instance_Starts
begin

text \<open>
  An instance across its processes: who may end or restart a running process, and what an exit, the
  respawn that follows it and the commit of that respawn do together. The operations are those of
  \<open>Node_Entity\<close>.
\<close>

section \<open>Finding a slot again\<close>

lemma instance_of_mut: "instance_mut e i = Some t \<Longrightarrow> instance_of e i = Some t"
  by (auto simp: instance_mut_def instance_of_def instances_mut_def instances_def
      split: node_stage.splits)

lemma instance_mut_ready: "instance_mut e i = Some t \<Longrightarrow> \<exists>p a. ent_stage e = Ready p a (instances_mut e)"
  by (auto simp: instance_mut_def instances_mut_def split: node_stage.splits)

lemma instance_mut_id: "instance_mut e i = Some t \<Longrightarrow> instance_id t = i"
  by (auto simp: instance_mut_def)

lemma instance_mut_inv: "ent_inv e \<Longrightarrow> instance_mut e i = Some t \<Longrightarrow> slot_inv t"
  by (auto simp: instance_mut_def dest: find_Some_in ent_inv_slots(2))

lemma instance_of_shared_edit:
  assumes "\<And>t. instance_id (f t) = instance_id t"
  shows "instance_of (shared_edit f i e) j =
     (if j = i then map_option f (instance_of e i) else instance_of e j)"
proof (cases "j = i")
  case True
  have "find (\<lambda>t. instance_id t = i) (update_first (\<lambda>t. instance_id t = i) f is) =
      map_option f (find (\<lambda>t. instance_id t = i) is)" for "is"
    by (rule find_update_first_same) (simp add: assms)
  with True assms show ?thesis
    by (cases "ent_stage e") (auto simp: instance_of_def instances_def shared_edit_def)
next
  case False
  then have "find (\<lambda>t. instance_id t = j) (update_first (\<lambda>t. instance_id t = i) f is) =
      find (\<lambda>t. instance_id t = j) is" for "is"
    using assms by (intro find_update_first_other) auto
  with False assms show ?thesis
    by (simp add: instance_of_def instances_def shared_edit_def split: node_stage.split)
qed

lemma instance_mut_of: "instance_mut e i = Some t \<or> instance_mut e i = None"
  if "instance_of e i = Some t"
  using that by (auto simp: instance_mut_def instance_of_def instances_mut_def instances_def
      split: node_stage.splits)

section \<open>One task ends a process\<close>

text \<open>
  C35: a process is claimed once. On an instance that runs the process and is not claimed, the claim
  succeeds and cancels the restart token; a second claim is told that another task has it, the exit
  of the claimed process is not recorded and starts no restart, and no other instance is touched.
\<close>

theorem process_claim_is_exclusive:
  assumes "entity_runs_unclaimed_process e i p"
  shows "(let (c, e1) = claim_process i p e in
      c = ProcessClaimed \<and> fst (claim_process i p e1) = ProcessClaimedElsewhere \<and>
      \<not> entity_runs_unclaimed_process e1 i p \<and>
      mark_instance_exited i p cause b now wall regs e1 = (None, e1) \<and>
      respawn_inputs_of i e1 = None \<and>
      map_option (\<lambda>t. token_cancelled (inst_supervision t)) (instance_of e1 i) = Some True \<and>
      (j = i \<or> instance_of e1 j = instance_of e j))"
proof -
  from assms obtain t where t: "instance_of e i = Some t" "runs_process t p" "\<not> stopping t"
    by (auto simp: entity_runs_unclaimed_process_def runs_unclaimed_process_def split: option.splits)
  let ?e1 = "shared_edit mark_stopping i e"
  have claim: "claim_process i p e = (ProcessClaimed, ?e1)"
    using t by (simp add: claim_process_def claim_once_def)
  have after: "instance_of ?e1 j = (if j = i then map_option mark_stopping (instance_of e i)
      else instance_of e j)" for j
    by (rule instance_of_shared_edit) (simp add: mark_stopping_def claim_once_def)
  have s: "instance_of ?e1 i = Some (mark_stopping t)" by (simp add: after t)
  have m: "stopping (mark_stopping t)" "runs_process (mark_stopping t) p"
    "token_cancelled (inst_supervision (mark_stopping t))"
    using t(2) by (simp_all add: mark_stopping_def claim_once_def runs_process_def)
  have "fst (claim_process i p ?e1) = ProcessClaimedElsewhere"
    using s m by (simp add: claim_process_def claim_once_def)
  moreover have "mark_instance_exited i p cause b now wall regs ?e1 = (None, ?e1)"
    using instance_mut_of [OF s] m
    by (auto simp: mark_instance_exited_def edit_if_def runs_unclaimed_process_def)
  ultimately show ?thesis
    using m after [of j]
    by (simp add: claim s entity_runs_unclaimed_process_def runs_unclaimed_process_def
        respawn_inputs_of_def awaiting_restart_slot_def awaits_restart_def)
qed

section \<open>An exit that restarts\<close>

lemma find_waiting:
  assumes "distinct (map instance_id is)" and "find (\<lambda>t. instance_id t = i) is = Some t" and "Q t"
  shows "find (\<lambda>t. instance_id t = i \<and> Q t) is = Some t"
    and "instance_id (f t) = i \<Longrightarrow>
      find (\<lambda>t. instance_id t = i) (update_first (\<lambda>t. instance_id t = i \<and> Q t) f is) = Some (f t)"
  using assms by (induction "is") (auto split: if_splits)

lemma instance_mut_set_ready:
  assumes "ent_stage e = Ready p a is0"
  shows "instance_mut (set_instances is e) i = find (\<lambda>t. instance_id t = i) is"
  using assms by (simp add: instance_mut_def instances_mut_set)

lemma register_respawn:
  assumes inv: "ent_inv e" and t: "instance_mut e (sc_instance_id ctx) = Some t"
    and wait: "awaits_restart t" and target: "sc_spawn ctx = Respawn"
  obtains e1 w1 where "register_start ctx e w = (Inr (generation e), e1, w1)"
    "instance_mut e1 (sc_instance_id ctx) = Some (fst (begin_respawn t w))"
    "generation e1 = generation e" "ent_config e1 = ent_config e"
proof -
  let ?i = "sc_instance_id ctx"
  let ?waiting = "\<lambda>t. instance_id t = ?i \<and> awaits_restart t"
  let ?t' = "fst (begin_respawn t w)"
  let ?e1 = "set_instances (update_first ?waiting (\<lambda>_. ?t') (instances_mut e)) e"
  obtain p a where ready: "ent_stage e = Ready p a (instances_mut e)"
    using instance_mut_ready [OF t] by blast
  have find: "find (\<lambda>t. instance_id t = ?i) (instances_mut e) = Some t"
    using t by (simp add: instance_mut_def)
  note waiting = find_waiting [OF ent_inv_slots(1) [OF inv] find, of awaits_restart, OF wait]
  have id: "instance_id ?t' = ?i"
    using instance_mut_id [OF t] by (simp add: begin_respawn_def Let_def case_prod_beta)
  have "register_start ctx e w = (Inr (generation e), ?e1, snd (begin_respawn t w))"
    using waiting(1) target ready
    by (simp add: register_start_def Let_def case_prod_beta)
  moreover have "instance_mut ?e1 ?i = Some ?t'"
    using waiting(2) [of "\<lambda>_. ?t'"] id by (simp add: instance_mut_set_ready [OF ready])
  ultimately show thesis by (rule that) simp_all
qed

lemma edit_if_self:
  assumes "instance_mut e i = Some t" and "guard t" and "instance_id (snd (edit t)) = i"
  obtains e1 where "edit_if guard edit i e = (Some (fst (edit t)), e1)"
    "instance_mut e1 i = Some (snd (edit t))" "generation e1 = generation e" "ent_config e1 = ent_config e"
proof -
  let ?is = "update_first (\<lambda>t. instance_id t = i) (\<lambda>_. snd (edit t)) (instances_mut e)"
  obtain p a where ready: "ent_stage e = Ready p a (instances_mut e)"
    using instance_mut_ready [OF assms(1)] by blast
  have "find (\<lambda>t. instance_id t = i) ?is =
      map_option (\<lambda>_. snd (edit t)) (find (\<lambda>t. instance_id t = i) (instances_mut e))"
    by (rule find_update_first_same) (simp add: assms(3))
  moreover have "find (\<lambda>t. instance_id t = i) (instances_mut e) = Some t"
    using assms(1) by (simp add: instance_mut_def)
  ultimately have inst: "instance_mut (set_instances ?is e) i = Some (snd (edit t))"
    by (simp add: instance_mut_set_ready [OF ready])
  have edit: "edit_if guard edit i e = (Some (fst (edit t)), set_instances ?is e)"
    using assms(1,2) by (simp add: edit_if_def)
  show thesis by (rule that [OF edit inst]) simp_all
qed

lemma prepare_respawn_succeeds:
  assumes inv: "ent_inv e" and t: "instance_mut e (sc_instance_id ctx) = Some t"
    and wait: "awaits_restart t" and target: "sc_spawn ctx = Respawn"
    and io: "io_instance_dir io = Inr dir" "io_command io = Inr cmd" "io_fork io = Inr p"
  obtains sctx files e1 w1 where "prepare_and_spawn (\<lambda>_ x. x) ctx io e w = (Inr sctx, e1, w1)"
    "instance_mut e1 (sc_instance_id ctx) = Some (set_starting_process p files (fst (begin_respawn t w)))"
    "st_generation sctx = generation e1" "p \<in> live_groups w1" "pg_pid (st_group sctx) = p" "ent_inv e1"
proof -
  let ?i = "sc_instance_id ctx"
  let ?t = "fst (begin_respawn t w)"
  let ?files = "\<lparr>sf_runtime_config = cmd_runtime_config cmd, sf_credential = sc_credential ctx\<rparr>"
  obtain e1 w1 where reg: "register_start ctx e w = (Inr (generation e), e1, w1)"
    "instance_mut e1 ?i = Some ?t" "generation e1 = generation e"
    using register_respawn [OF inv t wait target] by blast
  have state: "inst_state ?t = Starting" "\<not> stopping ?t" "instance_id (set_starting_process p ?files ?t) = ?i"
    using wait instance_mut_id [OF t]
    by (simp_all add: begin_respawn_def awaits_restart_def set_starting_process_def Let_def case_prod_beta)
  have "instance_id (snd ((), set_starting_process p ?files ?t)) = ?i" using state(3) by simp
  from edit_if_self [OF reg(2), where guard = "\<lambda>t. inst_state t = Starting"
      and edit = "\<lambda>t. ((), set_starting_process p ?files t)", OF state(1) this]
  obtain e2 where e2: "edit_if (\<lambda>t. inst_state t = Starting)
      (\<lambda>t. ((), set_starting_process p ?files t)) ?i e1 = (Some (), e2)"
    "instance_mut e2 ?i = Some (set_starting_process p ?files ?t)" "generation e2 = generation e1"
    unfolding fst_conv snd_conv by blast
  then have rec: "record_starting_process ?i p ?files e1 = e2"
    "instance_mut e2 ?i = Some (set_starting_process p ?files ?t)" "generation e2 = generation e1"
    by (simp_all only: record_starting_process_def snd_conv)
  let ?sctx = "\<lparr>st_instance_dir = dir, st_spawn_files = ?files,
    st_group = \<lparr>pg_pid = p, pg_is_container = nc_container (ent_config e)\<rparr>, st_generation = generation e\<rparr>"
  have "\<exists>w2. prepare_and_spawn (\<lambda>_ x. x) ctx io e w = (Inr ?sctx, e2, w2) \<and> p \<in> live_groups w2"
    using state(2) io
    by (simp add: prepare_and_spawn_def reg(1) fork_start_def instance_of_mut [OF reg(2)] rec(1) Let_def)
  then obtain w2 where spawned: "prepare_and_spawn (\<lambda>_ x. x) ctx io e w = (Inr ?sctx, e2, w2)"
    "p \<in> live_groups w2"
    by blast
  have "ent_inv e1" using register_start_keeps [OF inv, of ctx w] by (simp add: reg(1) keeps_def)
  then have "ent_inv e2"
    using process_edit.edit_keeps [of e1 p ?files ?i] rec(1) by (simp add: record_starting_process_def keeps_def)
  with rec(3) reg(3) show thesis by (intro that [OF spawned(1) rec(2) _ spawned(2)]) simp_all
qed

lemma commit_starting:
  assumes t: "instance_mut e i = Some t" and "inst_state t = Starting" and "st_generation sctx = generation e"
  obtains e1 where "commit_started sctx i eps now wall e w = (Inr (), e1, w)"
    "instance_mut e1 i =
       Some (record_running now wall (set_endpoints eps (set_running (st_instance_dir sctx) t)))"
proof -
  let ?f = "\<lambda>t. record_running now wall (set_endpoints eps (set_running (st_instance_dir sctx) t))"
  let ?is = "update_first (\<lambda>t. instance_id t = i) ?f (instances_mut e)"
  obtain p a where ready: "ent_stage e = Ready p a (instances_mut e)"
    using instance_mut_ready [OF t] by blast
  have find: "find (\<lambda>t. instance_id t = i) (instances_mut e) = Some t"
    using t by (simp add: instance_mut_def)
  have "find (\<lambda>t. instance_id t = i) ?is =
      map_option ?f (find (\<lambda>t. instance_id t = i) (instances_mut e))"
    by (rule find_update_first_same)
       (simp add: record_running_def set_endpoints_def set_running_def Let_def)
  then have "instance_mut (set_instances ?is e) i = Some (?f t)"
    by (simp add: instance_mut_set_ready [OF ready] find)
  moreover have "commit_started sctx i eps now wall e w = (Inr (), set_instances ?is e, w)"
    using assms(2,3) find by (simp add: commit_started_def commit_starting_instance_def ready)
  ultimately show thesis using that by blast
qed

lemma exit_restarts_first_start:
  "exit_restarts t cause \<Longrightarrow> \<exists>first. sv_first_start (inst_supervision t) = Some first"
  by (cases "sv_first_start (inst_supervision t)")
     (auto simp: exit_restarts_def policy_of_def restart_of_def policy_only_def split: if_splits)

lemma exit_recorded:
  assumes inv: "ent_inv e" and t: "instance_mut e i = Some t" and run: "runs_unclaimed_process t p"
  obtains e1 where "mark_instance_exited i p cause b now wall regs e = (Some (fst (record_exit cause b now wall regs t)), e1)"
    "instance_mut e1 i = Some (snd (record_exit cause b now wall regs t))" "ent_inv e1"
proof -
  have id: "instance_id (snd (record_exit cause b now wall regs t)) = i"
    using instance_mut_id [OF t] by (simp add: record_exit_keeps)
  obtain e1 where e1: "mark_instance_exited i p cause b now wall regs e =
      (Some (fst (record_exit cause b now wall regs t)), e1)"
    "instance_mut e1 i = Some (snd (record_exit cause b now wall regs t))"
    unfolding mark_instance_exited_def
    by (rule edit_if_self [OF t, where guard = "\<lambda>t. runs_unclaimed_process t p"
        and edit = "record_exit cause b now wall regs", OF run id])
  have "ent_inv e1"
    using exit_edit.edit_inv [OF inv, of p cause b now wall regs i] e1(1)
    by (simp add: mark_instance_exited_def)
  with e1 show thesis by (rule that)
qed

text \<open>The slot of the new process, from the slot \<open>t\<close> whose process exited.\<close>

lemma restarted_slot:
  assumes run: "runs_unclaimed_process t p" and restarts: "exit_restarts t cause"
    and r: "r = record_running now' wall' (set_endpoints eps (set_running dir
      (set_starting_process q files (fst (begin_respawn (snd (record_exit cause b now wall regs t)) w)))))"
  shows "runs_unclaimed_process r q" "endpoints r = eps"
    "restart_count (inst_supervision r) = saturating_add32 (restart_count (inst_supervision t)) 1"
    "attempt (inst_supervision r) = attempt_after_exit b now t"
    "sv_registrations (inst_supervision r) = registrations_default"
proof -
  let ?x = "snd (record_exit cause b now wall regs t)"
  have x: "attempt (inst_supervision ?x) = attempt_after_exit b now t" "attempt_after_exit b now t > 0"
    "\<not> stopping ?x" "restart_count (inst_supervision ?x) = restart_count (inst_supervision t)"
    using run restarts
    by (simp_all add: record_exit_attempt record_exit_keeps record_exit_records attempt_after_exit_def
        word_neq_0_conv [symmetric] runs_unclaimed_process_def del: word_neq_0_conv)
  show "runs_unclaimed_process r q" "endpoints r = eps"
    "restart_count (inst_supervision r) = saturating_add32 (restart_count (inst_supervision t)) 1"
    "attempt (inst_supervision r) = attempt_after_exit b now t"
    "sv_registrations (inst_supervision r) = registrations_default"
    using x unfolding r
    by (simp_all add: record_running_def set_endpoints_def set_running_def set_starting_process_def
        begin_respawn_def runs_unclaimed_process_def runs_process_def Let_def case_prod_beta)
qed

text \<open>
  C34: an instance its policy restarts runs again. When the process of an unclaimed running instance
  exits, the policy covers the exit and the cap allows the next attempt, then the exit leaves an
  instance whose respawn has its inputs; and when nothing disturbs the respawn and its directory,
  command and fork succeed, it commits, and the instance runs the new process with one more restart
  counted (up to \<open>u32::MAX\<close>), at the attempt the backoff gave, with nothing left to re-register.
\<close>

theorem exit_then_respawn_runs_again:
  assumes inv: "ent_inv e" and t: "instance_mut e (sc_instance_id ctx) = Some t"
    and run: "runs_unclaimed_process t p" and restarts: "exit_restarts t cause"
    and cap: "cap_allows (cap_of t) (attempt_after_exit b now t)" and target: "sc_spawn ctx = Respawn"
    and io: "io_instance_dir io = Inr dir" "io_command io = Inr cmd" "io_fork io = Inr q"
  shows "\<exists>rec e1 sctx e2 w2 e3 t'.
     mark_instance_exited (sc_instance_id ctx) p cause b now wall regs e = (Some rec, e1) \<and>
     respawn_inputs_of (sc_instance_id ctx) e1 \<noteq> None \<and>
     prepare_and_spawn (\<lambda>_ x. x) ctx io e1 w = (Inr sctx, e2, w2) \<and>
     commit_started sctx (sc_instance_id ctx) eps now' wall' e2 w2 = (Inr (), e3, w2) \<and>
     instance_mut e3 (sc_instance_id ctx) = Some t' \<and> runs_unclaimed_process t' q \<and>
     endpoints t' = eps \<and>
     restart_count (inst_supervision t') = saturating_add32 (restart_count (inst_supervision t)) 1 \<and>
     attempt (inst_supervision t') = attempt_after_exit b now t \<and>
     sv_registrations (inst_supervision t') = registrations_default \<and> q \<in> live_groups w2"
proof -
  let ?i = "sc_instance_id ctx"
  let ?x = "snd (record_exit cause b now wall regs t)"
  obtain e1 where e1: "mark_instance_exited ?i p cause b now wall regs e =
      (Some (fst (record_exit cause b now wall regs t)), e1)" "instance_mut e1 ?i = Some ?x"
    and inv1: "ent_inv e1"
    by (rule exit_recorded [OF inv t run])
  have wait: "awaits_restart ?x"
    using run restarts cap
    by (simp add: awaits_restart_def record_exit_state record_exit_keeps runs_unclaimed_process_def)
  have inputs: "respawn_inputs_of ?i e1 \<noteq> None"
    using exit_restarts_first_start [OF restarts] wait
      instance_of_mut [OF e1(2)]
    by (auto simp: record_exit_records respawn_inputs_of_def awaiting_restart_slot_def Let_def)
  obtain sctx files e2 w2 where spawn: "prepare_and_spawn (\<lambda>_ x. x) ctx io e1 w = (Inr sctx, e2, w2)"
    "instance_mut e2 ?i = Some (set_starting_process q files (fst (begin_respawn ?x w)))"
    "st_generation sctx = generation e2" "q \<in> live_groups w2"
    by (rule prepare_respawn_succeeds [OF inv1 e1(2) wait target io])
  let ?s = "set_starting_process q files (fst (begin_respawn ?x w))"
  let ?r = "record_running now' wall' (set_endpoints eps (set_running (st_instance_dir sctx) ?s))"
  have starting: "inst_state ?s = Starting"
    by (simp add: set_starting_process_def begin_respawn_def Let_def case_prod_beta)
  obtain e3 where commit: "commit_started sctx ?i eps now' wall' e2 w2 = (Inr (), e3, w2)"
    "instance_mut e3 ?i = Some ?r"
    by (rule commit_starting [OF spawn(2) starting spawn(3)])
  show ?thesis
    by (intro exI conjI, rule e1(1), rule inputs, rule spawn(1), rule commit(1), rule commit(2))
       (rule restarted_slot [OF run restarts refl] spawn(4))+
qed

section \<open>The pairs an instance holds\<close>

lemma hold_pair_facts:
  assumes "hold_pair c pair held = (displaced, held')"
  shows "pair \<in> set held'" "set held' = insert pair (set held) - set displaced"
    "is_scalar c \<Longrightarrow> h \<in> set held' \<Longrightarrow> own h = own pair \<Longrightarrow> h = pair"
    "set displaced = (if is_scalar c then {h \<in> set held. own h = own pair \<and> h \<noteq> pair} else {})"
    "distinct held \<Longrightarrow> distinct held'"
  using assms by (auto simp: hold_pair_def Let_def split: if_splits)

text \<open>
  What an instance holds of its pairs. Recording a pair on a slot its manifest declares keeps
  the pair once. On a slot that takes one peer it is then the only pair of that slot, and exactly
  the pairs it replaced come back as displaced; a slot that takes several displaces none. Pairs of
  other slots stay.
\<close>

theorem record_held_pair_holds_one:
  assumes "instance_mut e (sa_instance_id (own pair)) = Some t"
    and "pairing_slot_cardinality e (sa_link_id (own pair)) = Some c"
  shows "\<exists>displaced e' t'. record_held_pair pair e = (Some displaced, e') \<and>
     instance_mut e' (sa_instance_id (own pair)) = Some t' \<and>
     (let before = held_pairs (inst_supervision t); now = held_pairs (inst_supervision t') in
        pair \<in> set now \<and> set now = insert pair (set before) - set displaced \<and>
        set displaced = (if is_scalar c then {h \<in> set before. own h = own pair \<and> h \<noteq> pair} else {}) \<and>
        t' = set_held_pairs now t)"
proof -
  let ?i = "sa_instance_id (own pair)"
  let ?edit = "\<lambda>t. let (displaced, held) = hold_pair c pair (held_pairs (inst_supervision t))
                 in (displaced, set_held_pairs held t)"
  obtain displaced held where hold: "hold_pair c pair (held_pairs (inst_supervision t)) = (displaced, held)"
    by fastforce
  then have edit: "?edit t = (displaced, set_held_pairs held t)" by simp
  have "instance_id (snd (?edit t)) = ?i"
    unfolding edit using instance_mut_id [OF assms(1)] by (simp add: set_held_pairs_def)
  from edit_if_self [OF assms(1), where guard = "\<lambda>_. True" and edit = ?edit, OF TrueI this]
  obtain e' where "edit_if (\<lambda>_. True) ?edit ?i e = (Some displaced, e')"
    "instance_mut e' ?i = Some (set_held_pairs held t)"
    unfolding edit fst_conv snd_conv by blast
  moreover have "held_pairs (inst_supervision (set_held_pairs held t)) = held"
    by (simp add: set_held_pairs_def)
  ultimately show ?thesis
    using hold_pair_facts(1,2,4) [OF hold] assms(2)
    by (intro exI [of _ displaced] exI [of _ e'] exI [of _ "set_held_pairs held t"])
       (simp only: record_held_pair_def option.case Let_def simp_thms)
qed

section \<open>A camera that restarts\<close>

definition sample_running_slot :: tracked_instance where
  "sample_running_slot =
     record_running 5 6 (set_endpoints [] (set_running ''instances/cam'' (set_starting_process 4711
       \<lparr>sf_runtime_config = ''cam.json5'', sf_credential = ''cam.key''\<rparr>
       (fst (first_slot sample_ctx sample_first_start (snd sample_entity))))))"

definition sample_running :: node_entity where
  "sample_running = set_instances [sample_running_slot] (fst sample_entity)"

definition sample_respawn :: start_context where
  "sample_respawn = sample_ctx\<lparr>sc_spawn := Respawn\<rparr>"

lemma sample_running_slot_facts:
  "instance_id sample_running_slot = ''cam''" "runs_unclaimed_process sample_running_slot 4711"
  "shutdown_requests sample_running_slot = 0" "sv_health_kill (inst_supervision sample_running_slot) = None"
  "attempt (inst_supervision sample_running_slot) = 0"
  "run_started (inst_supervision sample_running_slot) = Some 5"
  "sv_first_start (inst_supervision sample_running_slot) = Some sample_first_start"
  "restart_count (inst_supervision sample_running_slot) = 0" "slot_inv sample_running_slot"
  by (simp_all add: sample_running_slot_def record_running_def set_endpoints_def set_running_def
      set_starting_process_def first_slot_def tracked_new_def with_first_start_def sample_ctx_def
      supervision_default_def runs_unclaimed_process_def runs_process_def slot_inv_def Let_def
      case_prod_beta)

lemma sample_running_inv: "ent_inv sample_running"
  unfolding sample_running_def
  by (rule set_instances_inv [OF sample_entity_inv]) (simp_all add: sample_running_slot_facts)

lemma sample_running_slot_found: "instance_mut sample_running ''cam'' = Some sample_running_slot"
  by (simp add: sample_running_def instance_mut_set_ready [OF sample_entity_stage]
      sample_running_slot_facts)

theorem process_claim_is_exclusive_witness:
  "fst (claim_process ''cam'' 4711 sample_running) = ProcessClaimed \<and>
   fst (claim_process ''cam'' 4711 (snd (claim_process ''cam'' 4711 sample_running))) =
     ProcessClaimedElsewhere"
proof -
  have "entity_runs_unclaimed_process sample_running ''cam'' 4711"
    by (simp add: entity_runs_unclaimed_process_def instance_of_mut [OF sample_running_slot_found]
        sample_running_slot_facts)
  from process_claim_is_exclusive [OF this] show ?thesis by (simp add: case_prod_beta Let_def)
qed

theorem exit_then_respawn_runs_again_witness:
  "\<exists>rec e1 sctx e2 w2 e3 t'.
     mark_instance_exited ''cam'' 4711 (Code 1) sample_backoff 9 9 registrations_default sample_running =
       (Some rec, e1) \<and>
     prepare_and_spawn (\<lambda>_ x. x) sample_respawn (sample_io (Inr 4712)) e1 sample_world = (Inr sctx, e2, w2) \<and>
     commit_started sctx ''cam'' [] 20 20 e2 w2 = (Inr (), e3, w2) \<and>
     instance_mut e3 ''cam'' = Some t' \<and> runs_unclaimed_process t' 4712 \<and>
     restart_count (inst_supervision t') = saturating_add32 0 1"
proof -
  note facts = sample_running_slot_facts
  have id: "sc_instance_id sample_respawn = ''cam''" by (simp add: sample_respawn_def sample_ctx_def)
  have restarts: "exit_restarts sample_running_slot (Code 1)"
    by (simp add: exit_restarts_def exit_cause_of_def facts policy_of_def restart_of_def
        sample_first_start_def)
  have cap: "cap_allows (cap_of sample_running_slot) (attempt_after_exit sample_backoff 9 sample_running_slot)"
    by (simp add: cap_of_def attempt_after_exit_def exit_ran_for_def facts restart_of_def backoff_next_def
        sample_first_start_def sample_backoff_def saturating_duration_since_def saturating_add32_def Let_def)
  have io: "sc_spawn sample_respawn = Respawn" "io_instance_dir (sample_io (Inr 4712)) = Inr ''instances/cam''"
    "io_command (sample_io (Inr 4712)) = Inr \<lparr>cmd_runtime_config = ''cam.json5'', cmd_description = ''peppy mcp''\<rparr>"
    "io_fork (sample_io (Inr 4712)) = Inr 4712"
    by (simp_all add: sample_respawn_def sample_io_def)
  have found: "instance_mut sample_running (sc_instance_id sample_respawn) = Some sample_running_slot"
    by (simp add: id sample_running_slot_found)
  from exit_then_respawn_runs_again [OF sample_running_inv found facts(2) restarts cap io,
      of 9 registrations_default sample_world "[]" 20 20]
  show ?thesis unfolding id facts(8) by blast
qed

end
