(* ===== verification/Crash_Loop.thy ===== *)
theory Crash_Loop
  imports Instance_Restarts
begin

text \<open>
  An instance that keeps crashing, on its entity: each exit of its process is recorded, and when the
  record schedules an attempt the restart task of the daemon
  (\<open>core-node-internal/src/services/node/supervisor.rs\<close>) reads the inputs of the respawn, records its
  log, spawns the next process and commits it. The cap of its declaration bounds the restarts.
\<close>

record crash =
  cr_exit :: instant
  cr_exit_wall :: system_time
  cr_registrations :: registrations
  cr_log :: string
  cr_ctx :: start_context
  cr_io :: start_io
  cr_endpoints :: "instance_endpoint list"
  cr_run :: instant
  cr_run_wall :: system_time

text \<open>
  The exit of process \<open>p\<close> of instance \<open>i\<close>, and the restart that follows it with no other task at work: the
  process that then runs, or \<open>None\<close> when none does. A start that fails ends the composition here; the
  restart task takes the backoff's next attempt then.
\<close>

definition crash_and_restart ::
    "restart_backoff \<Rightarrow> exit_cause \<Rightarrow> string \<Rightarrow> crash \<Rightarrow> u32 \<Rightarrow> node_entity \<Rightarrow> world \<Rightarrow> u32 option \<times> node_entity \<times> world" where
  "crash_and_restart b cause i c p e w =
     (case mark_instance_exited i p cause b (cr_exit c) (cr_exit_wall c) (cr_registrations c) e of
        (None, e1) \<Rightarrow> (None, e1, w)
      | (Some rec, e1) \<Rightarrow>
          (case (er_next rec, respawn_inputs_of i e1) of
             (Some (Scheduled _ _ _ _), Some _) \<Rightarrow>
               (case prepare_and_spawn (\<lambda>_ x. x) (cr_ctx c) (cr_io c) (record_respawn_log i (cr_log c) e1) w of
                  (Inl _, e2, w2) \<Rightarrow> (None, e2, w2)
                | (Inr sctx, e2, w2) \<Rightarrow>
                    (case commit_started sctx i (cr_endpoints c) (cr_run c) (cr_run_wall c) e2 w2 of
                       (Inl _, e3, w3) \<Rightarrow> (None, e3, w3)
                     | (Inr _, e3, w3) \<Rightarrow> (Some (pg_pid (st_group sctx)), e3, w3)))
           | _ \<Rightarrow> (None, e1, w)))"

fun crash_loop ::
    "restart_backoff \<Rightarrow> exit_cause \<Rightarrow> string \<Rightarrow> crash list \<Rightarrow> u32 option \<times> node_entity \<times> world \<Rightarrow>
     u32 option \<times> node_entity \<times> world" where
  "crash_loop b cause i [] x = x"
| "crash_loop b cause i (c # cs) (None, e, w) = (None, e, w)"
| "crash_loop b cause i (c # cs) (Some p, e, w) = crash_loop b cause i cs (crash_and_restart b cause i c p e w)"

text \<open>Each process exits before it has run for \<open>reset_after\<close>.\<close>

fun rapid :: "restart_backoff \<Rightarrow> instant \<Rightarrow> crash list \<Rightarrow> bool" where
  "rapid b started [] = True"
| "rapid b started (c # cs) =
     (saturating_duration_since (cr_exit c) started < reset_after b \<and> rapid b (cr_run c) cs)"

text \<open>A respawn of the instance whose directory, command and fork succeed.\<close>

definition respawn_succeeds :: "string \<Rightarrow> crash \<Rightarrow> bool" where
  "respawn_succeeds i c \<longleftrightarrow> sc_instance_id (cr_ctx c) = i \<and> sc_spawn (cr_ctx c) = Respawn \<and>
     (\<exists>dir. io_instance_dir (cr_io c) = Inr dir) \<and> (\<exists>cmd. io_command (cr_io c) = Inr cmd) \<and>
     (\<exists>q. io_fork (cr_io c) = Inr q)"

text \<open>A slot after \<open>k\<close> restarts in a row, running since \<open>started\<close>, whose policy restarts it after \<open>cause\<close>.\<close>

definition crashing :: "exit_cause \<Rightarrow> u32 \<Rightarrow> nat \<Rightarrow> instant \<Rightarrow> tracked_instance \<Rightarrow> bool" where
  "crashing cause m k started t \<longleftrightarrow>
     attempt (inst_supervision t) = of_nat k \<and>
     restart_count (inst_supervision t) = of_nat k \<and> cap_of t = Some m \<and>
     shutdown_requests t = 0 \<and> sv_health_kill (inst_supervision t) = None \<and>
     run_started (inst_supervision t) = Some started \<and>
     (if is_clean cause then restarts_after_clean_exit (policy_of (inst_supervision t))
      else restarts_after_failure (policy_of (inst_supervision t)))"

definition crash_state :: "exit_cause \<Rightarrow> string \<Rightarrow> u32 \<Rightarrow> nat \<Rightarrow> instant \<Rightarrow> u32 option \<times> node_entity \<times> world \<Rightarrow> bool" where
  "crash_state cause i m k started x \<longleftrightarrow>
     (\<exists>p e w t. x = (Some p, e, w) \<and> ent_inv e \<and> instance_mut e i = Some t \<and> runs_unclaimed_process t p \<and>
        crashing cause m k started t)"

lemma crashing_exit:
  assumes "crashing cause m k started t" and "saturating_duration_since now started < reset_after b"
    and "k < 2 ^ 32 - 1"
  shows "exit_restarts t cause" and "attempt_after_exit b now t = of_nat (Suc k)"
proof -
  from assms(1) show "exit_restarts t cause"
    by (auto simp: crashing_def exit_restarts_def exit_cause_of_def split: if_splits)
  have ran: "exit_ran_for t now = Some (saturating_duration_since now started)"
    using assms(1) by (simp add: crashing_def exit_ran_for_def)
  have k: "unat (of_nat k :: u32) = k"
    using assms(3) by (simp add: unat_of_nat)
  have "unat (saturating_add32 1 (of_nat k)) = Suc k"
    using assms(3) by (simp add: unat_saturating_add32 k)
  moreover have "unat (of_nat (Suc k) :: u32) = Suc k"
    using assms(3) by (simp only: unat_of_nat) (simp add: mod_less)
  ultimately have "saturating_add32 1 (of_nat k) = of_nat (Suc k)"
    by (metis word_unat_eq_iff)
  with assms(1,2) ran show "attempt_after_exit b now t = of_nat (Suc k)"
    by (simp add: attempt_after_exit_def backoff_next_def crashing_def Let_def not_le)
qed

lemma record_exit_next:
  assumes "exit_restarts t cause"
  shows "(\<exists>a d n tok. er_next (fst (record_exit cause b now wall regs t)) = Some (Scheduled a d n tok)) \<longleftrightarrow>
    cap_allows (cap_of t) (attempt_after_exit b now t)"
proof -
  have "er_next (fst (record_exit cause b now wall regs t)) = Some (fst (advance_backoff
      ((inst_supervision (exited cause t))\<lparr>sv_registrations := regs\<rparr>) b (exit_ran_for t now) now wall))"
    using assms by (simp add: record_exit_restarts Let_def case_prod_beta take_next_attempt_def
        split: attempt_outcome.split)
  then show ?thesis
    by (auto simp: advance_backoff_def Let_def cap_of_def attempt_after_exit_def exited_def restart_of_def
        split: option.splits)
qed

lemma unat_of_small: "k < 2 ^ 32 \<Longrightarrow> unat (of_nat k :: u32) = k"
  by (simp add: unat_of_nat)

text \<open>The exit leaves the slot waiting exactly while the cap allows another attempt.\<close>

lemma crashing_verdict:
  assumes t: "crashing cause m k started t" "runs_unclaimed_process t p"
    and rapid: "saturating_duration_since now started < reset_after b" and k: "k \<le> unat m" "unat m < 2 ^ 32 - 1"
  shows "inst_state (snd (record_exit cause b now wall regs t)) = (if k < unat m then Restarting else Failed)"
    "(\<exists>a d n tok. er_next (fst (record_exit cause b now wall regs t)) = Some (Scheduled a d n tok)) \<longleftrightarrow> k < unat m"
proof -
  have small: "k < 2 ^ 32 - 1" using k by simp
  note ex = crashing_exit [OF t(1) rapid small]
  have "unat (of_nat (Suc k) :: u32) = Suc k" using small by (intro unat_of_small) simp
  then have cap: "cap_allows (cap_of t) (attempt_after_exit b now t) \<longleftrightarrow> k < unat m"
    using t(1) ex(2) by (simp add: crashing_def word_le_nat_alt Suc_le_eq del: of_nat_Suc)
  show "inst_state (snd (record_exit cause b now wall regs t)) = (if k < unat m then Restarting else Failed)"
    using ex(1) cap by (simp add: record_exit_state)
  show "(\<exists>a d n tok. er_next (fst (record_exit cause b now wall regs t)) = Some (Scheduled a d n tok)) \<longleftrightarrow> k < unat m"
    using record_exit_next [OF ex(1)] cap by simp
qed

lemma record_respawn_log_waiting:
  assumes "ent_inv e" "instance_mut e i = Some t" "awaits_restart t"
  obtains e1 where "record_respawn_log i path e = e1" "ent_inv e1" "instance_mut e1 i = Some (t\<lparr>run_log_path := Some path\<rparr>)"
proof -
  let ?edit = "\<lambda>t. ((), t\<lparr>run_log_path := Some path\<rparr>)"
  have "instance_id (snd (?edit t)) = i" using instance_mut_id [OF assms(2)] by simp
  from edit_if_self [OF assms(2), where guard = awaits_restart and edit = ?edit, OF assms(3) this]
  obtain e1 where e1: "edit_if awaits_restart ?edit i e = (Some (), e1)"
    "instance_mut e1 i = Some (t\<lparr>run_log_path := Some path\<rparr>)"
    unfolding fst_conv snd_conv by blast
  have "record_respawn_log i path e = e1"
    by (simp only: record_respawn_log_def edit_awaiting_restart_def e1(1) snd_conv)
  moreover have "ent_inv e1"
    using log_edit.edit_keeps [OF assms(1), of path i] by (simp add: e1(1) keeps_def)
  ultimately show thesis using e1(2) that by blast
qed

lemma crashing_restarted:
  assumes t: "crashing cause m k started t" and rapid: "saturating_duration_since now started < reset_after b"
    and k: "k < unat m"
  shows "crashing cause m (Suc k) run (record_running run run_wall (set_endpoints eps (set_running dir
    (set_starting_process q files (fst (begin_respawn
       ((snd (record_exit cause b now wall regs t))\<lparr>run_log_path := Some path\<rparr>) w))))))"
proof -
  have small: "k < 2 ^ 32 - 1" using k unat_lt_2p32 [of m] by simp
  note ex = crashing_exit [OF t rapid small]
  have nat: "unat (of_nat k :: u32) = k" "unat (of_nat (Suc k) :: u32) = Suc k"
    using small by (intro unat_of_small; simp)+
  have "saturating_add32 (of_nat k) 1 = (of_nat (Suc k) :: u32)"
    using small nat by (simp only: word_unat_eq_iff unat_saturating_add32) simp
  moreover have "of_nat (Suc k) \<noteq> (0 :: u32)" using nat(2) by (metis unat_0 nat.distinct(1))
  ultimately show ?thesis
    using t ex record_exit_attempt [of cause b now wall regs t] record_exit_records(5,8-10) [of cause b now wall regs t]
    by (auto simp: crashing_def begin_respawn_def record_running_def set_endpoints_def set_running_def
        set_starting_process_def cap_of_def restart_of_def policy_of_def Let_def case_prod_beta word_neq_0_conv
        simp del: of_nat_Suc split: if_splits)
qed

text \<open>While the cap allows it, a crash ends with the next process running and one more restart counted.\<close>

lemma crash_restarts:
  assumes x: "crash_state cause i m k started (Some p, e, w)"
    and rapid: "saturating_duration_since (cr_exit c) started < reset_after b"
    and k: "k < unat m" "unat m < 2 ^ 32 - 1" and c: "respawn_succeeds i c"
  shows "crash_state cause i m (Suc k) (cr_run c) (crash_and_restart b cause i c p e w)"
proof -
  obtain t where t: "ent_inv e" "instance_mut e i = Some t" "runs_unclaimed_process t p" "crashing cause m k started t"
    using x by (auto simp: crash_state_def)
  let ?x = "snd (record_exit cause b (cr_exit c) (cr_exit_wall c) (cr_registrations c) t)"
  note verdict = crashing_verdict [OF t(4,3) rapid _ k(2)]
  obtain e1 where e1: "mark_instance_exited i p cause b (cr_exit c) (cr_exit_wall c) (cr_registrations c) e =
      (Some (fst (record_exit cause b (cr_exit c) (cr_exit_wall c) (cr_registrations c) t)), e1)"
    "instance_mut e1 i = Some ?x" "ent_inv e1"
    by (rule exit_recorded [OF t(1-3)])
  have wait: "awaits_restart ?x"
    using verdict(1) k(1) t(3) by (simp add: awaits_restart_def record_exit_keeps runs_unclaimed_process_def)
  have small: "k < 2 ^ 32 - 1" using k by simp
  have inputs: "respawn_inputs_of i e1 \<noteq> None"
    using exit_restarts_first_start [OF crashing_exit(1) [OF t(4) rapid small]] wait instance_of_mut [OF e1(2)]
    by (auto simp: record_exit_records respawn_inputs_of_def awaiting_restart_slot_def Let_def)
  obtain a d n tok where sched: "er_next (fst (record_exit cause b (cr_exit c) (cr_exit_wall c) (cr_registrations c) t)) =
      Some (Scheduled a d n tok)"
    using verdict(2) k(1) by fastforce
  obtain e2 where e2: "record_respawn_log i (cr_log c) e1 = e2" "ent_inv e2"
    "instance_mut e2 i = Some (?x\<lparr>run_log_path := Some (cr_log c)\<rparr>)"
    by (rule record_respawn_log_waiting [OF e1(3,2) wait])
  let ?y = "?x\<lparr>run_log_path := Some (cr_log c)\<rparr>"
  have wait2: "awaits_restart ?y" using wait by (simp add: awaits_restart_def)
  obtain dir cmd q where c': "sc_instance_id (cr_ctx c) = i" "sc_spawn (cr_ctx c) = Respawn"
    "io_instance_dir (cr_io c) = Inr dir" "io_command (cr_io c) = Inr cmd" "io_fork (cr_io c) = Inr q"
    using c by (auto simp: respawn_succeeds_def)
  obtain sctx files e3 w3 where spawn:
    "prepare_and_spawn (\<lambda>_ x. x) (cr_ctx c) (cr_io c) e2 w = (Inr sctx, e3, w3)"
    "instance_mut e3 i = Some (set_starting_process q files (fst (begin_respawn ?y w)))"
    "st_generation sctx = generation e3" "pg_pid (st_group sctx) = q" "ent_inv e3"
    by (rule prepare_respawn_succeeds [of e2 "cr_ctx c" ?y "cr_io c" dir cmd q w, unfolded c'(1), OF e2(2,3) wait2 c'(2-5)])
  let ?s = "set_starting_process q files (fst (begin_respawn ?y w))"
  let ?r = "record_running (cr_run c) (cr_run_wall c) (set_endpoints (cr_endpoints c)
    (set_running (st_instance_dir sctx) ?s))"
  have "inst_state ?s = Starting"
    by (simp add: set_starting_process_def begin_respawn_def Let_def case_prod_beta)
  from commit_starting [OF spawn(2) this spawn(3)]
  obtain e4 where commit: "commit_started sctx i (cr_endpoints c) (cr_run c) (cr_run_wall c) e3 w3 = (Inr (), e4, w3)"
    "instance_mut e4 i = Some ?r" by blast
  have "ent_inv e4"
    using commit_starting_instance_keeps [OF spawn(5), of "st_generation sctx" i "st_instance_dir sctx" "cr_endpoints c"
        "cr_run c" "cr_run_wall c"] commit(1)
    by (auto simp: commit_started_def keeps_def split: prod.splits sum.splits)
  moreover have "runs_unclaimed_process ?r q"
    using wait by (simp add: record_running_def set_endpoints_def set_running_def set_starting_process_def
        begin_respawn_def runs_unclaimed_process_def runs_process_def awaits_restart_def Let_def case_prod_beta)
  moreover have "crash_and_restart b cause i c p e w = (Some q, e4, w3)"
    using inputs by (auto simp: crash_and_restart_def e1(1) sched e2(1) spawn(1,4) commit(1))
  ultimately show ?thesis
    using commit(2) crashing_restarted [OF t(4) rapid k(1)] by (auto simp: crash_state_def)
qed

text \<open>Past the cap it ends in \<open>failed\<close>, and nothing is started.\<close>

lemma crash_ends:
  assumes x: "crash_state cause i m (unat m) started (Some p, e, w)"
    and rapid: "saturating_duration_since (cr_exit c) started < reset_after b" and m: "unat m < 2 ^ 32 - 1"
  shows "\<exists>e' t'. crash_and_restart b cause i c p e w = (None, e', w) \<and> instance_mut e' i = Some t' \<and>
    inst_state t' = Failed \<and> pid t' = None \<and> restart_count (inst_supervision t') = m \<and>
    last_exit (inst_supervision t') = Some cause"
proof -
  obtain t where t: "ent_inv e" "instance_mut e i = Some t" "runs_unclaimed_process t p"
    "crashing cause m (unat m) started t"
    using x by (auto simp: crash_state_def)
  let ?x = "snd (record_exit cause b (cr_exit c) (cr_exit_wall c) (cr_registrations c) t)"
  obtain e1 where e1: "mark_instance_exited i p cause b (cr_exit c) (cr_exit_wall c) (cr_registrations c) e =
      (Some (fst (record_exit cause b (cr_exit c) (cr_exit_wall c) (cr_registrations c) t)), e1)"
    "instance_mut e1 i = Some ?x" "ent_inv e1"
    by (rule exit_recorded [OF t(1-3)])
  have "crash_and_restart b cause i c p e w = (None, e1, w)"
    using crashing_verdict(2) [OF t(4,3) rapid order_refl m, of "cr_exit_wall c" "cr_registrations c"]
    by (auto simp: crash_and_restart_def e1(1) split: option.split attempt_outcome.split)
  moreover have "inst_state ?x = Failed" using crashing_verdict(1) [OF t(4,3) rapid order_refl m] by simp
  moreover have "exit_cause_of t cause = cause" "restart_count (inst_supervision t) = m"
    using t(4) by (simp_all add: crashing_def exit_cause_of_def)
  ultimately show ?thesis using e1(2) by (auto simp: record_exit_records record_exit_keeps)
qed

fun last_started :: "instant \<Rightarrow> crash list \<Rightarrow> instant" where
  "last_started started [] = started"
| "last_started started (c # cs) = last_started (cr_run c) cs"

lemma rapid_append:
  "rapid b started (xs @ ys) \<longleftrightarrow> rapid b started xs \<and> rapid b (last_started started xs) ys"
  by (induction b started xs rule: rapid.induct) simp_all

lemma crash_loop_append: "crash_loop b cause i (xs @ ys) x = crash_loop b cause i ys (crash_loop b cause i xs x)"
proof (induction b cause i xs x rule: crash_loop.induct)
  case (2 b cause i c cs e w)
  show ?case by (cases ys) simp_all
qed simp_all

lemma crash_loop_restarts:
  assumes "crash_state cause i m k started x" "rapid b started cs" "list_all (respawn_succeeds i) cs"
    "k + length cs \<le> unat m" "unat m < 2 ^ 32 - 1"
  shows "crash_state cause i m (k + length cs) (last_started started cs) (crash_loop b cause i cs x)"
  using assms
proof (induction cs arbitrary: k started x)
  case (Cons c cs)
  obtain p e w where x: "x = (Some p, e, w)" using Cons.prems(1) by (auto simp: crash_state_def)
  have "crash_state cause i m (Suc k) (cr_run c) (crash_and_restart b cause i c p e w)"
    using Cons.prems crash_restarts [of cause i m k started p e w c b] by (simp add: x)
  from Cons.IH [OF this] Cons.prems show ?case by (simp add: x)
qed simp

text \<open>
  C4: an instance whose declaration caps its restarts at \<open>m\<close> and whose processes keep exiting before they
  have run for \<open>reset_after\<close> is restarted exactly \<open>m\<close> times. When its respawns succeed and no other task
  is at work, after each of the first \<open>m\<close> exits the entity runs the next process with the restart
  counted. Exit \<open>m + 1\<close> starts nothing and leaves the instance failed, with \<open>m\<close> restarts counted and the
  exit recorded.
\<close>

theorem crash_loop_is_capped:
  assumes "ent_inv e" "instance_mut e i = Some t" "runs_unclaimed_process t p" "crashing cause m 0 started t"
    "rapid b started cs" "list_all (respawn_succeeds i) cs" "length cs = Suc (unat m)" "unat m < 2 ^ 32 - 1"
  shows "(\<forall>k \<le> unat m. \<exists>pk ek wk tk. crash_loop b cause i (take k cs) (Some p, e, w) = (Some pk, ek, wk) \<and>
      instance_mut ek i = Some tk \<and> runs_unclaimed_process tk pk \<and> unat (restart_count (inst_supervision tk)) = k) \<and>
    (\<exists>pm em wm e' t'. crash_loop b cause i (take (unat m) cs) (Some p, e, w) = (Some pm, em, wm) \<and>
      crash_loop b cause i cs (Some p, e, w) = (None, e', wm) \<and> instance_mut e' i = Some t' \<and>
      inst_state t' = Failed \<and> pid t' = None \<and> restart_count (inst_supervision t') = m \<and>
      last_exit (inst_supervision t') = Some cause)"
proof -
  have start: "crash_state cause i m 0 started (Some p, e, w)" using assms(1-4) by (auto simp: crash_state_def)
  have runs: "crash_state cause i m k (last_started started (take k cs))
      (crash_loop b cause i (take k cs) (Some p, e, w))" if "k \<le> unat m" for k
  proof -
    have "rapid b started (take k cs)" using assms(5) rapid_append [of b started "take k cs" "drop k cs"] by simp
    moreover have "list_all (respawn_succeeds i) (take k cs)"
      using assms(6) by (auto simp: list_all_iff dest: in_set_takeD)
    ultimately show ?thesis
      using crash_loop_restarts [OF start _ _ _ assms(8), of b "take k cs"] that assms(7) by simp
  qed
  have "\<exists>pk ek wk tk. crash_loop b cause i (take k cs) (Some p, e, w) = (Some pk, ek, wk) \<and>
      instance_mut ek i = Some tk \<and> runs_unclaimed_process tk pk \<and> unat (restart_count (inst_supervision tk)) = k"
    if "k \<le> unat m" for k
  proof -
    have "unat (of_nat k :: u32) = k" using that assms(8) by (intro unat_of_small) simp
    then show ?thesis using runs [OF that] by (auto simp: crash_state_def crashing_def)
  qed
  moreover have "\<exists>pm em wm e' t'. crash_loop b cause i (take (unat m) cs) (Some p, e, w) = (Some pm, em, wm) \<and>
      crash_loop b cause i cs (Some p, e, w) = (None, e', wm) \<and> instance_mut e' i = Some t' \<and>
      inst_state t' = Failed \<and> pid t' = None \<and> restart_count (inst_supervision t') = m \<and>
      last_exit (inst_supervision t') = Some cause"
  proof -
    have cs: "cs = take (unat m) cs @ [cs ! unat m]"
      using assms(7) take_Suc_conv_app_nth [of "unat m" cs] by simp
    then have rapid: "saturating_duration_since (cr_exit (cs ! unat m)) (last_started started (take (unat m) cs)) < reset_after b"
      using assms(5) rapid_append [of b started "take (unat m) cs" "[cs ! unat m]"] by simp
    obtain pm em wm where pm: "crash_loop b cause i (take (unat m) cs) (Some p, e, w) = (Some pm, em, wm)"
      using runs [OF order_refl] by (auto simp: crash_state_def)
    from crash_ends [OF runs [OF order_refl, unfolded pm] rapid assms(8)]
    obtain e' t' where "crash_and_restart b cause i (cs ! unat m) pm em wm = (None, e', wm)" "instance_mut e' i = Some t'"
      "inst_state t' = Failed" "pid t' = None" "restart_count (inst_supervision t') = m"
      "last_exit (inst_supervision t') = Some cause" by blast
    moreover have "crash_loop b cause i cs (Some p, e, w) = crash_and_restart b cause i (cs ! unat m) pm em wm"
      by (subst cs) (simp add: crash_loop_append pm)
    ultimately show ?thesis using pm by auto
  qed
  ultimately show ?thesis by blast
qed

section \<open>A camera that crashes three times\<close>

definition sample_crash :: "instant \<Rightarrow> u32 \<Rightarrow> instant \<Rightarrow> crash" where
  "sample_crash exit p run =
     \<lparr>cr_exit = exit, cr_exit_wall = int exit, cr_registrations = registrations_default, cr_log = ''run.log'',
      cr_ctx = sample_respawn, cr_io = sample_io (Inr p), cr_endpoints = [], cr_run = run, cr_run_wall = int run\<rparr>"

definition sample_crashes :: "crash list" where
  "sample_crashes = [sample_crash 9 4712 20, sample_crash 25 4713 30, sample_crash 33 4714 40]"

theorem crash_loop_is_capped_witness:
  "\<exists>e' t' w'. crash_loop sample_backoff (Code 1) ''cam'' sample_crashes (Some 4711, sample_running, sample_world) =
     (None, e', w') \<and> instance_mut e' ''cam'' = Some t' \<and> inst_state t' = Failed \<and>
     restart_count (inst_supervision t') = 2"
proof -
  note facts = sample_running_slot_facts
  have crashing: "crashing (Code 1) 2 0 5 sample_running_slot"
    by (simp add: crashing_def facts cap_of_def restart_of_def policy_of_def sample_first_start_def)
  have rapid: "rapid sample_backoff 5 sample_crashes"
    by (simp add: sample_crashes_def sample_crash_def sample_backoff_def saturating_duration_since_def)
  have respawns: "list_all (respawn_succeeds ''cam'') sample_crashes"
    by (simp add: sample_crashes_def sample_crash_def respawn_succeeds_def sample_respawn_def sample_ctx_def sample_io_def)
  have len: "length sample_crashes = Suc (unat (2 :: u32))" "unat (2 :: u32) < 2 ^ 32 - 1"
    by (simp_all add: sample_crashes_def)
  show ?thesis
    using crash_loop_is_capped [OF sample_running_inv sample_running_slot_found facts(2) crashing rapid respawns len,
        of sample_world] by blast
qed

end
