(* ===== verification/Service_Action_Cycle.thy ===== *)
theory Service_Action_Cycle
  imports Node_Config "HOL-Library.List_Lexorder" "HOL-Library.Char_ord" "HOL-Library.Product_Lexorder"
begin

text \<open>
  Detection of caller-driven dependency cycles
  (\<open>node-stack-internal/src/service_action_cycle.rs\<close>). The strongly connected components come from
  the \<open>petgraph\<close> crate: \<open>tarjan_scc\<close> is an argument here, and \<open>computes_scc\<close> states what its
  documentation promises. Labels are ordered as Rust orders strings, byte by byte.
\<close>

section \<open>Definitions\<close>

record cycle_check_node =
  ccn_name :: string
  ccn_tag :: string
  ccn_config :: node_config

record service_action_cycle =
  sac_nodes :: "string list"
  sac_closing_dependency :: string
  sac_kind :: interface_kind

record caller_edge =
  e_from :: nat
  e_to :: nat
  e_kind :: interface_kind
  e_label :: string

definition caller_driven_link_ids :: "interfaces \<Rightarrow> string \<rightharpoonup> interface_kind" where
  "caller_driven_link_ids i =
     (let services = fold (\<lambda>c m. m(ce_link_id c \<mapsto> KService))
                       (or_default (Option.bind (services i) consumes)) Map.empty
      in fold (\<lambda>c m. case m (ce_link_id c) of
                        None \<Rightarrow> m(ce_link_id c \<mapsto> KAction) | Some _ \<Rightarrow> m)
           (or_default (Option.bind (actions i) consumes)) services)"

definition identity_to_index :: "cycle_check_node list \<Rightarrow> string \<times> string \<rightharpoonup> nat" where
  "identity_to_index nodes =
     fold (\<lambda>(idx, node) m. m((ccn_name node, ccn_tag node) \<mapsto> idx)) (enumerate 0 nodes) Map.empty"

definition edge_label :: "string \<Rightarrow> string \<Rightarrow> string" where
  "edge_label n t = n @ '':'' @ t"

definition contract_edges ::
    "cycle_check_node list \<Rightarrow> (string \<rightharpoonup> interface_kind) \<Rightarrow> nat \<Rightarrow> contract_dependency \<Rightarrow>
     caller_edge list" where
  "contract_edges nodes driven caller dep =
     (case driven (cdep_link_id dep) of
        None \<Rightarrow> []
      | Some k \<Rightarrow>
          map (\<lambda>(idx, _). \<lparr>e_from = caller, e_to = idx, e_kind = k,
                          e_label = edge_label (cdep_name dep) (cdep_tag dep)\<rparr>)
            (filter (\<lambda>(_, provider). node_implements (ccn_config provider) (cdep_name dep) (cdep_tag dep))
              (enumerate 0 nodes)))"

definition node_edges ::
    "(string \<times> string \<rightharpoonup> nat) \<Rightarrow> (string \<rightharpoonup> interface_kind) \<Rightarrow> nat \<Rightarrow> node_dependency \<Rightarrow>
     caller_edge list" where
  "node_edges index driven caller dep =
     (case driven (nd_link_id dep) of
        None \<Rightarrow> []
      | Some k \<Rightarrow>
          (case index (nd_name dep, nd_tag dep) of
             None \<Rightarrow> []
           | Some idx \<Rightarrow> [\<lparr>e_from = caller, e_to = idx, e_kind = k,
                          e_label = edge_label (nd_name dep) (nd_tag dep)\<rparr>]))"

definition build_caller_driven_edges ::
    "cycle_check_node list \<Rightarrow> (string \<times> string \<rightharpoonup> nat) \<Rightarrow> caller_edge list" where
  "build_caller_driven_edges nodes index =
     concat (map (\<lambda>(idx, caller).
       let driven = caller_driven_link_ids (nc_interfaces (ccn_config caller))
       in case m_depends_on (nc_manifest (ccn_config caller)) of
            None \<Rightarrow> []
          | Some d \<Rightarrow>
              concat (map (contract_edges nodes driven idx) (dep_contracts d)) @
              concat (map (node_edges index driven idx) (dep_nodes d)))
       (enumerate 0 nodes))"

definition label_of :: "cycle_check_node list \<Rightarrow> nat \<Rightarrow> string" where
  "label_of nodes idx = edge_label (ccn_name (nodes ! idx)) (ccn_tag (nodes ! idx))"

text \<open>\<open>Iterator::min_by_key\<close>: the first of the elements with the least key.\<close>

fun min_by_key :: "('a \<Rightarrow> 'k::linorder) \<Rightarrow> 'a list \<Rightarrow> 'a option" where
  "min_by_key f [] = None"
| "min_by_key f (x # xs) =
     (case min_by_key f xs of None \<Rightarrow> Some x | Some y \<Rightarrow> if f y < f x then Some y else Some x)"

definition cycle_from_component ::
    "nat list \<Rightarrow> caller_edge list \<Rightarrow> cycle_check_node list \<Rightarrow> service_action_cycle option" where
  "cycle_from_component members edges nodes =
     (if length members = 1 \<and>
         \<not> list_ex (\<lambda>e. e_from e = members ! 0 \<and> e_to e = members ! 0) edges
      then None
      else case min_by_key (\<lambda>e. (label_of nodes (e_from e), label_of nodes (e_to e)))
                  (filter (\<lambda>e. e_from e \<in> set members \<and> e_to e \<in> set members) edges) of
             None \<Rightarrow> None
           | Some closing \<Rightarrow>
               Some \<lparr>sac_nodes = sort (map (label_of nodes) members),
                     sac_closing_dependency = e_label closing, sac_kind = e_kind closing\<rparr>)"

fun find_map :: "('a \<Rightarrow> 'b option) \<Rightarrow> 'a list \<Rightarrow> 'b option" where
  "find_map f [] = None"
| "find_map f (x # xs) = (case f x of None \<Rightarrow> find_map f xs | Some y \<Rightarrow> Some y)"

definition find_service_action_cycle ::
    "(nat \<Rightarrow> (nat \<times> nat) list \<Rightarrow> nat list list) \<Rightarrow> cycle_check_node list \<Rightarrow>
     service_action_cycle option" where
  "find_service_action_cycle tarjan_scc nodes =
     (let edges = build_caller_driven_edges nodes (identity_to_index nodes)
      in find_map (\<lambda>members. cycle_from_component members edges nodes)
           (tarjan_scc (length nodes) (map (\<lambda>e. (e_from e, e_to e)) edges)))"

text \<open>What \<open>petgraph::algo::tarjan_scc\<close> documents of a graph with nodes \<open>0..<n\<close>.\<close>

definition computes_scc :: "(nat \<Rightarrow> (nat \<times> nat) list \<Rightarrow> nat list list) \<Rightarrow> bool" where
  "computes_scc scc \<longleftrightarrow>
     (\<forall>n es. set es \<subseteq> {..<n} \<times> {..<n} \<longrightarrow>
        (\<forall>c\<in>set (scc n es). c \<noteq> [] \<and> distinct c \<and> set c \<subseteq> {..<n}) \<and>
        (\<forall>a<n. \<forall>b<n. (\<exists>c\<in>set (scc n es). a \<in> set c \<and> b \<in> set c) \<longleftrightarrow>
           (a, b) \<in> (set es)\<^sup>* \<and> (b, a) \<in> (set es)\<^sup>*))"

section \<open>The caller-driven relation\<close>

text \<open>
  Node \<open>i\<close> calls node \<open>j\<close>: it consumes a link as a service or an action, and the \<open>depends_on\<close> entry
  of that link is a contract that \<open>j\<close> implements, or names \<open>j\<close> itself.
\<close>

definition consumes_call :: "interfaces \<Rightarrow> string \<Rightarrow> bool" where
  "consumes_call i link \<longleftrightarrow>
     (\<exists>k. k \<noteq> KTopic \<and> link \<in> fst ` set (consumed i k))"

definition calls :: "cycle_check_node list \<Rightarrow> (nat \<times> nat) set" where
  "calls nodes =
     {(i, j). i < length nodes \<and> j < length nodes \<and>
        (\<exists>d. m_depends_on (nc_manifest (ccn_config (nodes ! i))) = Some d \<and>
          ((\<exists>dep\<in>set (dep_contracts d).
              consumes_call (nc_interfaces (ccn_config (nodes ! i))) (cdep_link_id dep) \<and>
              node_implements (ccn_config (nodes ! j)) (cdep_name dep) (cdep_tag dep)) \<or>
           (\<exists>dep\<in>set (dep_nodes d).
              consumes_call (nc_interfaces (ccn_config (nodes ! i))) (nd_link_id dep) \<and>
              ccn_name (nodes ! j) = nd_name dep \<and> ccn_tag (nodes ! j) = nd_tag dep)))}"

definition identities :: "cycle_check_node list \<Rightarrow> (string \<times> string) list" where
  "identities nodes = map (\<lambda>n. (ccn_name n, ccn_tag n)) nodes"

lemma fold_upd_dom:
  "dom (fold (\<lambda>c m. m(f c \<mapsto> v)) xs m) = dom m \<union> f ` set xs"
  by (induction xs arbitrary: m) auto

lemma fold_or_insert_dom:
  "dom (fold (\<lambda>c m. case m (f c) of None \<Rightarrow> m(f c \<mapsto> v) | Some _ \<Rightarrow> m) xs m) = dom m \<union> f ` set xs"
proof (induction xs arbitrary: m)
  case (Cons x xs)
  then show ?case by (cases "m (f x)") auto
qed simp

lemma consumed_links: "fst ` set (consumed i k) =
    ce_link_id ` set (or_default (Option.bind (section_of i k) consumes))"
  by (simp add: consumed_def image_comp)

lemma dom_caller_driven:
  "dom (caller_driven_link_ids i) = fst ` set (consumed i KService) \<union> fst ` set (consumed i KAction)"
  by (simp add: caller_driven_link_ids_def Let_def fold_upd_dom fold_or_insert_dom consumed_links
      section_of_def)

lemma calling_kinds: "(\<exists>k. k \<noteq> KTopic \<and> P k) \<longleftrightarrow> P KService \<or> P KAction"
  by (metis interface_kind.exhaust interface_kind.distinct(1,3))

lemma caller_driven_iff: "caller_driven_link_ids i link \<noteq> None \<longleftrightarrow> consumes_call i link"
proof -
  have "consumes_call i link \<longleftrightarrow> link \<in> dom (caller_driven_link_ids i)"
    by (simp add: consumes_call_def calling_kinds dom_caller_driven)
  then show ?thesis by auto
qed

lemma fold_insert_map_of:
  "fold (\<lambda>(v, x) m. m(f x \<mapsto> v)) xs m = m ++ map_of (rev (map (\<lambda>(v, x). (f x, v)) xs))"
  by (induction xs arbitrary: m) (auto simp: map_add_def fun_eq_iff split: option.splits)

lemma identity_to_index_Some:
  assumes "distinct (identities nodes)"
  shows "identity_to_index nodes key = Some j \<longleftrightarrow>
     j < length nodes \<and> key = (ccn_name (nodes ! j), ccn_tag (nodes ! j))"
proof -
  let ?kv = "map (\<lambda>(idx, n). ((ccn_name n, ccn_tag n), idx)) (enumerate 0 nodes)"
  have keys: "map fst ?kv = identities nodes"
    by (rule nth_equalityI) (simp_all add: identities_def nth_enumerate_eq)
  have "identity_to_index nodes = map_of (rev ?kv)"
    by (simp add: identity_to_index_def fold_insert_map_of)
  moreover have "map fst (rev ?kv) = rev (identities nodes)"
    by (simp only: rev_map [symmetric] keys)
  then have "distinct (map fst (rev ?kv))"
    using assms by (simp only: distinct_rev)
  ultimately have "identity_to_index nodes key = Some j \<longleftrightarrow> (key, j) \<in> set ?kv"
    by (simp only: map_of_eq_Some_iff set_rev)
  also have "\<dots> \<longleftrightarrow> (\<exists>n. (j, n) \<in> set (enumerate 0 nodes) \<and> key = (ccn_name n, ccn_tag n))"
    by force
  also have "\<dots> \<longleftrightarrow> j < length nodes \<and> key = (ccn_name (nodes ! j), ccn_tag (nodes ! j))"
    unfolding in_set_enumerate_eq by simp
  finally show ?thesis .
qed

lemma contract_edges_iff:
  "(\<exists>e\<in>set (contract_edges nodes driven i dep). e_from e = a \<and> e_to e = j) \<longleftrightarrow>
     a = i \<and> driven (cdep_link_id dep) \<noteq> None \<and> j < length nodes \<and>
     node_implements (ccn_config (nodes ! j)) (cdep_name dep) (cdep_tag dep)"
proof (cases "driven (cdep_link_id dep)")
  case (Some k)
  have "(\<exists>e\<in>set (contract_edges nodes driven i dep). e_from e = a \<and> e_to e = j) \<longleftrightarrow>
      (\<exists>n. a = i \<and> (j, n) \<in> set (enumerate 0 nodes) \<and>
        node_implements (ccn_config n) (cdep_name dep) (cdep_tag dep))"
    by (auto simp: contract_edges_def Some)
  then show ?thesis unfolding in_set_enumerate_eq by (auto simp: Some)
qed (simp add: contract_edges_def)

lemma node_edges_iff:
  assumes "distinct (identities nodes)"
  shows "(\<exists>e\<in>set (node_edges (identity_to_index nodes) driven i dep). e_from e = a \<and> e_to e = j) \<longleftrightarrow>
     a = i \<and> driven (nd_link_id dep) \<noteq> None \<and> j < length nodes \<and>
     ccn_name (nodes ! j) = nd_name dep \<and> ccn_tag (nodes ! j) = nd_tag dep"
proof (cases "driven (nd_link_id dep)")
  case (Some k)
  have "(\<exists>e\<in>set (node_edges (identity_to_index nodes) driven i dep). e_from e = a \<and> e_to e = j) \<longleftrightarrow>
      a = i \<and> identity_to_index nodes (nd_name dep, nd_tag dep) = Some j"
    by (auto simp: node_edges_def Some split: option.splits)
  then show ?thesis
    unfolding identity_to_index_Some [OF assms] by (auto simp: Some)
qed (simp add: node_edges_def)

definition edge_pairs :: "cycle_check_node list \<Rightarrow> (nat \<times> nat) list" where
  "edge_pairs nodes =
     map (\<lambda>e. (e_from e, e_to e)) (build_caller_driven_edges nodes (identity_to_index nodes))"

lemma edge_pairs_calls:
  assumes "distinct (identities nodes)"
  shows "set (edge_pairs nodes) = calls nodes"
proof -
  have "(a, j) \<in> set (edge_pairs nodes) \<longleftrightarrow> (a, j) \<in> calls nodes" for a j
  proof -
    let ?E = "\<lambda>es. \<exists>e\<in>set es. e_from e = a \<and> e_to e = j"
    have concat: "?E (concat (map f xs)) \<longleftrightarrow> (\<exists>x\<in>set xs. ?E (f x))" for f :: "'b \<Rightarrow> caller_edge list" and xs
      by auto
    have app: "?E (xs @ ys) \<longleftrightarrow> ?E xs \<or> ?E ys" for xs ys by auto
    have "(a, j) \<in> set (edge_pairs nodes) \<longleftrightarrow>
        ?E (build_caller_driven_edges nodes (identity_to_index nodes))"
      by (auto simp: edge_pairs_def)
    also have "\<dots> \<longleftrightarrow> (\<exists>i caller d. (i, caller) \<in> set (enumerate 0 nodes) \<and>
        m_depends_on (nc_manifest (ccn_config caller)) = Some d \<and>
        ((\<exists>dep\<in>set (dep_contracts d). ?E (contract_edges nodes
             (caller_driven_link_ids (nc_interfaces (ccn_config caller))) i dep)) \<or>
         (\<exists>dep\<in>set (dep_nodes d). ?E (node_edges (identity_to_index nodes)
             (caller_driven_link_ids (nc_interfaces (ccn_config caller))) i dep))))"
      unfolding build_caller_driven_edges_def concat app Let_def
      by (force split: option.splits)
    also have "\<dots> \<longleftrightarrow> (a, j) \<in> calls nodes"
      unfolding contract_edges_iff node_edges_iff [OF assms] in_set_enumerate_eq calls_def
        caller_driven_iff
      by simp blast
    finally show ?thesis .
  qed
  then show ?thesis by auto
qed

section \<open>The check is exact\<close>

lemma find_map_None: "find_map f xs = None \<longleftrightarrow> (\<forall>x\<in>set xs. f x = None)"
  by (induction xs) (auto split: option.split)

lemma find_map_Some: "find_map f xs = Some y \<Longrightarrow> \<exists>x\<in>set xs. f x = Some y"
  by (induction xs) (auto split: option.split_asm)

lemma min_by_key_None: "min_by_key f xs = None \<longleftrightarrow> xs = []"
  by (cases xs) (auto split: option.split)

lemma min_by_key_in: "min_by_key f xs = Some x \<Longrightarrow> x \<in> set xs"
  by (induction xs) (auto split: option.split_asm if_split_asm)

lemma min_by_key_least: "min_by_key f xs = Some x \<Longrightarrow> y \<in> set xs \<Longrightarrow> f x \<le> f y"
proof (induction xs arbitrary: x y)
  case (Cons z zs)
  then show ?case
    by (cases "min_by_key f zs") (fastforce simp: min_by_key_None split: if_split_asm)+
qed simp

definition internal_edges :: "nat list \<Rightarrow> caller_edge list \<Rightarrow> caller_edge list" where
  "internal_edges members edges = filter (\<lambda>e. e_from e \<in> set members \<and> e_to e \<in> set members) edges"

lemma cycle_from_component_None:
  "cycle_from_component members edges nodes = None \<longleftrightarrow> internal_edges members edges = []"
proof (cases "length members = 1")
  case True
  then obtain x where "members = [x]" by (auto simp: length_Suc_conv)
  then show ?thesis
    by (auto simp: cycle_from_component_def internal_edges_def list_ex_iff min_by_key_None
        filter_empty_conv split: option.split)
next
  case False
  then show ?thesis
    by (simp add: cycle_from_component_def internal_edges_def min_by_key_None split: option.split)
       (metis min_by_key_None not_Some_eq)
qed

lemma acyclic_iff_components:
  assumes "computes_scc scc" and "set es \<subseteq> {..<n} \<times> {..<n}"
  shows "acyclic (set es) \<longleftrightarrow>
     (\<forall>c\<in>set (scc n es). \<forall>(a, b)\<in>set es. \<not> (a \<in> set c \<and> b \<in> set c))"
proof
  assume acyc: "acyclic (set es)"
  { fix c a b assume "c \<in> set (scc n es)" "(a, b) \<in> set es" "a \<in> set c" "b \<in> set c"
    with assms have "(b, a) \<in> (set es)\<^sup>*" unfolding computes_scc_def by blast
    with \<open>(a, b) \<in> set es\<close> have "(a, a) \<in> (set es)\<^sup>+" by (rule rtrancl_into_trancl2)
    with acyc have False by (simp add: acyclic_def) }
  then show "\<forall>c\<in>set (scc n es). \<forall>(a, b)\<in>set es. \<not> (a \<in> set c \<and> b \<in> set c)" by blast
next
  assume none: "\<forall>c\<in>set (scc n es). \<forall>(a, b)\<in>set es. \<not> (a \<in> set c \<and> b \<in> set c)"
  { fix x assume "(x, x) \<in> (set es)\<^sup>+"
    then obtain y where "(x, y) \<in> set es" "(y, x) \<in> (set es)\<^sup>*" by (metis tranclD)
    moreover from this assms(2) have "x < n" "y < n" by auto
    ultimately have "\<exists>c\<in>set (scc n es). x \<in> set c \<and> y \<in> set c"
      using assms unfolding computes_scc_def by blast
    with none \<open>(x, y) \<in> set es\<close> have False by blast }
  then show "acyclic (set es)" by (auto simp: acyclic_def)
qed

lemma calls_bounded: "calls nodes \<subseteq> {..<length nodes} \<times> {..<length nodes}"
  by (auto simp: calls_def)

lemma internal_edges_pairs:
  "internal_edges c (build_caller_driven_edges nodes (identity_to_index nodes)) = [] \<longleftrightarrow>
     (\<forall>(a, b)\<in>set (edge_pairs nodes). \<not> (a \<in> set c \<and> b \<in> set c))"
  by (auto simp: internal_edges_def edge_pairs_def filter_empty_conv)

lemma find_cycle_alt:
  "find_service_action_cycle scc nodes =
     find_map (\<lambda>c. cycle_from_component c
         (build_caller_driven_edges nodes (identity_to_index nodes)) nodes)
       (scc (length nodes) (edge_pairs nodes))"
  by (simp add: find_service_action_cycle_def edge_pairs_def Let_def)

lemma find_cycle_None_iff:
  assumes "computes_scc scc" and "distinct (identities nodes)"
  shows "find_service_action_cycle scc nodes = None \<longleftrightarrow> acyclic (calls nodes)"
proof -
  from assms(2) have pairs: "set (edge_pairs nodes) = calls nodes" by (rule edge_pairs_calls)
  with calls_bounded have "set (edge_pairs nodes) \<subseteq> {..<length nodes} \<times> {..<length nodes}" by simp
  from acyclic_iff_components [OF assms(1) this] pairs show ?thesis
    by (simp add: find_cycle_alt find_map_None cycle_from_component_None internal_edges_pairs)
qed

text \<open>
  C10: over nodes with distinct identities the check finds no cycle exactly when the caller-driven
  relation (consumes a service or an action of a contract the other node implements, or of the
  other node by name) is acyclic. Topic dependencies play no part.
\<close>

theorem find_service_action_cycle_exact:
  assumes "computes_scc scc" and "distinct (identities nodes)"
  shows "find_service_action_cycle scc nodes = None \<longleftrightarrow> acyclic (calls nodes)"
  using assms by (rule find_cycle_None_iff)

lemma component_cycle:
  assumes "computes_scc scc" and "set es \<subseteq> {..<n} \<times> {..<n}" and "c \<in> set (scc n es)"
    and "(u, v) \<in> set es" "u \<in> set c" "v \<in> set c" and "a \<in> set c" "b \<in> set c"
  shows "(a, b) \<in> (set es)\<^sup>+"
proof -
  have mutual: "(x, y) \<in> (set es)\<^sup>*" if "x \<in> set c" "y \<in> set c" for x y
    using assms(1-3) that unfolding computes_scc_def by (meson in_mono lessThan_iff)
  have "(a, u) \<in> (set es)\<^sup>*" "(v, b) \<in> (set es)\<^sup>*" using mutual assms by auto
  with assms(4) show ?thesis by (meson r_into_trancl rtrancl_trancl_trancl trancl_rtrancl_trancl)
qed

text \<open>
  C11: a reported cycle is real. It names, in sorted order, the labels of nodes that all call each
  other, directly or through others, and the closing dependency is a call between two of them.
\<close>

theorem find_service_action_cycle_sound:
  assumes "computes_scc scc" and "distinct (identities nodes)"
    and "find_service_action_cycle scc nodes = Some cyc"
  shows "\<exists>members. sac_nodes cyc = sort (map (label_of nodes) members) \<and> members \<noteq> [] \<and>
     (\<forall>a\<in>set members. \<forall>b\<in>set members. (a, b) \<in> (calls nodes)\<^sup>+) \<and>
     (\<exists>e\<in>set (build_caller_driven_edges nodes (identity_to_index nodes)).
        e_from e \<in> set members \<and> e_to e \<in> set members \<and>
        sac_closing_dependency cyc = e_label e \<and> sac_kind cyc = e_kind e)"
proof -
  let ?edges = "build_caller_driven_edges nodes (identity_to_index nodes)"
  have pairs: "set (edge_pairs nodes) = calls nodes" using assms(2) by (rule edge_pairs_calls)
  with calls_bounded have bound: "set (edge_pairs nodes) \<subseteq> {..<length nodes} \<times> {..<length nodes}"
    by simp
  from assms(3) obtain c where c: "c \<in> set (scc (length nodes) (edge_pairs nodes))"
    and cyc: "cycle_from_component c ?edges nodes = Some cyc"
    unfolding find_cycle_alt by (blast dest: find_map_Some)
  from cyc obtain e where e: "e \<in> set (internal_edges c ?edges)"
    and cyc_eq: "sac_nodes cyc = sort (map (label_of nodes) c)"
      "sac_closing_dependency cyc = e_label e" "sac_kind cyc = e_kind e"
    by (auto simp: cycle_from_component_def internal_edges_def split: if_split_asm option.split_asm
        dest: min_by_key_in)
  from e have "(e_from e, e_to e) \<in> set (edge_pairs nodes)" "e_from e \<in> set c" "e_to e \<in> set c"
    "e \<in> set ?edges"
    by (auto simp: internal_edges_def edge_pairs_def)
  moreover from this have "\<forall>a\<in>set c. \<forall>b\<in>set c. (a, b) \<in> (calls nodes)\<^sup>+"
    using component_cycle [OF assms(1) bound c] unfolding pairs by blast
  ultimately show ?thesis using cyc_eq by (intro exI [of _ c]) auto
qed

section \<open>Two nodes that call each other\<close>

text \<open>
  \<open>closure_scc\<close> reads the components off the reachability relation: an instance of what
  \<open>tarjan_scc\<close> promises. \<open>caller_node n dep\<close> consumes a service of the node \<open>dep\<close>.
\<close>

definition closure_scc :: "nat \<Rightarrow> (nat \<times> nat) list \<Rightarrow> nat list list" where
  "closure_scc n es =
     map (\<lambda>a. filter (\<lambda>b. (a, b) \<in> (set es)\<^sup>* \<and> (b, a) \<in> (set es)\<^sup>*) [0..<n]) [0..<n]"

lemma closure_scc_computes: "computes_scc closure_scc"
proof -
  have "(\<forall>c\<in>set (closure_scc n es). c \<noteq> [] \<and> distinct c \<and> set c \<subseteq> {..<n}) \<and>
      (\<forall>a<n. \<forall>b<n. (\<exists>c\<in>set (closure_scc n es). a \<in> set c \<and> b \<in> set c) \<longleftrightarrow>
         (a, b) \<in> (set es)\<^sup>* \<and> (b, a) \<in> (set es)\<^sup>*)" for n es
  proof (intro conjI ballI allI impI)
    fix c assume c: "c \<in> set (closure_scc n es)"
    then obtain a where a: "a < n" "a \<in> set c" by (auto simp: closure_scc_def)
    then show "c \<noteq> []" by auto
    from c show "distinct c" "set c \<subseteq> {..<n}" by (auto simp: closure_scc_def)
  next
    fix a b assume ab: "a < n" "b < n"
    show "(\<exists>c\<in>set (closure_scc n es). a \<in> set c \<and> b \<in> set c) \<longleftrightarrow>
        (a, b) \<in> (set es)\<^sup>* \<and> (b, a) \<in> (set es)\<^sup>*"
      using ab by (auto simp: closure_scc_def intro: rtrancl_trans)
  qed
  then show ?thesis unfolding computes_scc_def by blast
qed

definition caller_node :: "string \<Rightarrow> string \<Rightarrow> cycle_check_node" where
  "caller_node n dep =
     \<lparr>ccn_name = n, ccn_tag = ''v1'',
      ccn_config =
        \<lparr>nc_manifest = \<lparr>m_name = n, m_tag = ''v1'', m_implements = [],
           m_depends_on = Some
             \<lparr>dep_nodes = [\<lparr>nd_name = dep, nd_tag = ''v1'', nd_link_id = dep, nd_cardinality = One\<rparr>],
              dep_contracts = [], dep_daemon = [], dep_pairings = [], dep_observers = []\<rparr>\<rparr>,
         nc_interfaces =
           \<lparr>topics = None,
            services = Some \<lparr>produces = None,
                            consumes = Some [\<lparr>ce_link_id = dep, ce_name = ''set'', ce_refine = None\<rparr>]\<rparr>,
            actions = None\<rparr>,
         nc_container = False\<rparr>\<rparr>"

definition mutual_callers :: "cycle_check_node list" where
  "mutual_callers = [caller_node ''pump'' ''valve'', caller_node ''valve'' ''pump'']"

lemma mutual_callers_distinct: "distinct (identities mutual_callers)"
  by (simp add: mutual_callers_def identities_def caller_node_def)

lemma mutual_callers_call: "(0, 1) \<in> calls mutual_callers" "(1, 0) \<in> calls mutual_callers"
proof -
  have "consumes_call (nc_interfaces (ccn_config (caller_node n dep))) dep" for n dep
    unfolding consumes_call_def calling_kinds
    by (simp add: caller_node_def consumed_def section_of_def or_default_def)
  moreover have "nc_manifest (ccn_config (caller_node n dep)) =
      \<lparr>m_name = n, m_tag = ''v1'', m_implements = [],
       m_depends_on = Some
         \<lparr>dep_nodes = [\<lparr>nd_name = dep, nd_tag = ''v1'', nd_link_id = dep, nd_cardinality = One\<rparr>],
          dep_contracts = [], dep_daemon = [], dep_pairings = [], dep_observers = []\<rparr>\<rparr>"
    "ccn_name (caller_node n dep) = n" "ccn_tag (caller_node n dep) = ''v1''" for n dep
    by (simp_all add: caller_node_def)
  ultimately show "(0, 1) \<in> calls mutual_callers" "(1, 0) \<in> calls mutual_callers"
    by (simp_all add: calls_def mutual_callers_def)
qed

lemma mutual_callers_cyclic: "\<not> acyclic (calls mutual_callers)"
  using mutual_callers_call by (meson acyclic_def trancl.simps)

theorem find_service_action_cycle_exact_witness:
  "computes_scc closure_scc \<and> find_service_action_cycle closure_scc mutual_callers \<noteq> None"
  using find_service_action_cycle_exact [OF closure_scc_computes mutual_callers_distinct]
    mutual_callers_cyclic closure_scc_computes
  by simp

theorem find_service_action_cycle_sound_witness:
  "\<exists>cyc members. find_service_action_cycle closure_scc mutual_callers = Some cyc \<and>
     sac_nodes cyc = sort (map (label_of mutual_callers) members) \<and> members \<noteq> []"
proof -
  obtain cyc where "find_service_action_cycle closure_scc mutual_callers = Some cyc"
    using find_cycle_None_iff [OF closure_scc_computes mutual_callers_distinct] mutual_callers_cyclic
    by auto
  with find_service_action_cycle_sound [OF closure_scc_computes mutual_callers_distinct this]
  show ?thesis by blast
qed

end
