(* ===== verification/Petgraph.thy ===== *)
theory Petgraph
  imports Prelude
begin

text \<open>
  The directed graph the node stack keeps, \<open>petgraph::stable_graph::StableDiGraph\<close>. The crate is not
  part of the sources, so its operations are a parameter: a record \<open>G\<close> of functions on a type of
  graphs, and \<open>stable_digraph G\<close> states what the crate documents of the ones the stack calls. Node
  and edge indices stay valid until the node or the edge is removed, removing a node removes the
  edges at it, and iteration visits every node once. \<open>Slab\<close> is a graph with these operations.
\<close>

section \<open>The interface\<close>

record 'g petgraph =
  pg_default :: 'g
  pg_clear :: "'g \<Rightarrow> 'g"
  pg_add_node :: "nat \<Rightarrow> 'g \<Rightarrow> nat \<times> 'g"
  pg_remove_node :: "nat \<Rightarrow> 'g \<Rightarrow> 'g"
  pg_add_edge :: "nat \<Rightarrow> nat \<Rightarrow> 'g \<Rightarrow> 'g"
  pg_remove_edge :: "nat \<Rightarrow> 'g \<Rightarrow> 'g"
  node_weight :: "'g \<Rightarrow> nat \<Rightarrow> nat option"
  node_indices :: "'g \<Rightarrow> nat list"
  edge_indices :: "'g \<Rightarrow> nat list"
  edge_endpoints :: "'g \<Rightarrow> nat \<Rightarrow> (nat \<times> nat) option"
  edges_outgoing :: "'g \<Rightarrow> nat \<Rightarrow> nat list"
  neighbors_incoming :: "'g \<Rightarrow> nat \<Rightarrow> nat list"
  find_edge :: "'g \<Rightarrow> nat \<Rightarrow> nat \<Rightarrow> nat option"

text \<open>\<open>node_weights\<close> visits the weights in the order of \<open>node_indices\<close>.\<close>

definition node_weights :: "'g petgraph \<Rightarrow> 'g \<Rightarrow> nat list" where
  "node_weights G g = List.map_filter (node_weight G g) (node_indices G g)"

definition edge_set :: "'g petgraph \<Rightarrow> 'g \<Rightarrow> (nat \<times> nat) set" where
  "edge_set G g = ran (edge_endpoints G g)"

definition detach :: "nat \<Rightarrow> (nat \<times> nat) option \<Rightarrow> (nat \<times> nat) option" where
  "detach i e = (case e of None \<Rightarrow> None | Some (a, b) \<Rightarrow> if a = i \<or> b = i then None else Some (a, b))"

text \<open>The laws of the nodes, of the edges, and of the queries.\<close>

definition node_laws :: "'g petgraph \<Rightarrow> bool" where
  "node_laws G \<longleftrightarrow>
     node_weight G (pg_default G) = Map.empty \<and>
     (\<forall>g. node_weight G (pg_clear G g) = Map.empty) \<and>
     (\<forall>g h. node_weight G g (fst (pg_add_node G h g)) = None \<and>
        node_weight G (snd (pg_add_node G h g)) = (node_weight G g)(fst (pg_add_node G h g) \<mapsto> h)) \<and>
     (\<forall>g i. node_weight G (pg_remove_node G i g) = (node_weight G g)(i := None)) \<and>
     (\<forall>g e. node_weight G (pg_remove_edge G e g) = node_weight G g) \<and>
     (\<forall>g. distinct (node_indices G g) \<and> set (node_indices G g) = dom (node_weight G g))"

definition edge_laws :: "'g petgraph \<Rightarrow> bool" where
  "edge_laws G \<longleftrightarrow>
     edge_endpoints G (pg_default G) = Map.empty \<and>
     (\<forall>g. edge_endpoints G (pg_clear G g) = Map.empty) \<and>
     (\<forall>g h. edge_endpoints G (snd (pg_add_node G h g)) = edge_endpoints G g) \<and>
     (\<forall>g i. edge_endpoints G (pg_remove_node G i g) = (\<lambda>e. detach i (edge_endpoints G g e))) \<and>
     (\<forall>g e. edge_endpoints G (pg_remove_edge G e g) = (edge_endpoints G g)(e := None)) \<and>
     (\<forall>g a b. node_weight G g a \<noteq> None \<longrightarrow> node_weight G g b \<noteq> None \<longrightarrow>
        node_weight G (pg_add_edge G a b g) = node_weight G g \<and>
        (\<exists>e. edge_endpoints G g e = None \<and>
           edge_endpoints G (pg_add_edge G a b g) = (edge_endpoints G g)(e \<mapsto> (a, b))))"

definition query_laws :: "'g petgraph \<Rightarrow> bool" where
  "query_laws G \<longleftrightarrow>
     (\<forall>g. distinct (edge_indices G g) \<and> set (edge_indices G g) = dom (edge_endpoints G g)) \<and>
     (\<forall>g i. set (edges_outgoing G g i) = {e. \<exists>b. edge_endpoints G g e = Some (i, b)}) \<and>
     (\<forall>g i. set (neighbors_incoming G g i) = {a. (a, i) \<in> edge_set G g}) \<and>
     (\<forall>g a b. find_edge G g a b = None \<longleftrightarrow> (a, b) \<notin> edge_set G g)"

definition stable_digraph :: "'g petgraph \<Rightarrow> bool" where
  "stable_digraph G \<longleftrightarrow> node_laws G \<and> edge_laws G \<and> query_laws G"

lemma stable_digraphD:
  "stable_digraph G \<Longrightarrow> node_laws G" "stable_digraph G \<Longrightarrow> edge_laws G" "stable_digraph G \<Longrightarrow> query_laws G"
  by (simp_all add: stable_digraph_def)

section \<open>What the edges are after each operation\<close>

lemma stable_digraph_nodes:
  assumes "stable_digraph G"
  shows "node_weight G (pg_default G) = Map.empty" "node_weight G (pg_clear G g) = Map.empty"
    "node_weight G g (fst (pg_add_node G h g)) = None"
    "node_weight G (snd (pg_add_node G h g)) = (node_weight G g)(fst (pg_add_node G h g) \<mapsto> h)"
    "node_weight G (pg_remove_node G i g) = (node_weight G g)(i := None)"
    "node_weight G (pg_remove_edge G e g) = node_weight G g"
    "distinct (node_indices G g)" "set (node_indices G g) = dom (node_weight G g)"
  using stable_digraphD(1) [OF assms] by (simp_all add: node_laws_def)

lemma edge_set_remove_node:
  "edge_endpoints G g' = (\<lambda>e. detach i (edge_endpoints G g e)) \<Longrightarrow>
     edge_set G g' = {(a, b) \<in> edge_set G g. a \<noteq> i \<and> b \<noteq> i}"
  by (force simp: edge_set_def ran_def detach_def split: option.splits if_splits)

lemma stable_digraph_edges:
  assumes "stable_digraph G"
  shows "edge_set G (pg_default G) = {}" "edge_set G (pg_clear G g) = {}"
    "edge_set G (snd (pg_add_node G h g)) = edge_set G g"
    "edge_set G (pg_remove_node G i g) = {(a, b) \<in> edge_set G g. a \<noteq> i \<and> b \<noteq> i}"
    "set (neighbors_incoming G g i) = {a. (a, i) \<in> edge_set G g}"
    "find_edge G g a b = None \<longleftrightarrow> (a, b) \<notin> edge_set G g"
proof -
  note laws = stable_digraphD(2,3) [OF assms]
  show "edge_set G (pg_default G) = {}" "edge_set G (pg_clear G g) = {}"
    "edge_set G (snd (pg_add_node G h g)) = edge_set G g"
    using laws(1) by (simp_all add: edge_laws_def edge_set_def)
  show "edge_set G (pg_remove_node G i g) = {(a, b) \<in> edge_set G g. a \<noteq> i \<and> b \<noteq> i}"
    using laws(1) by (intro edge_set_remove_node) (simp add: edge_laws_def)
  show "set (neighbors_incoming G g i) = {a. (a, i) \<in> edge_set G g}"
    "find_edge G g a b = None \<longleftrightarrow> (a, b) \<notin> edge_set G g"
    using laws(2) by (simp_all only: query_laws_def)
qed

lemma add_edge_facts:
  assumes "stable_digraph G" and "node_weight G g a \<noteq> None" and "node_weight G g b \<noteq> None"
  shows "node_weight G (pg_add_edge G a b g) = node_weight G g"
    and "edge_set G (pg_add_edge G a b g) = insert (a, b) (edge_set G g)"
proof -
  have "node_weight G (pg_add_edge G a b g) = node_weight G g \<and>
      (\<exists>e. edge_endpoints G g e = None \<and>
         edge_endpoints G (pg_add_edge G a b g) = (edge_endpoints G g)(e \<mapsto> (a, b)))"
    using stable_digraphD(2) [OF assms(1)] assms(2,3) unfolding edge_laws_def by blast
  then show "node_weight G (pg_add_edge G a b g) = node_weight G g"
    "edge_set G (pg_add_edge G a b g) = insert (a, b) (edge_set G g)"
    by (auto simp: edge_set_def)
qed

text \<open>Removing every edge that leaves a node, one index at a time.\<close>

lemma remove_edges_endpoints:
  assumes "stable_digraph G"
  shows "edge_endpoints G (fold (pg_remove_edge G) es g) =
      (\<lambda>e. if e \<in> set es then None else edge_endpoints G g e)"
    and "node_weight G (fold (pg_remove_edge G) es g) = node_weight G g"
proof (induction es arbitrary: g)
  case (Cons e es)
  have step: "edge_endpoints G (pg_remove_edge G e g) = (edge_endpoints G g)(e := None)" for g
    using stable_digraphD(2) [OF assms] by (simp add: edge_laws_def)
  {
    case 1
    show ?case by (auto simp: Cons.IH step fun_eq_iff)
  next
    case 2
    show ?case using stable_digraph_nodes(6) [OF assms] by (simp add: Cons.IH)
  }
qed simp_all

lemma remove_outgoing:
  assumes "stable_digraph G"
  shows "edge_set G (fold (pg_remove_edge G) (edges_outgoing G g i) g) =
      {(a, b) \<in> edge_set G g. a \<noteq> i}"
proof -
  have "set (edges_outgoing G g i) = {e. \<exists>b. edge_endpoints G g e = Some (i, b)}"
    using stable_digraphD(3) [OF assms] by (simp add: query_laws_def)
  then show ?thesis
    by (force simp: edge_set_def ran_def remove_edges_endpoints [OF assms] split: if_splits)
qed

lemma set_node_weights:
  assumes "stable_digraph G"
  shows "set (node_weights G g) = ran (node_weight G g)"
proof -
  have "set (node_indices G g) = dom (node_weight G g)" by (rule stable_digraph_nodes [OF assms])
  then show ?thesis
    by (force simp: node_weights_def map_filter_def ran_def dom_def image_iff)
qed

section \<open>A graph with these operations\<close>

text \<open>Nodes and edges as association lists from their indices; a fresh index is past all others.\<close>

record slab =
  sl_nodes :: "(nat \<times> nat) list"
  sl_edges :: "(nat \<times> nat \<times> nat) list"

definition fresh_index :: "(nat \<times> 'a) list \<Rightarrow> nat" where
  "fresh_index xs = foldr (\<lambda>x m. max (Suc (fst x)) m) xs 0"

definition dedup_keys :: "(nat \<times> 'a) list \<Rightarrow> nat list" where
  "dedup_keys xs = remdups (map fst xs)"

definition slab_edges :: "slab \<Rightarrow> (nat \<times> nat \<times> nat) list" where
  "slab_edges g = map (\<lambda>e. (e, the (map_of (sl_edges g) e))) (dedup_keys (sl_edges g))"

definition slab_graph :: "slab petgraph" where
  "slab_graph =
     \<lparr>pg_default = \<lparr>sl_nodes = [], sl_edges = []\<rparr>,
      pg_clear = (\<lambda>_. \<lparr>sl_nodes = [], sl_edges = []\<rparr>),
      pg_add_node = (\<lambda>h g. let i = fresh_index (sl_nodes g) in (i, g\<lparr>sl_nodes := (i, h) # sl_nodes g\<rparr>)),
      pg_remove_node = (\<lambda>i g. \<lparr>sl_nodes = filter (\<lambda>x. fst x \<noteq> i) (sl_nodes g),
         sl_edges = filter (\<lambda>x. fst (snd x) \<noteq> i \<and> snd (snd x) \<noteq> i) (slab_edges g)\<rparr>),
      pg_add_edge = (\<lambda>a b g. g\<lparr>sl_edges := (fresh_index (sl_edges g), a, b) # sl_edges g\<rparr>),
      pg_remove_edge = (\<lambda>e g. g\<lparr>sl_edges := filter (\<lambda>x. fst x \<noteq> e) (sl_edges g)\<rparr>),
      node_weight = (\<lambda>g. map_of (sl_nodes g)),
      node_indices = (\<lambda>g. dedup_keys (sl_nodes g)),
      edge_indices = (\<lambda>g. dedup_keys (sl_edges g)),
      edge_endpoints = (\<lambda>g. map_of (sl_edges g)),
      edges_outgoing = (\<lambda>g i. map fst (filter (\<lambda>x. fst (snd x) = i) (slab_edges g))),
      neighbors_incoming = (\<lambda>g i. map (\<lambda>x. fst (snd x)) (filter (\<lambda>x. snd (snd x) = i) (slab_edges g))),
      find_edge = (\<lambda>g a b. map_option fst (find (\<lambda>x. snd x = (a, b)) (slab_edges g)))\<rparr>"

lemma fresh_index_gt: "x \<in> set xs \<Longrightarrow> fst x < fresh_index xs"
proof (induction xs)
  case (Cons a xs)
  then show ?case by (cases "x = a") (simp_all add: fresh_index_def less_max_iff_disj)
qed simp

lemma fresh_index_fresh: "map_of xs (fresh_index xs) = None"
  using fresh_index_gt [of _ xs] by (fastforce simp: map_of_eq_None_iff)

lemma map_of_filter_key: "map_of (filter (\<lambda>x. fst x \<noteq> i) xs) = (map_of xs)(i := None)"
  by (induction xs) auto

lemma set_slab_edges: "(e, a, b) \<in> set (slab_edges g) \<longleftrightarrow> map_of (sl_edges g) e = Some (a, b)"
proof -
  have "(e, a, b) \<in> set (slab_edges g) \<longleftrightarrow>
      e \<in> fst ` set (sl_edges g) \<and> (a, b) = the (map_of (sl_edges g) e)"
    by (auto simp: slab_edges_def dedup_keys_def)
  also have "e \<in> fst ` set (sl_edges g) \<longleftrightarrow> map_of (sl_edges g) e \<noteq> None"
    by (simp only: map_of_eq_None_iff not_not)
  finally show ?thesis by auto
qed

lemma distinct_slab_edges: "distinct (map fst (slab_edges g))"
  by (simp add: slab_edges_def dedup_keys_def comp_def)

lemma option_eq_by_Some: "(\<And>y. x = Some y \<longleftrightarrow> z = Some y) \<Longrightarrow> x = z"
  by (cases x; cases z) auto

lemma map_of_slab_filter:
  "map_of (filter (\<lambda>x. fst (snd x) \<noteq> i \<and> snd (snd x) \<noteq> i) (slab_edges g)) =
     (\<lambda>e. detach i (map_of (sl_edges g) e))"
proof
  fix e
  let ?P = "\<lambda>x :: nat \<times> nat \<times> nat. fst (snd x) \<noteq> i \<and> snd (snd x) \<noteq> i"
  have "distinct (map fst (filter ?P (slab_edges g)))"
    by (rule distinct_map_filter [OF distinct_slab_edges])
  then have mem: "map_of (filter ?P (slab_edges g)) e = Some (a, b) \<longleftrightarrow>
      map_of (sl_edges g) e = Some (a, b) \<and> a \<noteq> i \<and> b \<noteq> i" for a b
    by (simp only: map_of_eq_Some_iff set_filter mem_Collect_eq set_slab_edges fst_conv snd_conv)
  have "detach i (map_of (sl_edges g) e) = Some (a, b) \<longleftrightarrow>
      map_of (sl_edges g) e = Some (a, b) \<and> a \<noteq> i \<and> b \<noteq> i" for a b
    by (cases "map_of (sl_edges g) e") (auto simp: detach_def split: if_splits)
  with mem have "map_of (filter ?P (slab_edges g)) e = Some y \<longleftrightarrow>
      detach i (map_of (sl_edges g) e) = Some y" for y
    by (cases y) simp
  then show "map_of (filter ?P (slab_edges g)) e = detach i (map_of (sl_edges g) e)"
    by (rule option_eq_by_Some)
qed

lemma slab_edge_set: "(a, b) \<in> edge_set slab_graph g \<longleftrightarrow> (\<exists>e. (e, a, b) \<in> set (slab_edges g))"
  unfolding set_slab_edges by (auto simp: edge_set_def slab_graph_def ran_def)

lemma slab_queries:
  "set (edges_outgoing slab_graph g i) = {e. \<exists>b. edge_endpoints slab_graph g e = Some (i, b)}"
  "set (neighbors_incoming slab_graph g i) = {a. (a, i) \<in> edge_set slab_graph g}"
  "find_edge slab_graph g a b = None \<longleftrightarrow> (a, b) \<notin> edge_set slab_graph g"
proof -
  have "set (edges_outgoing slab_graph g i) = {e. \<exists>b. (e, i, b) \<in> set (slab_edges g)}"
    by (force simp: slab_graph_def)
  then show "set (edges_outgoing slab_graph g i) = {e. \<exists>b. edge_endpoints slab_graph g e = Some (i, b)}"
    by (simp add: set_slab_edges) (simp add: slab_graph_def)
  show "set (neighbors_incoming slab_graph g i) = {a. (a, i) \<in> edge_set slab_graph g}"
    unfolding slab_edge_set by (force simp: slab_graph_def)
  have "find_edge slab_graph g a b = None \<longleftrightarrow> (\<forall>x\<in>set (slab_edges g). snd x \<noteq> (a, b))"
    by (auto simp: slab_graph_def find_None_iff)
  also have "\<dots> \<longleftrightarrow> (\<nexists>e. (e, a, b) \<in> set (slab_edges g))" by force
  finally show "find_edge slab_graph g a b = None \<longleftrightarrow> (a, b) \<notin> edge_set slab_graph g"
    by (simp only: slab_edge_set)
qed

lemma slab_graph_stable: "stable_digraph slab_graph"
  unfolding stable_digraph_def
proof (intro conjI)
  show "node_laws slab_graph"
    by (simp add: node_laws_def slab_graph_def fresh_index_fresh map_of_filter_key dedup_keys_def
        dom_map_of_conv_image_fst Let_def)
  have fresh: "\<exists>e. edge_endpoints slab_graph g e = None \<and>
      edge_endpoints slab_graph (pg_add_edge slab_graph a b g) =
        (edge_endpoints slab_graph g)(e \<mapsto> (a, b))" for g a b
    by (rule exI [of _ "fresh_index (sl_edges g)"]) (simp add: slab_graph_def fresh_index_fresh)
  show "edge_laws slab_graph"
    unfolding edge_laws_def
    by (intro conjI allI impI fresh)
       (simp_all add: slab_graph_def map_of_filter_key map_of_slab_filter Let_def)
  show "query_laws slab_graph"
    unfolding query_laws_def slab_queries
    by (simp add: slab_graph_def dedup_keys_def dom_map_of_conv_image_fst)
qed

end
