(* ===== verification/Node_Stack.thy ===== *)
theory Node_Stack
  imports Instance_Restarts Service_Action_Cycle Petgraph
begin

text \<open>
  The node stack: \<open>node-stack-internal/src/node_stack.rs\<close>. The graph operations are the parameter \<open>G\<close>
  of theory \<open>Petgraph\<close>, the strongly connected components the parameter \<open>scc\<close> of theory
  \<open>Service_Action_Cycle\<close>.

  An \<open>EntityHandle\<close> is an address into the heap of entities, which the graph and every caller of
  \<open>find\<close> share. \<open>NodeStack\<close> locks \<open>NodeStackInner\<close> around each call, so one call of the public
  wrapper is one step; the two are one record here, with the heap and the log paths beside the
  fields of the inner stack. What the stack writes to the outside is the \<open>world\<close> of \<open>Node_Instance\<close>.
\<close>

section \<open>Keys and state\<close>

record node_key =
  nk_name :: string
  nk_tag :: string

definition node_key_new :: "string \<Rightarrow> string \<Rightarrow> node_key" where
  "node_key_new n t = \<lparr>nk_name = trim n, nk_tag = trim t\<rparr>"

definition key_from_entity :: "node_entity \<Rightarrow> node_key" where
  "key_from_entity e = node_key_new (ent_name e) (ent_tag e)"

definition dependency_keys :: "node_config \<Rightarrow> node_key list" where
  "dependency_keys c =
     map (\<lambda>s. node_key_new (ds_node_name s) (ds_node_tag s)) (collect_dependency_specs c)"

definition is_running_instance :: "tracked_instance \<Rightarrow> string \<Rightarrow> bool" where
  "is_running_instance t i \<longleftrightarrow> instance_id t = i \<and> inst_state t = Running"

record endpoint_meta =
  em_name :: string
  em_tag :: string
  em_role :: string
  em_sha256 :: "string option"
  em_cardinality :: cardinality
  em_copy :: "string option"

record 'g node_stack =
  graph :: 'g
  key_to_index :: "node_key \<rightharpoonup> nat"
  pending_requirements :: "node_key \<rightharpoonup> nat list"
  root_key :: node_key
  stack_pairs :: pairing_registry
  heap :: "nat \<Rightarrow> node_entity"
  next_handle :: nat
  add_log_paths :: "node_key \<rightharpoonup> string"

text \<open>\<open>Arc::new(RwLock::new(entity))\<close>.\<close>

definition new_handle :: "node_entity \<Rightarrow> 'g node_stack \<Rightarrow> nat \<times> 'g node_stack" where
  "new_handle e s =
     (next_handle s, s\<lparr>heap := (heap s)(next_handle s := e), next_handle := Suc (next_handle s)\<rparr>)"

definition write_entity :: "nat \<Rightarrow> node_entity \<Rightarrow> 'g node_stack \<Rightarrow> 'g node_stack" where
  "write_entity h e s = s\<lparr>heap := (heap s)(h := e)\<rparr>"

section \<open>Lookups\<close>

definition stack_find :: "'g petgraph \<Rightarrow> 'g node_stack \<Rightarrow> node_key \<Rightarrow> nat option" where
  "stack_find G s k = Option.bind (key_to_index s k) (node_weight G (graph s))"

definition is_root :: "'g node_stack \<Rightarrow> node_key \<Rightarrow> bool" where
  "is_root s k \<longleftrightarrow> root_key s = k"

definition find_map_entity ::
    "'g petgraph \<Rightarrow> 'g node_stack \<Rightarrow> (nat \<Rightarrow> node_entity \<Rightarrow> 'a option) \<Rightarrow> 'a option" where
  "find_map_entity G s project = find_map (\<lambda>h. project h (heap s h)) (node_weights G (graph s))"

definition find_entity_by_instance_id :: "'g petgraph \<Rightarrow> 'g node_stack \<Rightarrow> string \<Rightarrow> nat option" where
  "find_entity_by_instance_id G s i =
     find_map_entity G s (\<lambda>h e. if list_ex (\<lambda>t. is_running_instance t i) (instances e) then Some h else None)"

record tracked =
  tr_instance :: tracked_instance
  tr_handle :: nat
  tr_entity :: node_entity

definition stack_tracked :: "'g petgraph \<Rightarrow> 'g node_stack \<Rightarrow> string \<Rightarrow> (tracked \<Rightarrow> 'a) \<Rightarrow> 'a option" where
  "stack_tracked G s i read =
     find_map_entity G s (\<lambda>h e.
       map_option (\<lambda>t. read \<lparr>tr_instance = t, tr_handle = h, tr_entity = e\<rparr>)
         (find (\<lambda>t. instance_id t = i) (instances e)))"

definition find_entity_any_state :: "'g petgraph \<Rightarrow> 'g node_stack \<Rightarrow> string \<Rightarrow> nat option" where
  "find_entity_any_state G s i = stack_tracked G s i tr_handle"

definition stack_instance_state :: "'g petgraph \<Rightarrow> 'g node_stack \<Rightarrow> string \<Rightarrow> instance_state option" where
  "stack_instance_state G s i = stack_tracked G s i (\<lambda>tr. inst_state (tr_instance tr))"

definition running_health_of :: "'g petgraph \<Rightarrow> 'g node_stack \<Rightarrow> world \<Rightarrow> running_health" where
  "running_health_of G s w =
     fold (\<lambda>h health.
         if is_root s (key_from_entity (heap s h)) then health
         else fold (\<lambda>t health. \<lparr>rh_running = rh_running health + 1,
                     rh_healthy = rh_healthy health + (if healthy t w then 1 else 0)\<rparr>)
                (filter (\<lambda>t. inst_state t = Running) (instances (heap s h))) health)
       (node_weights G (graph s)) \<lparr>rh_running = 0, rh_healthy = 0\<rparr>"

text \<open>\<open>root\<close> expects the root in the stack; where it is missing the code panics, and this is None.\<close>

definition stack_root :: "'g petgraph \<Rightarrow> 'g node_stack \<Rightarrow> nat option" where
  "stack_root G s = stack_find G s (root_key s)"

definition root_core_node_name :: "'g petgraph \<Rightarrow> 'g node_stack \<Rightarrow> string option" where
  "root_core_node_name G s = map_option (\<lambda>h. ent_name (heap s h)) (stack_root G s)"

section \<open>Wiring the dependencies\<close>

definition clear_pending_requirements_for :: "nat \<Rightarrow> 'g node_stack \<Rightarrow> 'g node_stack" where
  "clear_pending_requirements_for dependant s =
     s\<lparr>pending_requirements := (\<lambda>k.
        case pending_requirements s k of
          None \<Rightarrow> None
        | Some pending \<Rightarrow>
            let kept = filter (\<lambda>idx. idx \<noteq> dependant) pending in if kept = [] then None else Some kept)\<rparr>"

definition register_pending_requirement :: "node_key \<Rightarrow> nat \<Rightarrow> 'g node_stack \<Rightarrow> 'g node_stack" where
  "register_pending_requirement dep_key dependant s =
     (let entry = (case pending_requirements s dep_key of None \<Rightarrow> [] | Some xs \<Rightarrow> xs)
      in s\<lparr>pending_requirements := (pending_requirements s)(dep_key \<mapsto>
             if dependant \<in> set entry then entry else entry @ [dependant])\<rparr>)"

definition try_attach_edge ::
    "'g petgraph \<Rightarrow> nat \<Rightarrow> node_key \<Rightarrow> 'g node_stack \<Rightarrow> bool \<times> 'g node_stack" where
  "try_attach_edge G dependant dep_key s =
     (case key_to_index s dep_key of
        None \<Rightarrow> (False, s)
      | Some dependency \<Rightarrow>
          (True, if find_edge G (graph s) dependant dependency = None
                 then s\<lparr>graph := pg_add_edge G dependant dependency (graph s)\<rparr> else s))"

definition attach_dependencies :: "'g petgraph \<Rightarrow> nat \<Rightarrow> 'g node_stack \<Rightarrow> 'g node_stack" where
  "attach_dependencies G index s =
     (case node_weight G (graph s) index of
        None \<Rightarrow> s
      | Some h \<Rightarrow>
          fold (\<lambda>dep_key s.
              case try_attach_edge G index dep_key s of
                (True, s') \<Rightarrow> s'
              | (False, s') \<Rightarrow> register_pending_requirement dep_key index s')
            (dependency_keys (ent_config (heap s h))) (clear_pending_requirements_for index s))"

definition rewire_dependencies :: "'g petgraph \<Rightarrow> nat \<Rightarrow> 'g node_stack \<Rightarrow> 'g node_stack" where
  "rewire_dependencies G index s =
     attach_dependencies G index
       (s\<lparr>graph := fold (pg_remove_edge G) (edges_outgoing G (graph s) index) (graph s)\<rparr>)"

definition resolve_pending_requirements :: "'g petgraph \<Rightarrow> node_key \<Rightarrow> 'g node_stack \<Rightarrow> 'g node_stack" where
  "resolve_pending_requirements G k s =
     (if key_to_index s k = None then s
      else case pending_requirements s k of
             None \<Rightarrow> s
           | Some pending \<Rightarrow>
               let s1 = s\<lparr>pending_requirements := (pending_requirements s)(k := None)\<rparr>;
                   (remaining, s2) = fold (\<lambda>dependant (remaining, s).
                     case try_attach_edge G dependant k s of
                       (True, s') \<Rightarrow> (remaining, s') | (False, s') \<Rightarrow> (remaining @ [dependant], s'))
                     pending ([], s1)
               in if remaining = [] then s2
                  else s2\<lparr>pending_requirements := (pending_requirements s2)(k \<mapsto> remaining)\<rparr>)"

definition insert_new_entity :: "'g petgraph \<Rightarrow> node_entity \<Rightarrow> 'g node_stack \<Rightarrow> 'g node_stack" where
  "insert_new_entity G e s =
     (let k = key_from_entity e;
          (h, s1) = new_handle e s;
          (index, g) = pg_add_node G h (graph s1);
          s2 = s1\<lparr>graph := g, key_to_index := (key_to_index s1)(k \<mapsto> index)\<rparr>
      in resolve_pending_requirements G k (rewire_dependencies G index s2))"

section \<open>Validating a candidate\<close>

type_synonym scc_algorithm = "nat \<Rightarrow> (nat \<times> nat) list \<Rightarrow> nat list list"

definition cycle_check_view :: "'g petgraph \<Rightarrow> 'g node_stack \<Rightarrow> node_entity \<Rightarrow> cycle_check_node list" where
  "cycle_check_view G s e =
     (let k = key_from_entity e in
      List.map_filter (\<lambda>index.
          if Some index = key_to_index s k then None
          else map_option (\<lambda>h.
              let other = key_from_entity (heap s h)
              in \<lparr>ccn_name = nk_name other, ccn_tag = nk_tag other, ccn_config = ent_config (heap s h)\<rparr>)
            (node_weight G (graph s) index))
        (node_indices G (graph s)) @
      [\<lparr>ccn_name = nk_name k, ccn_tag = nk_tag k, ccn_config = ent_config e\<rparr>])"

definition validate_no_service_action_cycle ::
    "'g petgraph \<Rightarrow> scc_algorithm \<Rightarrow> 'g node_stack \<Rightarrow> node_entity \<Rightarrow> stack_error + unit" where
  "validate_no_service_action_cycle G scc s e =
     (case find_service_action_cycle scc (cycle_check_view G s e) of
        Some cyc \<Rightarrow> Inl (ServiceActionContractCycle (sac_nodes cyc) (sac_closing_dependency cyc)
                          (kind_display (sac_kind cyc)))
      | None \<Rightarrow> Inr ())"

definition resolve_config :: "'g petgraph \<Rightarrow> 'g node_stack \<Rightarrow> string \<Rightarrow> string \<Rightarrow> node_config option" where
  "resolve_config G s n t = map_option (\<lambda>h. ent_config (heap s h)) (stack_find G s (node_key_new n t))"

definition validate_dependencies ::
    "'g petgraph \<Rightarrow> scc_algorithm \<Rightarrow> 'g node_stack \<Rightarrow> node_entity \<Rightarrow> stack_error + unit" where
  "validate_dependencies G scc s e =
     (case validate_dependency_specs (nc_manifest (ent_config e)) (nc_interfaces (ent_config e))
             (ent_name e) (ent_tag e) AllowAbsentWhenSlotAdmitsEmpty (resolve_config G s) of
        err # _ \<Rightarrow> Inl (ErrConfig err)
      | [] \<Rightarrow> validate_no_service_action_cycle G scc s e)"

definition validate_candidate ::
    "'g petgraph \<Rightarrow> scc_algorithm \<Rightarrow> 'g node_stack \<Rightarrow> node_entity \<Rightarrow> bool \<Rightarrow> stack_error + unit" where
  "validate_candidate G scc s e allow_missing_dependencies =
     (if allow_missing_dependencies then validate_no_service_action_cycle G scc s e
      else validate_dependencies G scc s e)"

section \<open>Adding and removing nodes\<close>

text \<open>\<open>NodeStackInner::new\<close>, with the panic on a root whose dependencies do not validate as None.\<close>

definition empty_inner :: "'g petgraph \<Rightarrow> node_entity \<Rightarrow> 'g node_stack" where
  "empty_inner G root =
     \<lparr>graph = pg_default G, key_to_index = Map.empty, pending_requirements = Map.empty,
      root_key = key_from_entity root, stack_pairs = [], heap = (\<lambda>_. root), next_handle = 0,
      add_log_paths = Map.empty\<rparr>"

definition inner_new :: "'g petgraph \<Rightarrow> scc_algorithm \<Rightarrow> node_entity \<Rightarrow> 'g node_stack option" where
  "inner_new G scc root =
     (case validate_dependencies G scc (empty_inner G root) root of
        Inl _ \<Rightarrow> None
      | Inr _ \<Rightarrow> Some (insert_new_entity G root (empty_inner G root)))"

definition stack_new ::
    "'g petgraph \<Rightarrow> scc_algorithm \<Rightarrow> node_config \<Rightarrow> string \<Rightarrow> string \<Rightarrow> world \<Rightarrow>
     'g node_stack option \<times> world" where
  "stack_new G scc root_config i root_path w =
     (let (t, w1) = tracked_new i Running Map.empty w;
          (root, w2) = entity_root root_config root_path t w1
      in (inner_new G scc root, w2))"

definition has_dependents :: "'g petgraph \<Rightarrow> 'g node_stack \<Rightarrow> nat \<Rightarrow> node_key \<Rightarrow> bool" where
  "has_dependents G s index k \<longleftrightarrow>
     neighbors_incoming G (graph s) index \<noteq> [] \<or>
     (case pending_requirements s k of None \<Rightarrow> False | Some requirements \<Rightarrow> requirements \<noteq> [])"

text \<open>
  The code holds the write lock of the entity it replaces while it validates, and the validation reads
  the configs of the dependencies. A re-add that comes to depend on itself would wait for its own
  lock; here it is answered from the config in the stack.
\<close>

definition push_entity ::
    "'g petgraph \<Rightarrow> scc_algorithm \<Rightarrow> node_entity \<Rightarrow> bool \<Rightarrow> 'g node_stack \<Rightarrow>
     (stack_error + unit) \<times> 'g node_stack" where
  "push_entity G scc e allow_missing_dependencies s =
     (let k = key_from_entity e in
      if is_root s k then (Inl CannotModifyRootNode, s)
      else case key_to_index s k of
             None \<Rightarrow>
               (case validate_candidate G scc s e allow_missing_dependencies of
                  Inl err \<Rightarrow> (Inl err, s)
                | Inr _ \<Rightarrow> (Inr (), insert_new_entity G e s))
           | Some index \<Rightarrow>
               (case node_weight G (graph s) index of
                  None \<Rightarrow> (Inr (), s)
                | Some h \<Rightarrow>
                    let old = heap s h;
                        interfaces_changed = (nc_interfaces (ent_config old) \<noteq> nc_interfaces (ent_config e));
                        dependencies_changed =
                          (dependency_keys (ent_config old) \<noteq> dependency_keys (ent_config e));
                        needs_rewire = (interfaces_changed \<or> dependencies_changed)
                    in if instances old \<noteq> []
                       then (Inl (CannotOverwriteNodeWithLiveInstances (nk_name k) (nk_tag k)), s)
                       else if interfaces_changed \<and> has_dependents G s index k
                       then (Inl (CannotOverwriteNodeWithDependents (nk_name k) (nk_tag k)), s)
                       else case (if needs_rewire
                                  then validate_candidate G scc s e allow_missing_dependencies
                                  else Inr ()) of
                              Inl err \<Rightarrow> (Inl err, s)
                            | Inr _ \<Rightarrow>
                                (Inr (), if needs_rewire
                                         then rewire_dependencies G index (write_entity h e s)
                                         else write_entity h e s)))"

definition push_config ::
    "'g petgraph \<Rightarrow> scc_algorithm \<Rightarrow> node_config \<Rightarrow> string list \<Rightarrow> bool \<Rightarrow> string \<Rightarrow> 'g node_stack \<Rightarrow>
     world \<Rightarrow> ((stack_error + unit) \<times> 'g node_stack) \<times> world" where
  "push_config G scc c docs allow_missing path s w =
     (let (e, w1) = entity_new c path docs w in (push_entity G scc e allow_missing s, w1))"

definition push_built_in ::
    "'g petgraph \<Rightarrow> scc_algorithm \<Rightarrow> node_config \<Rightarrow> string \<Rightarrow> built_in_launch \<Rightarrow> string list \<Rightarrow>
     'g node_stack \<Rightarrow> world \<Rightarrow> ((stack_error + unit) \<times> 'g node_stack) \<times> world" where
  "push_built_in G scc c path launch docs s w =
     (let (e, w1) = entity_built_in c path launch docs w in (push_entity G scc e False s, w1))"

definition remove_entity :: "'g petgraph \<Rightarrow> node_key \<Rightarrow> 'g node_stack \<Rightarrow> 'g node_stack" where
  "remove_entity G k s =
     (case key_to_index s k of
        None \<Rightarrow> s
      | Some index \<Rightarrow>
          let dependants = filter (\<lambda>d. d \<noteq> index) (neighbors_incoming G (graph s) index);
              s1 = s\<lparr>key_to_index := (key_to_index s)(k := None),
                     graph := pg_remove_node G index (graph s)\<rparr>
          in fold (register_pending_requirement k) dependants (clear_pending_requirements_for index s1))"

definition remove_config ::
    "'g petgraph \<Rightarrow> string \<Rightarrow> string \<Rightarrow> 'g node_stack \<Rightarrow> (stack_error + bool) \<times> 'g node_stack" where
  "remove_config G n t s =
     (let k = node_key_new n t in
      if is_root s k then (Inl CannotModifyRootNode, s)
      else case stack_find G s k of
             None \<Rightarrow> (Inr False, s)
           | Some h \<Rightarrow>
               if instances (heap s h) \<noteq> [] then (Inl (CannotRemoveNodeWithInstances n t), s)
               else (Inr True, (remove_entity G k s)\<lparr>add_log_paths := (add_log_paths s)(k := None)\<rparr>))"

definition resolve_matching_slot ::
    "'g petgraph \<Rightarrow> 'g node_stack \<Rightarrow> node_key \<Rightarrow> nat \<Rightarrow> (nat \<times> nat) option" where
  "resolve_matching_slot G s k expected =
     (if is_root s k then None
      else case key_to_index s k of
             None \<Rightarrow> None
           | Some index \<Rightarrow>
               (case node_weight G (graph s) index of
                  None \<Rightarrow> None
                | Some current \<Rightarrow> if current = expected then Some (index, current) else None))"

definition is_building :: "node_entity \<Rightarrow> bool" where
  "is_building e = (case ent_stage e of Building _ \<Rightarrow> True | _ \<Rightarrow> False)"

definition remove_config_if_matches ::
    "'g petgraph \<Rightarrow> string \<Rightarrow> string \<Rightarrow> nat \<Rightarrow> u64 \<Rightarrow> 'g node_stack \<Rightarrow> bool \<times> 'g node_stack" where
  "remove_config_if_matches G n t expected gen s =
     (let k = node_key_new n t in
      case resolve_matching_slot G s k expected of
        None \<Rightarrow> (False, s)
      | Some (_, h) \<Rightarrow>
          if generation (heap s h) = gen \<and> is_building (heap s h)
          then (True, (remove_entity G k s)\<lparr>add_log_paths := (add_log_paths s)(k := None)\<rparr>)
          else (False, s))"

definition rollback_to_added_if_matches ::
    "'g petgraph \<Rightarrow> string \<Rightarrow> string \<Rightarrow> nat \<Rightarrow> u64 \<Rightarrow> string \<Rightarrow> 'g node_stack \<Rightarrow> bool \<times> 'g node_stack" where
  "rollback_to_added_if_matches G n t expected gen working_dir s =
     (case resolve_matching_slot G s (node_key_new n t) expected of
        None \<Rightarrow> (False, s)
      | Some (_, h) \<Rightarrow>
          if generation (heap s h) \<noteq> gen \<or> \<not> is_building (heap s h) then (False, s)
          else (True, write_entity h (rollback_building_to_added working_dir (heap s h)) s))"

text \<open>\<open>reset\<close>; \<open>clear\<close> reads the root first, and a stack without one panics there.\<close>

definition stack_reset :: "'g petgraph \<Rightarrow> 'g node_stack \<Rightarrow> 'g node_stack option" where
  "stack_reset G s =
     (case stack_root G s of
        None \<Rightarrow> None
      | Some root \<Rightarrow>
          let (idx, g) = pg_add_node G root (pg_clear G (graph s))
          in Some (s\<lparr>graph := g, key_to_index := Map.empty(root_key s \<mapsto> idx),
                     pending_requirements := Map.empty, stack_pairs := [],
                     add_log_paths := Map.empty\<rparr>))"

text \<open>Dropping the stack kills the group of every process it tracks.\<close>

definition drop_stack :: "'g petgraph \<Rightarrow> 'g node_stack \<Rightarrow> world \<Rightarrow> world" where
  "drop_stack G s w =
     fold (\<lambda>h w. fold kill_group (List.map_filter pid (instances (heap s h))) w)
       (node_weights G (graph s)) w"

end
