(* ===== verification/Stack_Wiring.thy ===== *)
theory Stack_Wiring
  imports Node_Stack
begin

text \<open>
  The dependency graph of the stack against its specification. \<open>wired\<close> says that the edges are
  exactly the declared dependencies on nodes that are present, and the pending requirements exactly
  those on nodes that are absent. Every operation keeps it, so the graph never depends on the order
  in which nodes came and went.
\<close>

section \<open>The specification\<close>

definition deps :: "'g petgraph \<Rightarrow> 'g node_stack \<Rightarrow> nat \<Rightarrow> node_key set" where
  "deps G s i =
     (case node_weight G (graph s) i of
        None \<Rightarrow> {} | Some h \<Rightarrow> set (dependency_keys (ent_config (heap s h))))"

definition pend :: "'g node_stack \<Rightarrow> node_key \<Rightarrow> nat set" where
  "pend s k = (case pending_requirements s k of None \<Rightarrow> {} | Some xs \<Rightarrow> set xs)"

definition pending_nonempty :: "'g node_stack \<Rightarrow> bool" where
  "pending_nonempty s \<longleftrightarrow> (\<forall>k. pending_requirements s k \<noteq> Some [])"

definition indexed :: "'g petgraph \<Rightarrow> 'g node_stack \<Rightarrow> bool" where
  "indexed G s \<longleftrightarrow>
     (\<forall>k i. key_to_index s k = Some i \<longleftrightarrow>
        (\<exists>h. node_weight G (graph s) i = Some h \<and> key_from_entity (heap s h) = k)) \<and>
     (\<forall>i h. node_weight G (graph s) i = Some h \<longrightarrow> h < next_handle s)"

definition resolved_edges :: "'g petgraph \<Rightarrow> 'g node_stack \<Rightarrow> (nat \<times> nat) set" where
  "resolved_edges G s = {(i, j). \<exists>k\<in>deps G s i. key_to_index s k = Some j}"

definition unresolved :: "'g petgraph \<Rightarrow> 'g node_stack \<Rightarrow> node_key \<Rightarrow> nat set" where
  "unresolved G s k = (if key_to_index s k = None then {i. k \<in> deps G s i} else {})"

definition rooted :: "'g petgraph \<Rightarrow> 'g node_stack \<Rightarrow> bool" where
  "rooted G s \<longleftrightarrow> (\<exists>i. key_to_index s (root_key s) = Some i \<and> deps G s i = {})"

definition wired_nodes :: "'g petgraph \<Rightarrow> 'g node_stack \<Rightarrow> bool" where
  "wired_nodes G s \<longleftrightarrow>
     indexed G s \<and> pending_nonempty s \<and>
     edge_set G (graph s) = resolved_edges G s \<and> (\<forall>k. pend s k = unresolved G s k)"

definition wired :: "'g petgraph \<Rightarrow> 'g node_stack \<Rightarrow> bool" where
  "wired G s \<longleftrightarrow> wired_nodes G s \<and> rooted G s"

section \<open>What each operation wires\<close>

lemma indexedD:
  assumes "indexed G s"
  shows "key_to_index s k = Some i \<Longrightarrow> \<exists>h. node_weight G (graph s) i = Some h \<and> key_from_entity (heap s h) = k"
    and "node_weight G (graph s) i = Some h \<Longrightarrow> key_to_index s (key_from_entity (heap s h)) = Some i"
    and "node_weight G (graph s) i = Some h \<Longrightarrow> h < next_handle s"
    and "key_to_index s k = Some i \<Longrightarrow> node_weight G (graph s) i \<noteq> None"
  using assms unfolding indexed_def by auto

lemma indexed_inj:
  assumes "indexed G s"
  shows "key_to_index s k = Some i \<Longrightarrow> key_to_index s k' = Some i \<Longrightarrow> k = k'"
    and "node_weight G (graph s) i = Some h \<Longrightarrow> node_weight G (graph s) j = Some h \<Longrightarrow> i = j"
proof -
  show "k = k'" if "key_to_index s k = Some i" "key_to_index s k' = Some i"
    using indexedD(1) [OF assms that(1)] indexedD(1) [OF assms that(2)] by auto
  show "i = j" if "node_weight G (graph s) i = Some h" "node_weight G (graph s) j = Some h"
    using indexedD(2) [OF assms that(1)] indexedD(2) [OF assms that(2)] by simp
qed

lemma pend_clear: "pend (clear_pending_requirements_for i s) k = pend s k - {i}"
  by (auto simp: pend_def clear_pending_requirements_for_def Let_def filter_empty_conv split: option.split)

lemma pend_register: "pend (register_pending_requirement k d s) k' = pend s k' \<union> (if k' = k then {d} else {})"
  by (auto simp: pend_def register_pending_requirement_def Let_def split: option.split)

lemma pending_nonempty_clear: "pending_nonempty (clear_pending_requirements_for i s)"
  by (auto simp: pending_nonempty_def clear_pending_requirements_for_def Let_def split: option.split)

lemma pending_nonempty_register: "pending_nonempty s \<Longrightarrow> pending_nonempty (register_pending_requirement k d s)"
  by (auto simp: pending_nonempty_def register_pending_requirement_def Let_def split: option.splits)

text \<open>The parts of a stack that wiring leaves alone.\<close>

definition same_nodes :: "'g petgraph \<Rightarrow> 'g node_stack \<Rightarrow> 'g node_stack \<Rightarrow> bool" where
  "same_nodes G s s' \<longleftrightarrow>
     node_weight G (graph s') = node_weight G (graph s) \<and> key_to_index s' = key_to_index s \<and>
     heap s' = heap s \<and> next_handle s' = next_handle s \<and> root_key s' = root_key s \<and>
     stack_pairs s' = stack_pairs s \<and> add_log_paths s' = add_log_paths s"

lemma same_nodes_refl [simp]: "same_nodes G s s"
  by (simp add: same_nodes_def)

lemma same_nodes_trans: "same_nodes G s s' \<Longrightarrow> same_nodes G s' s'' \<Longrightarrow> same_nodes G s s''"
  by (simp add: same_nodes_def)

lemma same_nodes_deps: "same_nodes G s s' \<Longrightarrow> deps G s' = deps G s"
  by (rule ext) (simp add: same_nodes_def deps_def split: option.split)

lemma same_nodes_spec:
  assumes "same_nodes G s s'"
  shows "indexed G s' = indexed G s" "resolved_edges G s' = resolved_edges G s"
    "unresolved G s' = unresolved G s" "rooted G s' = rooted G s"
  using assms same_nodes_deps [OF assms]
  by (simp_all add: indexed_def resolved_edges_def unresolved_def rooted_def same_nodes_def fun_eq_iff
      cong: if_cong)

lemma same_nodes_pending: "same_nodes G s (s\<lparr>pending_requirements := p\<rparr>)"
  by (simp add: same_nodes_def)

lemma same_nodes_clear: "same_nodes G s (clear_pending_requirements_for i s)"
  by (simp add: clear_pending_requirements_for_def same_nodes_pending)

lemma same_nodes_register: "same_nodes G s (register_pending_requirement k i s)"
  by (simp add: register_pending_requirement_def same_nodes_pending Let_def)

lemma try_attach_edge_facts:
  assumes G: "stable_digraph G" and ix: "indexed G s" and i: "node_weight G (graph s) i \<noteq> None"
    and att: "try_attach_edge G i k s = (found, s')"
  shows "found = (key_to_index s k \<noteq> None)" "same_nodes G s s'"
    "edge_set G (graph s') = edge_set G (graph s) \<union> {(i, j) |j. key_to_index s k = Some j}"
    "pending_requirements s' = pending_requirements s"
proof -
  have "found = (key_to_index s k \<noteq> None) \<and> same_nodes G s s' \<and>
    edge_set G (graph s') = edge_set G (graph s) \<union> {(i, j) |j. key_to_index s k = Some j} \<and>
    pending_requirements s' = pending_requirements s"
  proof (cases "key_to_index s k")
    case None
    with att show ?thesis by (simp add: try_attach_edge_def)
  next
    case (Some j)
    then have j: "node_weight G (graph s) j \<noteq> None" by (rule indexedD(4) [OF ix])
    note add = add_edge_facts [OF G i j]
    from Some att have s': "found" "s' = (if find_edge G (graph s) i j = None
        then s\<lparr>graph := pg_add_edge G i j (graph s)\<rparr> else s)"
      by (simp_all add: try_attach_edge_def)
    show ?thesis
    proof (cases "find_edge G (graph s) i j = None")
      case True
      with s' add Some show ?thesis by (auto simp: same_nodes_def)
    next
      case False
      then have "(i, j) \<in> edge_set G (graph s)" by (simp only: stable_digraph_edges(6) [OF G] not_not)
      with s' False Some show ?thesis by auto
    qed
  qed
  then show "found = (key_to_index s k \<noteq> None)" "same_nodes G s s'"
    "edge_set G (graph s') = edge_set G (graph s) \<union> {(i, j) |j. key_to_index s k = Some j}"
    "pending_requirements s' = pending_requirements s"
    by simp_all
qed

definition attach_one :: "'g petgraph \<Rightarrow> nat \<Rightarrow> node_key \<Rightarrow> 'g node_stack \<Rightarrow> 'g node_stack" where
  "attach_one G i k s =
     (case try_attach_edge G i k s of
        (True, s') \<Rightarrow> s' | (False, s') \<Rightarrow> register_pending_requirement k i s')"

lemma attach_one_facts:
  assumes "stable_digraph G" and "indexed G s" and "node_weight G (graph s) i \<noteq> None"
  shows "same_nodes G s (attach_one G i k s)"
    "edge_set G (graph (attach_one G i k s)) =
       edge_set G (graph s) \<union> {(i, j) |j. key_to_index s k = Some j}"
    "pend (attach_one G i k s) k' = pend s k' \<union> (if k' = k \<and> key_to_index s k = None then {i} else {})"
    "pending_nonempty s \<Longrightarrow> pending_nonempty (attach_one G i k s)"
proof -
  obtain found s' where att: "try_attach_edge G i k s = (found, s')" by fastforce
  note facts = try_attach_edge_facts [OF assms att]
  have pend: "pend s' = pend s" "pending_nonempty s' = pending_nonempty s"
    using facts(4) by (simp_all add: pend_def pending_nonempty_def fun_eq_iff)
  have "same_nodes G s (attach_one G i k s) \<and>
    edge_set G (graph (attach_one G i k s)) =
       edge_set G (graph s) \<union> {(i, j) |j. key_to_index s k = Some j} \<and>
    pend (attach_one G i k s) k' = pend s k' \<union> (if k' = k \<and> key_to_index s k = None then {i} else {}) \<and>
    (pending_nonempty s \<longrightarrow> pending_nonempty (attach_one G i k s))"
  proof (cases found)
    case True
    with facts(1) obtain j where "key_to_index s k = Some j" by auto
    with True facts(2,3) pend att show ?thesis by (simp add: attach_one_def)
  next
    case False
    have graph: "graph (register_pending_requirement k i s') = graph s'"
      by (simp add: register_pending_requirement_def Let_def)
    from False have "attach_one G i k s = register_pending_requirement k i s'"
      using att by (simp add: attach_one_def)
    with False facts(1-3) pend graph show ?thesis
      using same_nodes_trans [OF facts(2) same_nodes_register]
      by (simp add: pend_register pending_nonempty_register)
  qed
  then show "same_nodes G s (attach_one G i k s)"
    "edge_set G (graph (attach_one G i k s)) =
       edge_set G (graph s) \<union> {(i, j) |j. key_to_index s k = Some j}"
    "pend (attach_one G i k s) k' = pend s k' \<union> (if k' = k \<and> key_to_index s k = None then {i} else {})"
    "pending_nonempty s \<Longrightarrow> pending_nonempty (attach_one G i k s)"
    by simp_all
qed


lemma attach_loop:
  assumes "stable_digraph G" and "indexed G s" and "node_weight G (graph s) i \<noteq> None"
    and "pending_nonempty s"
  shows "same_nodes G s (fold (attach_one G i) ks s) \<and>
    edge_set G (graph (fold (attach_one G i) ks s)) =
       edge_set G (graph s) \<union> {(i, j) |j. \<exists>k\<in>set ks. key_to_index s k = Some j} \<and>
    (\<forall>k. pend (fold (attach_one G i) ks s) k =
       pend s k \<union> (if k \<in> set ks \<and> key_to_index s k = None then {i} else {})) \<and>
    pending_nonempty (fold (attach_one G i) ks s)"
  using assms(2-)
proof (induction ks arbitrary: s)
  case (Cons k ks)
  let ?s = "attach_one G i k s"
  note one = attach_one_facts [OF assms(1) Cons.prems(1,2), of k]
  from one(1) have same: "node_weight G (graph ?s) = node_weight G (graph s)"
    "key_to_index ?s = key_to_index s" "indexed G ?s"
    using Cons.prems(1) same_nodes_spec(1) [OF one(1)] by (simp_all add: same_nodes_def)
  have "pending_nonempty ?s" using one(4) Cons.prems(3) by blast
  note rest = Cons.IH [OF same(3), unfolded same, OF Cons.prems(2) this]
  have "same_nodes G s (fold (attach_one G i) ks ?s)"
    using one(1) rest same_nodes_trans by blast
  moreover have "edge_set G (graph (fold (attach_one G i) ks ?s)) =
       edge_set G (graph s) \<union> {(i, j) |j. \<exists>k\<in>set (k # ks). key_to_index s k = Some j}"
    using rest one(2) by auto
  moreover have "pend (fold (attach_one G i) ks ?s) k' =
       pend s k' \<union> (if k' \<in> set (k # ks) \<and> key_to_index s k' = None then {i} else {})" for k'
    using rest one(3) [of k'] by auto
  ultimately show ?case using rest by simp
qed (simp add: Un_def)

lemma attach_dependencies_alt:
  assumes "node_weight G (graph s) i = Some h"
  shows "attach_dependencies G i s =
    fold (attach_one G i) (dependency_keys (ent_config (heap s h))) (clear_pending_requirements_for i s)"
  using assms by (simp add: attach_dependencies_def attach_one_def [abs_def])

text \<open>Rewiring a node replaces its edges and its pending requirements by those of its config.\<close>

lemma rewire_facts:
  assumes G: "stable_digraph G" and ix: "indexed G s" and i: "node_weight G (graph s) i = Some h"
  shows "same_nodes G s (rewire_dependencies G i s)"
    "edge_set G (graph (rewire_dependencies G i s)) =
       {(a, b) \<in> edge_set G (graph s). a \<noteq> i} \<union> {(i, j) |j. \<exists>k\<in>deps G s i. key_to_index s k = Some j}"
    "pend (rewire_dependencies G i s) k =
       pend s k - {i} \<union> (if k \<in> deps G s i \<and> key_to_index s k = None then {i} else {})"
    "pending_nonempty (rewire_dependencies G i s)"
proof -
  let ?g = "fold (pg_remove_edge G) (edges_outgoing G (graph s) i) (graph s)"
  let ?s1 = "s\<lparr>graph := ?g\<rparr>"
  let ?s2 = "clear_pending_requirements_for i ?s1"
  let ?ks = "dependency_keys (ent_config (heap s h))"
  have "same_nodes G s ?s1" by (simp add: same_nodes_def remove_edges_endpoints [OF G])
  then have same: "same_nodes G s ?s2" using same_nodes_clear same_nodes_trans by blast
  have ix2: "indexed G ?s2" using same_nodes_spec(1) [OF same] ix by simp
  have at: "node_weight G (graph ?s2) i \<noteq> None" "key_to_index ?s2 = key_to_index s"
    using same i by (simp_all add: same_nodes_def)
  have rewire: "rewire_dependencies G i s = fold (attach_one G i) ?ks ?s2"
    using i
    by (simp add: rewire_dependencies_def attach_dependencies_alt remove_edges_endpoints [OF G])
  have deps: "deps G s i = set ?ks" using i by (simp add: deps_def)
  have edges: "edge_set G (graph ?s2) = {(a, b) \<in> edge_set G (graph s). a \<noteq> i}"
    by (simp add: clear_pending_requirements_for_def remove_outgoing [OF G])
  have pend: "pend ?s2 k = pend s k - {i}" for k
    unfolding pend_clear by (simp add: pend_def)
  note loop = attach_loop [OF G ix2 at(1) pending_nonempty_clear, of ?ks, unfolded at(2) edges pend]
  show "same_nodes G s (rewire_dependencies G i s)"
    unfolding rewire by (rule same_nodes_trans [OF same loop [THEN conjunct1]])
  show "edge_set G (graph (rewire_dependencies G i s)) =
       {(a, b) \<in> edge_set G (graph s). a \<noteq> i} \<union> {(i, j) |j. \<exists>k\<in>deps G s i. key_to_index s k = Some j}"
    unfolding rewire deps by (rule loop [THEN conjunct2, THEN conjunct1])
  show "pend (rewire_dependencies G i s) k =
       pend s k - {i} \<union> (if k \<in> deps G s i \<and> key_to_index s k = None then {i} else {})"
    unfolding rewire deps by (rule loop [THEN conjunct2, THEN conjunct2, THEN conjunct1, THEN spec])
  show "pending_nonempty (rewire_dependencies G i s)"
    unfolding rewire by (rule loop [THEN conjunct2, THEN conjunct2, THEN conjunct2])
qed

text \<open>Resolving the nodes that wait for a key turns them all into edges.\<close>

lemma resolve_loop:
  assumes G: "stable_digraph G" and "indexed G s" and "key_to_index s k = Some j"
    and "\<forall>d\<in>set ds. node_weight G (graph s) d \<noteq> None"
  shows "\<exists>s'. fold (\<lambda>d (remaining, s). case try_attach_edge G d k s of
        (True, s') \<Rightarrow> (remaining, s') | (False, s') \<Rightarrow> (remaining @ [d], s')) ds ([], s) = ([], s') \<and>
      same_nodes G s s' \<and> pending_requirements s' = pending_requirements s \<and>
      edge_set G (graph s') = edge_set G (graph s) \<union> {(d, j) |d. d \<in> set ds}"
  using assms(2-)
proof (induction ds arbitrary: s)
  case (Cons d ds)
  obtain found s1 where att: "try_attach_edge G d k s = (found, s1)" by fastforce
  have "node_weight G (graph s) d \<noteq> None" using Cons.prems(3) by simp
  note one = try_attach_edge_facts [OF G Cons.prems(1) this att]
  have found: "found" using one(1) Cons.prems(2) by simp
  have next_step: "indexed G s1" "key_to_index s1 k = Some j"
    "\<forall>d\<in>set ds. node_weight G (graph s1) d \<noteq> None"
    using Cons.prems one(2) same_nodes_spec(1) [OF one(2)] by (auto simp: same_nodes_def)
  from Cons.IH [OF this] obtain s' where s':
    "fold (\<lambda>d (remaining, s). case try_attach_edge G d k s of
        (True, s') \<Rightarrow> (remaining, s') | (False, s') \<Rightarrow> (remaining @ [d], s')) ds ([], s1) = ([], s')"
    "same_nodes G s1 s'" "pending_requirements s' = pending_requirements s1"
    "edge_set G (graph s') = edge_set G (graph s1) \<union> {(d, j) |d. d \<in> set ds}"
    by blast
  have "edge_set G (graph s') = edge_set G (graph s) \<union> {(d', j) |d'. d' \<in> set (d # ds)}"
    unfolding s'(4) one(3) using Cons.prems(2) by auto
  moreover have "same_nodes G s s'" using one(2) s'(2) by (rule same_nodes_trans)
  ultimately show ?case using s'(1,3) one(4) att found by simp
qed simp

lemma resolve_facts:
  assumes G: "stable_digraph G" and ix: "indexed G s" and k: "key_to_index s k = Some j"
    and waiting: "\<forall>d\<in>pend s k. node_weight G (graph s) d \<noteq> None" and ne: "pending_nonempty s"
  shows "same_nodes G s (resolve_pending_requirements G k s)"
    "edge_set G (graph (resolve_pending_requirements G k s)) =
       edge_set G (graph s) \<union> {(d, j) |d. d \<in> pend s k}"
    "pend (resolve_pending_requirements G k s) k' = (if k' = k then {} else pend s k')"
    "pending_nonempty (resolve_pending_requirements G k s)"
proof -
  let ?r = "resolve_pending_requirements G k s"
  have "same_nodes G s ?r \<and> edge_set G (graph ?r) = edge_set G (graph s) \<union> {(d, j) |d. d \<in> pend s k} \<and>
      pend ?r k' = (if k' = k then {} else pend s k') \<and> pending_nonempty ?r"
  proof (cases "pending_requirements s k")
    case None
    then have "?r = s" "pend s k = {}" using k by (simp_all add: resolve_pending_requirements_def pend_def)
    then show ?thesis using ne by simp
  next
    case (Some ds)
    let ?s1 = "s\<lparr>pending_requirements := (pending_requirements s)(k := None)\<rparr>"
    have same1: "same_nodes G s ?s1" by (rule same_nodes_pending)
    have ds: "pend s k = set ds" using Some by (simp add: pend_def)
    have "indexed G ?s1" using same_nodes_spec(1) [OF same1] ix by simp
    moreover have "key_to_index ?s1 k = Some j" "\<forall>d\<in>set ds. node_weight G (graph ?s1) d \<noteq> None"
      using k waiting ds by simp_all
    ultimately obtain s' where s':
      "fold (\<lambda>d (remaining, s). case try_attach_edge G d k s of
        (True, s') \<Rightarrow> (remaining, s') | (False, s') \<Rightarrow> (remaining @ [d], s')) ds ([], ?s1) = ([], s')"
      "same_nodes G ?s1 s'" "pending_requirements s' = pending_requirements ?s1"
      "edge_set G (graph s') = edge_set G (graph ?s1) \<union> {(d, j) |d. d \<in> set ds}"
      using resolve_loop [OF G, of ?s1 k j ds] by blast
    have r: "?r = s'" using s'(1) Some k by (simp add: resolve_pending_requirements_def)
    have "same_nodes G s s'" using same1 s'(2) by (rule same_nodes_trans)
    with s'(3,4) ne ds show ?thesis
      unfolding r by (simp add: pend_def pending_nonempty_def)
  qed
  then show "same_nodes G s ?r" "edge_set G (graph ?r) = edge_set G (graph s) \<union> {(d, j) |d. d \<in> pend s k}"
    "pend ?r k' = (if k' = k then {} else pend s k')" "pending_nonempty ?r"
    by simp_all
qed

section \<open>Every operation keeps the wiring\<close>

lemma deps_in_graph: "k \<in> deps G s i \<Longrightarrow> node_weight G (graph s) i \<noteq> None"
  by (auto simp: deps_def split: option.splits)

text \<open>The stack with the node of \<open>e\<close> added at index \<open>i\<close> and not wired yet.\<close>

definition placed :: "'g petgraph \<Rightarrow> node_entity \<Rightarrow> 'g node_stack \<Rightarrow> 'g node_stack" where
  "placed G e s =
     s\<lparr>heap := (heap s)(next_handle s := e), next_handle := Suc (next_handle s),
       graph := snd (pg_add_node G (next_handle s) (graph s)),
       key_to_index := (key_to_index s)(key_from_entity e \<mapsto> fst (pg_add_node G (next_handle s) (graph s)))\<rparr>"

lemma insert_new_entity_alt:
  "insert_new_entity G e s =
     resolve_pending_requirements G (key_from_entity e)
       (rewire_dependencies G (fst (pg_add_node G (next_handle s) (graph s))) (placed G e s))"
  by (simp add: insert_new_entity_def new_handle_def placed_def Let_def case_prod_beta)

lemma placed_facts:
  assumes G: "stable_digraph G" and ix: "indexed G s" and new: "key_to_index s (key_from_entity e) = None"
  defines "i \<equiv> fst (pg_add_node G (next_handle s) (graph s))"
  shows "node_weight G (graph s) i = None"
    "node_weight G (graph (placed G e s)) = (node_weight G (graph s))(i \<mapsto> next_handle s)"
    "key_to_index (placed G e s) = (key_to_index s)(key_from_entity e \<mapsto> i)"
    "edge_set G (graph (placed G e s)) = edge_set G (graph s)"
    "pend (placed G e s) = pend s"
    "deps G (placed G e s) a = (if a = i then set (dependency_keys (ent_config e)) else deps G s a)"
    "indexed G (placed G e s)"
proof -
  note nodes = stable_digraph_nodes [OF G]
  show fresh: "node_weight G (graph s) i = None" unfolding i_def by (rule nodes(3))
  show w: "node_weight G (graph (placed G e s)) = (node_weight G (graph s))(i \<mapsto> next_handle s)"
    by (simp add: placed_def nodes(4) i_def)
  show k: "key_to_index (placed G e s) = (key_to_index s)(key_from_entity e \<mapsto> i)"
    by (simp add: placed_def i_def)
  show "edge_set G (graph (placed G e s)) = edge_set G (graph s)"
    by (simp add: placed_def stable_digraph_edges(3) [OF G])
  show "pend (placed G e s) = pend s" by (simp add: placed_def pend_def fun_eq_iff)
  have h: "heap (placed G e s) = (heap s)(next_handle s := e)" "next_handle (placed G e s) = Suc (next_handle s)"
    by (simp_all add: placed_def)
  have old: "h \<noteq> next_handle s" if "node_weight G (graph s) a = Some h" for a h
    using indexedD(3) [OF ix that] by simp
  show "deps G (placed G e s) a = (if a = i then set (dependency_keys (ent_config e)) else deps G s a)"
    using old by (auto simp: deps_def w h split: option.splits)
  have unused: "key_to_index s k' \<noteq> Some i" for k' using indexedD(4) [OF ix, of k' i] fresh by auto
  have "key_to_index (placed G e s) k' = Some a \<longleftrightarrow>
      (\<exists>h. node_weight G (graph (placed G e s)) a = Some h \<and> key_from_entity (heap (placed G e s) h) = k')"
    for k' a
  proof (cases "a = i")
    case True
    then show ?thesis using unused by (auto simp: w k h)
  next
    case False
    have "(\<exists>h. node_weight G (graph s) a = Some h \<and> key_from_entity (heap (placed G e s) h) = k') \<longleftrightarrow>
        (\<exists>h. node_weight G (graph s) a = Some h \<and> key_from_entity (heap s h) = k')"
      using old by (auto simp: h)
    also have "\<dots> \<longleftrightarrow> key_to_index s k' = Some a" using ix unfolding indexed_def by blast
    also have "\<dots> \<longleftrightarrow> key_to_index (placed G e s) k' = Some a" using new False by (auto simp: k)
    finally show ?thesis using False by (simp add: w)
  qed
  moreover have "h' < next_handle (placed G e s)" if "node_weight G (graph (placed G e s)) a = Some h'" for a h'
    using that indexedD(3) [OF ix, of a h'] by (auto simp: w h split: if_splits)
  ultimately show "indexed G (placed G e s)" unfolding indexed_def by blast
qed

lemma bex_fresh_upd:
  "m k = None \<Longrightarrow> (\<exists>k'\<in>D. (m(k \<mapsto> i)) k' = Some j) \<longleftrightarrow> (k \<in> D \<and> j = i) \<or> (\<exists>k'\<in>D. m k' = Some j)"
proof -
  assume "m k = None"
  then have "(m(k \<mapsto> i)) k' = Some j \<longleftrightarrow> (k' = k \<and> j = i) \<or> m k' = Some j" for k' by auto
  then show ?thesis by (simp only:) blast
qed

lemma insert_new_entity_wired:
  assumes G: "stable_digraph G" and wired: "wired_nodes G s" and new: "key_to_index s (key_from_entity e) = None"
  shows "same_nodes G (placed G e s) (insert_new_entity G e s)"
    and "wired_nodes G (insert_new_entity G e s)"
proof -
  let ?k = "key_from_entity e"
  let ?i = "fst (pg_add_node G (next_handle s) (graph s))"
  let ?s2 = "placed G e s"
  let ?s3 = "rewire_dependencies G ?i ?s2"
  from wired have ix: "indexed G s" and edges: "edge_set G (graph s) = resolved_edges G s"
    and pend: "\<And>k. pend s k = unresolved G s k" by (simp_all add: wired_nodes_def)
  note p = placed_facts [OF G ix new]
  have at: "node_weight G (graph ?s2) ?i = Some (next_handle s)" by (simp add: p(2))
  note r = rewire_facts [OF G p(7) at]
  have same3: "node_weight G (graph ?s3) = node_weight G (graph ?s2)" "key_to_index ?s3 = key_to_index ?s2"
    "indexed G ?s3"
    using r(1) p(7) same_nodes_spec(1) [OF r(1)] by (simp_all add: same_nodes_def)
  have k3: "key_to_index ?s3 ?k = Some ?i" by (simp add: same3 p(3))
  have pend3: "pend ?s3 k = pend s k - {?i} \<union>
      (if k \<in> deps G ?s2 ?i \<and> key_to_index ?s2 k = None then {?i} else {})" for k
    using r(3) [of k] by (simp add: p(5))
  have waiting: "\<forall>d\<in>pend ?s3 ?k. node_weight G (graph ?s3) d \<noteq> None"
    using deps_in_graph [of ?k G s]
    by (auto simp: pend3 pend unresolved_def same3 p(2,3) new split: if_splits)
  note f = resolve_facts [OF G same3(3) k3 waiting r(4)]
  show same: "same_nodes G ?s2 (insert_new_entity G e s)"
    unfolding insert_new_entity_alt using r(1) f(1) by (rule same_nodes_trans)
  have deps_i: "deps G s ?i = {}" using p(1) by (simp add: deps_def)
  note bex = bex_fresh_upd [of "key_to_index s" ?k, OF new]
  have "(a, b) \<in> edge_set G (graph (insert_new_entity G e s)) \<longleftrightarrow> (a, b) \<in> resolved_edges G ?s2" for a b
  proof (cases "a = ?i")
    case True
    then show ?thesis
      unfolding insert_new_entity_alt f(2) r(2) resolved_edges_def pend3
      by (simp add: p(3))
  next
    case False
    have "(a, b) \<in> resolved_edges G ?s2 \<longleftrightarrow> (?k \<in> deps G s a \<and> b = ?i) \<or> (\<exists>k\<in>deps G s a. key_to_index s k = Some b)"
      using False by (simp only: resolved_edges_def p(3,6) mem_Collect_eq case_prod_conv bex if_False)
    moreover have "(a, b) \<in> edge_set G (graph (insert_new_entity G e s)) \<longleftrightarrow>
        (\<exists>k\<in>deps G s a. key_to_index s k = Some b) \<or> (b = ?i \<and> a \<in> pend s ?k)"
      unfolding insert_new_entity_alt f(2) r(2) pend3 p(4) edges resolved_edges_def
      using False by (auto simp: p(3))
    ultimately show ?thesis using new by (auto simp: pend unresolved_def)
  qed
  then have "edge_set G (graph (insert_new_entity G e s)) = resolved_edges G ?s2" by auto
  moreover have "pend (insert_new_entity G e s) k = unresolved G ?s2 k" for k
    unfolding insert_new_entity_alt f(3) pend3 p(3,6) unresolved_def
    using new deps_i by (auto simp: pend unresolved_def p(6))
  ultimately show "wired_nodes G (insert_new_entity G e s)"
    unfolding wired_nodes_def same_nodes_spec [OF same] using p(7) f(4)
    by (simp add: insert_new_entity_alt)
qed


lemma write_entity_frame:
  "graph (write_entity h e s) = graph s" "key_to_index (write_entity h e s) = key_to_index s"
  "pending_requirements (write_entity h e s) = pending_requirements s" "root_key (write_entity h e s) = root_key s"
  "next_handle (write_entity h e s) = next_handle s" "pend (write_entity h e s) = pend s"
  "pending_nonempty (write_entity h e s) = pending_nonempty s"
  "stack_pairs (write_entity h e s) = stack_pairs s" "add_log_paths (write_entity h e s) = add_log_paths s"
  by (simp_all add: write_entity_def pend_def pending_nonempty_def fun_eq_iff)

lemma write_entity_indexed:
  assumes "indexed G s" and "key_from_entity e = key_from_entity (heap s h)"
  shows "indexed G (write_entity h e s)"
proof -
  have "key_from_entity (heap (write_entity h e s) h') = key_from_entity (heap s h')" for h'
    using assms(2) by (simp add: write_entity_def)
  with assms(1) show ?thesis by (simp add: indexed_def write_entity_frame)
qed

text \<open>An edit of an entity that keeps its config: every lock section of \<open>Node_Entity\<close> is one.\<close>

lemma write_entity_same_config:
  assumes "ent_config e = ent_config (heap s h)"
  shows "wired G (write_entity h e s) = wired G s"
proof -
  have key: "key_from_entity e = key_from_entity (heap s h)" using assms by (simp add: key_from_entity_def)
  have keys: "key_from_entity (heap (write_entity h e s) h') = key_from_entity (heap s h')" for h'
    using key by (simp add: write_entity_def)
  have "deps G (write_entity h e s) = deps G s"
    using assms by (auto simp: deps_def write_entity_def fun_eq_iff split: option.split)
  then show ?thesis
    by (simp add: wired_def wired_nodes_def indexed_def keys write_entity_frame resolved_edges_def
        unresolved_def rooted_def)
qed

lemma replaced_deps:
  assumes "indexed G s" and "node_weight G (graph s) i = Some h"
  shows "deps G (write_entity h e s) a = (if a = i then set (dependency_keys (ent_config e)) else deps G s a)"
proof (cases "a = i")
  case True
  with assms(2) show ?thesis by (simp add: deps_def write_entity_def)
next
  case False
  with indexed_inj(2) [OF assms(1), of i h a] assms(2) have "node_weight G (graph s) a \<noteq> Some h"
    by blast
  with False show ?thesis
    by (cases "node_weight G (graph s) a") (simp_all add: deps_def write_entity_def)
qed

lemma replace_wired:
  assumes G: "stable_digraph G" and wired: "wired_nodes G s" and i: "node_weight G (graph s) i = Some h"
    and key: "key_from_entity e = key_from_entity (heap s h)"
  shows "wired_nodes G (rewire_dependencies G i (write_entity h e s))"
proof -
  let ?s1 = "write_entity h e s"
  from wired have ix: "indexed G s" and edges: "edge_set G (graph s) = resolved_edges G s"
    and pend: "\<And>k. pend s k = unresolved G s k" by (simp_all add: wired_nodes_def)
  have ix1: "indexed G ?s1" using ix key by (rule write_entity_indexed)
  have i1: "node_weight G (graph ?s1) i = Some h" by (simp add: write_entity_frame i)
  note r = rewire_facts [OF G ix1 i1, unfolded write_entity_frame]
  note d = replaced_deps [OF ix i, of e]
  have "(a, b) \<in> edge_set G (graph (rewire_dependencies G i ?s1)) \<longleftrightarrow> (a, b) \<in> resolved_edges G ?s1" for a b
    unfolding r(2) edges resolved_edges_def write_entity_frame d by (cases "a = i") simp_all
  then have "edge_set G (graph (rewire_dependencies G i ?s1)) = resolved_edges G ?s1" by auto
  moreover have "a \<in> pend (rewire_dependencies G i ?s1) k \<longleftrightarrow> a \<in> unresolved G ?s1 k" for a k
    unfolding r(3) pend unresolved_def write_entity_frame d
    by (cases "a = i"; cases "key_to_index s k") simp_all
  then have "pend (rewire_dependencies G i ?s1) k = unresolved G ?s1 k" for k by blast
  ultimately show ?thesis
    unfolding wired_nodes_def same_nodes_spec [OF r(1)] using ix1 r(4) by simp
qed

lemma register_all:
  "same_nodes G s (fold (register_pending_requirement k) ds s)"
  "graph (fold (register_pending_requirement k) ds s) = graph s"
  "pend (fold (register_pending_requirement k) ds s) k' = pend s k' \<union> (if k' = k then set ds else {})"
  "pending_nonempty s \<Longrightarrow> pending_nonempty (fold (register_pending_requirement k) ds s)"
proof (induction ds arbitrary: s)
  case (Cons d ds)
  {
    case 1
    show ?case using Cons.IH(1) same_nodes_register same_nodes_trans by (metis fold_simps(2))
  next
    case 2
    show ?case using Cons.IH(2) by (simp add: register_pending_requirement_def Let_def)
  next
    case 3
    show ?case by (auto simp: Cons.IH(3) pend_register)
  next
    case 4
    then show ?case by (simp add: Cons.IH(4) pending_nonempty_register)
  }
qed simp_all

lemma remove_entity_wired:
  assumes G: "stable_digraph G" and wired: "wired_nodes G s"
  shows "wired_nodes G (remove_entity G k s)"
    and "key_to_index (remove_entity G k s) = (key_to_index s)(k := None)"
    and "heap (remove_entity G k s) = heap s" "root_key (remove_entity G k s) = root_key s"
    and "key_to_index s k' = Some i \<Longrightarrow> k' \<noteq> k \<Longrightarrow> deps G (remove_entity G k s) i = deps G s i"
    and "key_to_index s k' = Some i \<Longrightarrow> k' \<noteq> k \<Longrightarrow>
      node_weight G (graph (remove_entity G k s)) i = node_weight G (graph s) i"
proof -
  have "wired_nodes G (remove_entity G k s) \<and>
    key_to_index (remove_entity G k s) = (key_to_index s)(k := None) \<and>
    heap (remove_entity G k s) = heap s \<and> root_key (remove_entity G k s) = root_key s \<and>
    (\<forall>k' i. key_to_index s k' = Some i \<longrightarrow> k' \<noteq> k \<longrightarrow>
       deps G (remove_entity G k s) i = deps G s i \<and>
       node_weight G (graph (remove_entity G k s)) i = node_weight G (graph s) i)"
  proof (cases "key_to_index s k")
    case None
    with wired show ?thesis by (auto simp: remove_entity_def)
  next
    case (Some i)
    let ?ds = "filter (\<lambda>d. d \<noteq> i) (neighbors_incoming G (graph s) i)"
    let ?s1 = "s\<lparr>key_to_index := (key_to_index s)(k := None), graph := pg_remove_node G i (graph s)\<rparr>"
    let ?s2 = "clear_pending_requirements_for i ?s1"
    from wired have ix: "indexed G s" and edges: "edge_set G (graph s) = resolved_edges G s"
      and pend: "\<And>k. pend s k = unresolved G s k" by (simp_all add: wired_nodes_def)
    have r: "remove_entity G k s = fold (register_pending_requirement k) ?ds ?s2"
      using Some by (simp add: remove_entity_def)
    have same: "same_nodes G ?s1 (remove_entity G k s)"
      unfolding r by (rule same_nodes_trans [OF same_nodes_clear register_all(1)])
    have w1: "node_weight G (graph ?s1) = (node_weight G (graph s))(i := None)"
      by (simp add: stable_digraph_nodes(5) [OF G])
    have d1: "deps G ?s1 a = (if a = i then {} else deps G s a)" for a
      using w1 by (simp add: deps_def split: option.split)
    have only: "key_to_index s k' = Some i \<longleftrightarrow> k' = k" for k'
      using Some indexed_inj(1) [OF ix] by blast
    have at_key: "(\<exists>h. node_weight G (graph s) a = Some h \<and> key_from_entity (heap s h) = k') \<longleftrightarrow>
        key_to_index s k' = Some a" for a k'
      using ix unfolding indexed_def by blast
    have "key_to_index ?s1 k' = Some a \<longleftrightarrow>
        (\<exists>h. node_weight G (graph ?s1) a = Some h \<and> key_from_entity (heap ?s1 h) = k')" for k' a
      using only [of k'] at_key [of a k'] Some unfolding w1 by (cases "a = i"; cases "k' = k") simp_all
    moreover have "h < next_handle ?s1" if "node_weight G (graph ?s1) a = Some h" for a h
      using that indexedD(3) [OF ix, of a h] unfolding w1 by (cases "a = i") simp_all
    ultimately have ix1: "indexed G ?s1" unfolding indexed_def by blast
    have upd: "key_to_index ?s1 k' = Some b \<longleftrightarrow> b \<noteq> i \<and> key_to_index s k' = Some b" for k' b
      using only [of k'] Some by (cases "k' = k") auto
    have g: "edge_set G (graph (remove_entity G k s)) = {(a, b) \<in> edge_set G (graph s). a \<noteq> i \<and> b \<noteq> i}"
      unfolding r register_all(2) clear_pending_requirements_for_def
      by (simp add: stable_digraph_edges(4) [OF G])
    have "(a, b) \<in> edge_set G (graph (remove_entity G k s)) \<longleftrightarrow> (a, b) \<in> resolved_edges G ?s1" for a b
      unfolding g edges resolved_edges_def d1 upd by (cases "a = i"; cases "b = i") simp_all
    then have e1: "edge_set G (graph (remove_entity G k s)) = resolved_edges G ?s1" by auto
    have "set ?ds = {a. a \<noteq> i \<and> k \<in> deps G s a}"
      unfolding set_filter stable_digraph_edges(5) [OF G] edges resolved_edges_def
      by (simp add: only conj_commute)
    then have "pend (remove_entity G k s) k' = pend s k' - {i} \<union> (if k' = k then {a. a \<noteq> i \<and> k \<in> deps G s a} else {})" for k'
      unfolding r register_all(3) pend_clear by (simp add: pend_def)
    then have "a \<in> pend (remove_entity G k s) k' \<longleftrightarrow> a \<in> unresolved G ?s1 k'" for a k'
      using Some unfolding pend unresolved_def d1 by (cases "a = i"; cases "k' = k") simp_all
    then have p1: "pend (remove_entity G k s) k' = unresolved G ?s1 k'" for k' by blast
    have "pending_nonempty (remove_entity G k s)"
      unfolding r by (rule register_all(4) [OF pending_nonempty_clear])
    with ix1 e1 p1 have "wired_nodes G (remove_entity G k s)"
      unfolding wired_nodes_def same_nodes_spec [OF same] by blast
    moreover have "deps G (remove_entity G k s) a = deps G s a \<and>
        node_weight G (graph (remove_entity G k s)) a = node_weight G (graph s) a"
      if "key_to_index s k' = Some a" "k' \<noteq> k" for k' a
    proof -
      have "a \<noteq> i" using that only by blast
      moreover have "node_weight G (graph (remove_entity G k s)) = (node_weight G (graph s))(i := None)"
        using same w1 by (simp only: same_nodes_def)
      ultimately show ?thesis unfolding same_nodes_deps [OF same] d1 by simp
    qed
    ultimately show ?thesis using same by (simp add: same_nodes_def)
  qed
  then show "wired_nodes G (remove_entity G k s)" "key_to_index (remove_entity G k s) = (key_to_index s)(k := None)"
    "heap (remove_entity G k s) = heap s" "root_key (remove_entity G k s) = root_key s"
    "key_to_index s k' = Some i \<Longrightarrow> k' \<noteq> k \<Longrightarrow> deps G (remove_entity G k s) i = deps G s i"
    "key_to_index s k' = Some i \<Longrightarrow> k' \<noteq> k \<Longrightarrow>
      node_weight G (graph (remove_entity G k s)) i = node_weight G (graph s) i"
    by simp_all
qed


section \<open>Runs of the stack\<close>

text \<open>
  One rule for each call that changes the stack. \<open>edit\<close> stands for every lock section of an entity
  reached through its handle, in the graph or no longer in it: such a section keeps the config.
\<close>

inductive stack_step :: "'g petgraph \<Rightarrow> scc_algorithm \<Rightarrow> 'g node_stack \<Rightarrow> 'g node_stack \<Rightarrow> bool"
  for G scc where
  push: "stack_step G scc s (snd (push_entity G scc e allow s))"
| remove: "stack_step G scc s (snd (remove_config G n t s))"
| remove_matching: "stack_step G scc s (snd (remove_config_if_matches G n t h gen s))"
| rollback: "stack_step G scc s (snd (rollback_to_added_if_matches G n t h gen dir s))"
| reset: "stack_reset G s = Some s' \<Longrightarrow> stack_step G scc s s'"
| edit: "ent_config e = ent_config (heap s h) \<Longrightarrow> stack_step G scc s (write_entity h e s)"
| pair: "stack_step G scc s (s\<lparr>stack_pairs := ps\<rparr>)"
| log_path: "stack_step G scc s (s\<lparr>add_log_paths := m\<rparr>)"

text \<open>A stack starts from a root that depends on no node.\<close>

inductive stack_run :: "'g petgraph \<Rightarrow> scc_algorithm \<Rightarrow> 'g node_stack \<Rightarrow> bool"
  for G scc where
  start: "inner_new G scc root = Some s \<Longrightarrow> dependency_keys (ent_config root) = [] \<Longrightarrow> stack_run G scc s"
| step: "stack_run G scc s \<Longrightarrow> stack_step G scc s s' \<Longrightarrow> stack_run G scc s'"

lemma empty_inner_wired: "stable_digraph G \<Longrightarrow> wired_nodes G (empty_inner G root)"
  by (simp add: wired_nodes_def indexed_def empty_inner_def pending_nonempty_def resolved_edges_def
      unresolved_def deps_def pend_def stable_digraph_nodes stable_digraph_edges)

lemma wiredD: "wired G s \<Longrightarrow> wired_nodes G s" "wired G s \<Longrightarrow> rooted G s" "wired G s \<Longrightarrow> indexed G s"
  by (simp_all add: wired_def wired_nodes_def)

lemma inner_new_wired:
  assumes G: "stable_digraph G" and new: "inner_new G scc root = Some s"
    and "dependency_keys (ent_config root) = []"
  shows "wired G s"
proof -
  let ?s0 = "empty_inner G root"
  let ?i = "fst (pg_add_node G (next_handle ?s0) (graph ?s0))"
  have s: "s = insert_new_entity G root ?s0"
    using new by (simp add: inner_new_def split: sum.splits)
  have none: "key_to_index ?s0 (key_from_entity root) = None" by (simp add: empty_inner_def)
  have w0: "wired_nodes G ?s0" using G by (rule empty_inner_wired)
  then have ix: "indexed G ?s0" by (simp add: wired_nodes_def)
  note ins = insert_new_entity_wired [OF G w0 none]
  note p = placed_facts [OF G ix none]
  have "rooted G (placed G root ?s0)"
    unfolding rooted_def p(3,6)
    using assms(3) by (intro exI [of _ ?i]) (simp add: placed_def empty_inner_def)
  with ins show ?thesis unfolding wired_def s same_nodes_spec(4) [OF ins(1)] by blast
qed

lemma insert_rooted:
  assumes G: "stable_digraph G" and w: "wired G s" and new: "key_to_index s (key_from_entity e) = None"
  shows "wired G (insert_new_entity G e s)"
proof -
  note ins = insert_new_entity_wired [OF G wiredD(1) [OF w] new]
  note p = placed_facts [OF G wiredD(3) [OF w] new]
  obtain r where r: "key_to_index s (root_key s) = Some r" "deps G s r = {}"
    using wiredD(2) [OF w] by (auto simp: rooted_def)
  then have "node_weight G (graph s) r \<noteq> None" using indexedD(4) [OF wiredD(3) [OF w]] by blast
  with p(1) have "r \<noteq> fst (pg_add_node G (next_handle s) (graph s))" by auto
  moreover have "root_key s \<noteq> key_from_entity e" using r new by auto
  moreover have "root_key (placed G e s) = root_key s" by (simp add: placed_def)
  ultimately have "rooted G (placed G e s)" unfolding rooted_def p(3,6) using r by simp
  with ins show ?thesis unfolding wired_def same_nodes_spec(4) [OF ins(1)] by blast
qed

lemma replaced_rooted:
  assumes w: "wired G s" and i: "node_weight G (graph s) i = Some h"
    and k: "key_to_index s k = Some i" "\<not> is_root s k"
  shows "rooted G (write_entity h e s)"
proof -
  obtain r where r: "key_to_index s (root_key s) = Some r" "deps G s r = {}"
    using wiredD(2) [OF w] by (auto simp: rooted_def)
  have "r \<noteq> i" using indexed_inj(1) [OF wiredD(3) [OF w] r(1)] k by (auto simp: is_root_def)
  then have "deps G (write_entity h e s) r = {}"
    using replaced_deps [OF wiredD(3) [OF w] i, of e r] r(2) by simp
  with r(1) show ?thesis by (auto simp: rooted_def write_entity_frame)
qed

lemma push_branches:
  "(r, s') = (if A then (Inl x, s) else if B then (Inl y, s)
     else case v of Inl err \<Rightarrow> (Inl err, s) | Inr _ \<Rightarrow> (Inr (), new)) \<Longrightarrow>
   (\<exists>err. r = Inl err \<and> s' = s) \<or> (\<not> A \<and> r = Inr () \<and> s' = new)"
  by (cases A; cases B; cases v) auto

text \<open>The outcomes of a push.\<close>

lemma push_entity_cases:
  assumes "push_entity G scc e allow s = (r, s')"
  obtains (refused) err where "r = Inl err" "s' = s"
  | (inserted) "r = Inr ()" "\<not> is_root s (key_from_entity e)" "key_to_index s (key_from_entity e) = None"
      "validate_candidate G scc s e allow = Inr ()" "s' = insert_new_entity G e s"
  | (dangling) i where "r = Inr ()" "key_to_index s (key_from_entity e) = Some i"
      "node_weight G (graph s) i = None" "s' = s"
  | (replaced) i h where "r = Inr ()" "\<not> is_root s (key_from_entity e)"
      "key_to_index s (key_from_entity e) = Some i" "node_weight G (graph s) i = Some h"
      "instances (heap s h) = []"
      "s' = (if nc_interfaces (ent_config (heap s h)) \<noteq> nc_interfaces (ent_config e) \<or>
                dependency_keys (ent_config (heap s h)) \<noteq> dependency_keys (ent_config e)
             then rewire_dependencies G i (write_entity h e s) else write_entity h e s)"
proof (cases "is_root s (key_from_entity e)")
  case True
  with assms have "r = Inl CannotModifyRootNode \<and> s' = s" by (auto simp: push_entity_def Let_def)
  with refused show thesis by blast
next
  case nonroot: False
  show thesis
  proof (cases "key_to_index s (key_from_entity e)")
    case None
    show thesis
    proof (cases "validate_candidate G scc s e allow")
      case (Inl err)
      with nonroot None assms have "r = Inl err \<and> s' = s" by (simp add: push_entity_def Let_def)
      with refused show thesis by blast
    next
      case (Inr u)
      with nonroot None assms have "r = Inr () \<and> s' = insert_new_entity G e s"
        by (simp add: push_entity_def Let_def)
      with inserted nonroot None Inr show thesis by simp
    qed
  next
    case index: (Some i)
    show thesis
    proof (cases "node_weight G (graph s) i")
      case None
      with nonroot index assms have "r = Inr () \<and> s' = s" by (simp add: push_entity_def Let_def)
      with dangling index None show thesis by blast
    next
      case (Some h)
      let ?ifs = "nc_interfaces (ent_config (heap s h)) \<noteq> nc_interfaces (ent_config e)"
      let ?needs = "?ifs \<or> dependency_keys (ent_config (heap s h)) \<noteq> dependency_keys (ent_config e)"
      let ?v = "if ?needs then validate_candidate G scc s e allow else Inr ()"
      let ?new = "if ?needs then rewire_dependencies G i (write_entity h e s) else write_entity h e s"
      have push: "(r, s') = (if instances (heap s h) \<noteq> []
          then (Inl (CannotOverwriteNodeWithLiveInstances (nk_name (key_from_entity e)) (nk_tag (key_from_entity e))), s)
          else if ?ifs \<and> has_dependents G s i (key_from_entity e)
          then (Inl (CannotOverwriteNodeWithDependents (nk_name (key_from_entity e)) (nk_tag (key_from_entity e))), s)
          else case ?v of Inl err \<Rightarrow> (Inl err, s) | Inr _ \<Rightarrow> (Inr (), ?new))"
        unfolding assms [symmetric] push_entity_def Let_def using nonroot index Some
        by (simp only: if_False option.case)
      from push_branches [OF this] show thesis
        using refused replaced [OF _ nonroot index Some] by blast
    qed
  qed
qed

lemma push_entity_wired:
  assumes G: "stable_digraph G" and w: "wired G s"
  shows "wired G (snd (push_entity G scc e allow s))"
proof -
  obtain r s' where push: "push_entity G scc e allow s = (r, s')" by fastforce
  from push have "wired G s'"
  proof (cases rule: push_entity_cases)
    case inserted
    then show ?thesis using insert_rooted [OF G w] by simp
  next
    case (replaced i h)
    have key: "key_from_entity e = key_from_entity (heap s h)"
      using indexedD(1) [OF wiredD(3) [OF w] replaced(3)] replaced(4) by auto
    have root: "rooted G (write_entity h e s)" by (rule replaced_rooted [OF w replaced(4,3,2)])
    have ix1: "indexed G (write_entity h e s)"
      using wiredD(3) [OF w] key by (rule write_entity_indexed)
    have h1: "node_weight G (graph (write_entity h e s)) i = Some h"
      by (simp add: write_entity_frame replaced(4))
    have rewired: "wired G (rewire_dependencies G i (write_entity h e s))"
      using replace_wired [OF G wiredD(1) [OF w] replaced(4) key] root
        same_nodes_spec(4) [OF rewire_facts(1) [OF G ix1 h1]]
      by (simp add: wired_def)
    have kept: "wired G (write_entity h e s)"
      if "dependency_keys (ent_config (heap s h)) = dependency_keys (ent_config e)"
    proof -
      have "deps G (write_entity h e s) a = deps G s a" for a
        using that replaced(4) replaced_deps [OF wiredD(3) [OF w] replaced(4), of e a]
        by (simp add: deps_def)
      then have "deps G (write_entity h e s) = deps G s" by blast
      then show ?thesis
        using w ix1 root unfolding wired_def wired_nodes_def resolved_edges_def unresolved_def
        by (simp add: write_entity_frame)
    qed
    show ?thesis using rewired kept by (simp add: replaced(6))
  qed (use w in simp_all)
  with push show ?thesis by simp
qed


lemma other_fields_wired:
  "wired G (s\<lparr>stack_pairs := ps\<rparr>) = wired G s" "wired G (s\<lparr>add_log_paths := m\<rparr>) = wired G s"
proof -
  have "deps G (s\<lparr>stack_pairs := ps\<rparr>) = deps G s" "deps G (s\<lparr>add_log_paths := m\<rparr>) = deps G s"
    by (simp_all add: deps_def fun_eq_iff split: option.split)
  then show "wired G (s\<lparr>stack_pairs := ps\<rparr>) = wired G s" "wired G (s\<lparr>add_log_paths := m\<rparr>) = wired G s"
    by (simp_all add: wired_def wired_nodes_def rooted_def indexed_def resolved_edges_def unresolved_def
        pend_def pending_nonempty_def)
qed

lemma remove_entity_rooted:
  assumes G: "stable_digraph G" and w: "wired G s" and k: "\<not> is_root s k"
  shows "wired G (remove_entity G k s)"
proof -
  obtain r where r: "key_to_index s (root_key s) = Some r" "deps G s r = {}"
    using wiredD(2) [OF w] by (auto simp: rooted_def)
  note rm = remove_entity_wired [OF G wiredD(1) [OF w], where k = k]
  have "root_key s \<noteq> k" using k by (simp add: is_root_def)
  with rm(2,4) rm(5) [OF r(1)] r have "rooted G (remove_entity G k s)" by (simp add: rooted_def)
  with rm(1) show ?thesis by (simp add: wired_def)
qed

lemma reset_wired:
  assumes G: "stable_digraph G" and w: "wired G s" and reset: "stack_reset G s = Some s'"
  shows "wired G s'"
proof -
  let ?g = "pg_clear G (graph s)"
  from reset obtain h where h: "stack_root G s = Some h"
    and s': "s' = s\<lparr>graph := snd (pg_add_node G h ?g),
        key_to_index := Map.empty(root_key s \<mapsto> fst (pg_add_node G h ?g)),
        pending_requirements := Map.empty, stack_pairs := [], add_log_paths := Map.empty\<rparr>"
    by (auto simp: stack_reset_def Let_def case_prod_beta split: option.splits)
  obtain r where r: "key_to_index s (root_key s) = Some r" "deps G s r = {}"
    using wiredD(2) [OF w] by (auto simp: rooted_def)
  with h have weight: "node_weight G (graph s) r = Some h"
    by (simp add: stack_root_def stack_find_def)
  have key: "key_from_entity (heap s h) = root_key s" "h < next_handle s"
    using indexedD [OF wiredD(3) [OF w]] r(1) weight by force+
  let ?i = "fst (pg_add_node G h ?g)"
  have nw: "node_weight G (graph s') = [?i \<mapsto> h]"
    by (simp add: s' stable_digraph_nodes [OF G])
  have es: "edge_set G (graph s') = {}" by (simp add: s' stable_digraph_edges [OF G])
  have ds: "deps G s' a = {}" for a
    using r(2) weight by (simp add: deps_def nw) (simp add: s')
  have rest: "key_to_index s' = [root_key s \<mapsto> ?i]" "heap s' = heap s" "next_handle s' = next_handle s"
    "root_key s' = root_key s" "pending_requirements s' = Map.empty"
    by (simp_all add: s')
  show ?thesis
    unfolding wired_def wired_nodes_def indexed_def resolved_edges_def unresolved_def rooted_def
      pend_def pending_nonempty_def nw es ds rest
    using key by auto
qed

lemma stack_step_wired:
  assumes G: "stable_digraph G"
  shows "stack_step G scc s s' \<Longrightarrow> wired G s \<Longrightarrow> wired G s'"
proof (induction rule: stack_step.induct)
  case (push s e allow)
  then show ?case by (rule push_entity_wired [OF G])
next
  case (remove s n t)
  then show ?case
    using remove_entity_rooted [OF G]
    by (simp add: remove_config_def Let_def other_fields_wired split: option.split)
next
  case (remove_matching s n t h gen)
  then show ?case
    using remove_entity_rooted [OF G, of s "node_key_new n t"]
    by (auto simp: remove_config_if_matches_def resolve_matching_slot_def Let_def other_fields_wired
        split: option.splits if_splits)
next
  case (rollback s n t h gen dir)
  have "ent_config (rollback_building_to_added dir (heap s h')) = ent_config (heap s h')" for h'
    by (simp add: rollback_building_to_added_def broadcast_stage_def split: node_stage.split)
  with rollback show ?case
    by (auto simp: rollback_to_added_if_matches_def write_entity_same_config split: option.split)
next
  case (reset s s')
  from reset.prems reset.hyps show ?case by (rule reset_wired [OF G])
next
  case (edit e s h)
  then show ?case by (simp add: write_entity_same_config)
qed (simp_all add: other_fields_wired)

lemma stack_run_wired:
  assumes "stable_digraph G"
  shows "stack_run G scc s \<Longrightarrow> wired G s"
proof (induction rule: stack_run.induct)
  case (start root s)
  then show ?case by (rule inner_new_wired [OF assms])
next
  case (step s s')
  then show ?case using stack_step_wired [OF assms] by blast
qed

section \<open>The graph by keys\<close>

definition config_at :: "'g petgraph \<Rightarrow> 'g node_stack \<Rightarrow> node_key \<Rightarrow> node_config option" where
  "config_at G s k = map_option (\<lambda>h. ent_config (heap s h)) (stack_find G s k)"

text \<open>The edges and the waiting nodes, by the keys of the nodes.\<close>

definition key_edges :: "'g petgraph \<Rightarrow> 'g node_stack \<Rightarrow> (node_key \<times> node_key) set" where
  "key_edges G s =
     {(k, k'). \<exists>i j. key_to_index s k = Some i \<and> key_to_index s k' = Some j \<and> (i, j) \<in> edge_set G (graph s)}"

definition waiting_for :: "'g node_stack \<Rightarrow> node_key \<Rightarrow> node_key set" where
  "waiting_for s k' = {k. \<exists>i\<in>pend s k'. key_to_index s k = Some i}"

text \<open>The same two, read off the configs alone.\<close>

definition declared :: "(node_key \<Rightarrow> node_config option) \<Rightarrow> node_key \<Rightarrow> node_key \<Rightarrow> bool" where
  "declared cfg k k' \<longleftrightarrow> (case cfg k of None \<Rightarrow> False | Some c \<Rightarrow> k' \<in> set (dependency_keys c))"

lemma deps_config_at:
  assumes "indexed G s" and "key_to_index s k = Some i"
  shows "deps G s i = {k'. declared (config_at G s) k k'}"
proof -
  obtain h where "node_weight G (graph s) i = Some h" using indexedD(1) [OF assms] by blast
  then show ?thesis using assms(2) by (simp add: deps_def declared_def config_at_def stack_find_def)
qed

lemma config_at_present: "indexed G s \<Longrightarrow> config_at G s k = None \<longleftrightarrow> key_to_index s k = None"
  using indexedD(4) [of G s k] by (cases "key_to_index s k") (auto simp: config_at_def stack_find_def)

lemma wired_by_keys:
  assumes "wired G s"
  shows "key_edges G s = {(k, k'). declared (config_at G s) k k' \<and> config_at G s k' \<noteq> None}"
    and "waiting_for s k' = {k. declared (config_at G s) k k' \<and> config_at G s k' = None}"
proof -
  have ix: "indexed G s" and edges: "edge_set G (graph s) = resolved_edges G s"
    and pend: "\<And>k. pend s k = unresolved G s k"
    using assms by (simp_all add: wired_def wired_nodes_def)
  have absent: "\<not> declared (config_at G s) k k'" if "key_to_index s k = None" for k k'
    using config_at_present [OF ix, of k] that by (simp add: declared_def)
  have "(k, k') \<in> key_edges G s \<longleftrightarrow> declared (config_at G s) k k' \<and> config_at G s k' \<noteq> None" for k k'
  proof (cases "key_to_index s k")
    case None
    then show ?thesis using absent by (simp add: key_edges_def)
  next
    case (Some i)
    have "(k, k') \<in> key_edges G s \<longleftrightarrow> (\<exists>j. key_to_index s k' = Some j \<and> (\<exists>k''\<in>deps G s i. key_to_index s k'' = Some j))"
      by (simp add: key_edges_def Some edges resolved_edges_def)
    also have "\<dots> \<longleftrightarrow> k' \<in> deps G s i \<and> key_to_index s k' \<noteq> None"
      using indexed_inj(1) [OF ix] by blast
    finally show ?thesis
      by (simp only: deps_config_at [OF ix Some] mem_Collect_eq config_at_present [OF ix])
  qed
  then show "key_edges G s = {(k, k'). declared (config_at G s) k k' \<and> config_at G s k' \<noteq> None}" by auto
  have "k \<in> waiting_for s k' \<longleftrightarrow> declared (config_at G s) k k' \<and> config_at G s k' = None" for k
  proof (cases "key_to_index s k")
    case None
    then show ?thesis using absent by (simp add: waiting_for_def)
  next
    case (Some i)
    then have "k \<in> waiting_for s k' \<longleftrightarrow> key_to_index s k' = None \<and> k' \<in> deps G s i"
      by (simp add: waiting_for_def pend unresolved_def)
    then show ?thesis
      by (simp only: deps_config_at [OF ix Some] mem_Collect_eq config_at_present [OF ix] conj_commute)
  qed
  then show "waiting_for s k' = {k. declared (config_at G s) k k' \<and> config_at G s k' = None}" by auto
qed

text \<open>
  C5: the dependency graph is exactly what the manifests declare. In every run of the stack there is
  an edge from one node to another exactly when the first names the second as a dependency and the
  second is in the stack, and a node waits for a key exactly when it names it and no node has it.
\<close>

theorem stack_graph_is_declared:
  assumes "stable_digraph G" and "stack_run G scc s"
  shows "key_edges G s = {(k, k'). declared (config_at G s) k k' \<and> config_at G s k' \<noteq> None} \<and>
     waiting_for s k' = {k. declared (config_at G s) k k' \<and> config_at G s k' = None}"
  using wired_by_keys [OF stack_run_wired [OF assms]] by blast

end
