(* ===== verification/Stack_Operations.thy ===== *)
theory Stack_Operations
  imports Stack_Wiring
begin

text \<open>
  What the operations of the stack promise their callers. Seen through \<open>entity_at\<close> the stack is a
  map from keys to entities: a push that is accepted updates one key, a removal clears one, a reset
  keeps the root, and every refusal changes nothing. The graph follows by theory \<open>Stack_Wiring\<close>.
\<close>

section \<open>The stack as a map\<close>

definition entity_at :: "'g petgraph \<Rightarrow> 'g node_stack \<Rightarrow> node_key \<rightharpoonup> node_entity" where
  "entity_at G s k = map_option (heap s) (stack_find G s k)"

lemma config_at_entity: "config_at G s k = map_option ent_config (entity_at G s k)"
  by (simp add: config_at_def entity_at_def option.map_comp comp_def)

lemma entity_at_key:
  assumes "indexed G s" and "entity_at G s k = Some e"
  shows "key_from_entity e = k"
  using assms indexedD(1) [OF assms(1), of k]
  by (auto simp: entity_at_def stack_find_def bind_eq_Some_conv)

lemma stack_find_handle:
  assumes "indexed G s" and "stack_find G s k = Some h"
  shows "h < next_handle s" "key_from_entity (heap s h) = k"
  using assms indexedD(1,3) [OF assms(1)] by (fastforce simp: stack_find_def bind_eq_Some_conv)+

lemma same_nodes_entity_at: "same_nodes G s s' \<Longrightarrow> entity_at G s' = entity_at G s"
  by (rule ext) (simp add: same_nodes_def entity_at_def stack_find_def)

lemma placed_entity_at:
  assumes G: "stable_digraph G" and ix: "indexed G s" and new: "key_to_index s (key_from_entity e) = None"
  shows "entity_at G (placed G e s) = (entity_at G s)(key_from_entity e \<mapsto> e)"
proof
  fix k
  note p = placed_facts [OF G ix new]
  have heap: "heap (placed G e s) = (heap s)(next_handle s := e)" by (simp add: placed_def)
  show "entity_at G (placed G e s) k = ((entity_at G s)(key_from_entity e \<mapsto> e)) k"
  proof (cases "k = key_from_entity e")
    case True
    then show ?thesis by (simp add: entity_at_def stack_find_def p(2,3) heap)
  next
    case False
    show ?thesis
    proof (cases "key_to_index s k")
      case None
      with False show ?thesis by (simp add: entity_at_def stack_find_def p(3))
    next
      case (Some i)
      then obtain h where h: "node_weight G (graph s) i = Some h" using indexedD(1) [OF ix] by blast
      then have "h \<noteq> next_handle s" using indexedD(3) [OF ix] by auto
      moreover have "i \<noteq> fst (pg_add_node G (next_handle s) (graph s))" using h p(1) by auto
      ultimately show ?thesis using False Some h by (simp add: entity_at_def stack_find_def p(2,3) heap)
    qed
  qed
qed

lemma replaced_entity_at:
  assumes ix: "indexed G s" and h: "stack_find G s k = Some h"
  shows "entity_at G (write_entity h e s) = (entity_at G s)(k \<mapsto> e)"
proof
  fix k'
  have find: "stack_find G (write_entity h e s) = stack_find G s"
    by (rule ext) (simp add: stack_find_def write_entity_frame)
  show "entity_at G (write_entity h e s) k' = ((entity_at G s)(k \<mapsto> e)) k'"
  proof (cases "k' = k")
    case True
    then show ?thesis by (simp add: entity_at_def find h) (simp add: write_entity_def)
  next
    case False
    have "stack_find G s k' \<noteq> Some h"
      using stack_find_handle(2) [OF ix, of k' h] stack_find_handle(2) [OF ix h] False by auto
    with False show ?thesis
      unfolding entity_at_def find by (cases "stack_find G s k'") (simp_all add: write_entity_def)
  qed
qed

lemma push_entity_update:
  assumes "stable_digraph G" and "stack_run G scc s"
  shows "case push_entity G scc e allow s of
      (Inl err, s') \<Rightarrow> s' = s
    | (Inr _, s') \<Rightarrow>
        \<not> is_root s (key_from_entity e) \<and>
        entity_at G s' = (entity_at G s)(key_from_entity e \<mapsto> e) \<and>
        (case entity_at G s (key_from_entity e) of None \<Rightarrow> True | Some old \<Rightarrow> instances old = [])"
proof -
  have w: "wired G s" using stack_run_wired assms by blast
  note ix = wiredD(3) [OF w]
  obtain r s' where push: "push_entity G scc e allow s = (r, s')" by fastforce
  from push show ?thesis
  proof (cases rule: push_entity_cases)
    case refused
    with push show ?thesis by simp
  next
    case inserted
    note ins = insert_new_entity_wired [OF assms(1) wiredD(1) [OF w] inserted(3)]
    have "entity_at G s' = (entity_at G s)(key_from_entity e \<mapsto> e)"
      using same_nodes_entity_at [OF ins(1)] placed_entity_at [OF assms(1) ix inserted(3)]
      by (simp add: inserted(5))
    moreover have "entity_at G s (key_from_entity e) = None"
      by (simp add: entity_at_def stack_find_def inserted(3))
    ultimately show ?thesis using push inserted(1,2) by simp
  next
    case (dangling i)
    then show ?thesis using indexedD(4) [OF ix] by blast
  next
    case (replaced i h)
    have h: "stack_find G s (key_from_entity e) = Some h"
      by (simp add: stack_find_def replaced(3,4))
    have ix1: "indexed G (write_entity h e s)"
      by (rule write_entity_indexed [OF ix]) (simp add: stack_find_handle(2) [OF ix h])
    have "same_nodes G (write_entity h e s) (rewire_dependencies G i (write_entity h e s))"
      by (rule rewire_facts(1) [OF assms(1) ix1]) (simp add: write_entity_frame replaced(4))
    then have "entity_at G s' = entity_at G (write_entity h e s)"
      unfolding replaced(6) by (simp only: same_nodes_entity_at split: if_split) simp
    moreover have "entity_at G s (key_from_entity e) = Some (heap s h)" by (simp add: entity_at_def h)
    ultimately show ?thesis
      using push replaced(1,2,5) replaced_entity_at [OF ix h, of e] by simp
  qed
qed

text \<open>
  C6: a push refines an update of one key. A refused push leaves the whole stack as it was. An
  accepted one never touches the root, replaces only an entity without instances, and afterwards
  the stack holds the pushed entity at its key and the same entities as before at every other key.
\<close>

theorem push_entity_refines_update:
  assumes "stable_digraph G" and "stack_run G scc s"
  shows "case push_entity G scc e allow s of
      (Inl err, s') \<Rightarrow> s' = s
    | (Inr _, s') \<Rightarrow>
        \<not> is_root s (key_from_entity e) \<and>
        entity_at G s' = (entity_at G s)(key_from_entity e \<mapsto> e) \<and>
        (case entity_at G s (key_from_entity e) of None \<Rightarrow> True | Some old \<Rightarrow> instances old = [])"
  using assms by (rule push_entity_update)

lemma remove_entity_at:
  assumes G: "stable_digraph G" and w: "wired_nodes G s"
  shows "entity_at G (remove_entity G k s) = (entity_at G s)(k := None)"
proof
  fix k'
  note rm = remove_entity_wired [OF G w, where k = k]
  show "entity_at G (remove_entity G k s) k' = ((entity_at G s)(k := None)) k'"
  proof (cases "k' = k \<or> key_to_index s k' = None")
    case True
    then show ?thesis by (auto simp: entity_at_def stack_find_def rm(2))
  next
    case False
    then obtain i where "key_to_index s k' = Some i" "k' \<noteq> k" by auto
    then show ?thesis using rm(6) by (simp add: entity_at_def stack_find_def rm(2,3))
  qed
qed

text \<open>
  C7: removing a node is the inverse of adding it. A removal refuses the root and a node with
  instances and then changes nothing; it clears one key and no other. When the node comes back with
  the config it had, the edges and the waiting nodes are those from before the removal.
\<close>

theorem remove_then_push_restores:
  assumes "stable_digraph G" and "stack_run G scc s"
    and "remove_config G n t s = (Inr True, s1)"
    and "push_entity G scc e allow s1 = (Inr (), s2)"
    and "entity_at G s (key_from_entity e) = Some old" and "ent_config e = ent_config old"
    and "key_from_entity e = node_key_new n t"
  shows "entity_at G s1 = (entity_at G s)(node_key_new n t := None) \<and>
     key_edges G s2 = key_edges G s \<and> waiting_for s2 = waiting_for s"
proof -
  let ?k = "node_key_new n t"
  have w: "wired G s" using stack_run_wired assms(1,2) by blast
  have s1: "s1 = (remove_entity G ?k s)\<lparr>add_log_paths := (add_log_paths s)(?k := None)\<rparr>"
    using assms(3) by (auto simp: remove_config_def Let_def split: option.splits if_splits)
  have e1: "entity_at G s1 = (entity_at G s)(?k := None)"
    using remove_entity_at [OF assms(1) wiredD(1) [OF w], of ?k]
    by (simp add: s1 entity_at_def fun_eq_iff stack_find_def)
  have r1: "stack_run G scc s1"
    using stack_run.step [OF assms(2) stack_step.remove [of G scc s n t]] assms(3) by simp
  have r2: "stack_run G scc s2"
    using stack_run.step [OF r1 stack_step.push [of G scc s1 e allow]] assms(4) by simp
  have "entity_at G s2 = (entity_at G s1)(?k \<mapsto> e)"
    using push_entity_update [OF assms(1) r1, of e allow] assms(4,7) by simp
  then have "config_at G s2 = config_at G s"
    using e1 assms(5-7) by (simp add: fun_eq_iff config_at_entity)
  with e1 wired_by_keys [OF stack_run_wired [OF assms(1) r2]] wired_by_keys [OF w]
  show ?thesis by auto
qed


section \<open>Who depends on a node\<close>

text \<open>
  The guard against breaking dependents. \<open>has_dependents\<close> holds of a node in the stack exactly
  when some node of the stack declares a dependency on it. The node itself counts: one that declares
  a dependency on itself has a dependent.
\<close>

theorem has_dependents_iff:
  assumes "stable_digraph G" and "stack_run G scc s" and "key_to_index s k = Some i"
  shows "has_dependents G s i k \<longleftrightarrow> (\<exists>k'. declared (config_at G s) k' k)"
proof -
  have w: "wired G s" using stack_run_wired assms(1,2) by blast
  note ix = wiredD(3) [OF w]
  have present: "config_at G s k \<noteq> None" using config_at_present [OF ix] assms(3) by simp
  have edges: "edge_set G (graph s) = resolved_edges G s" and pend: "pend s k = unresolved G s k"
    and ne: "pending_nonempty s"
    using w by (simp_all add: wired_def wired_nodes_def)
  have "pending_requirements s k = None"
    using pend ne assms(3)
    by (cases "pending_requirements s k") (auto simp: pend_def unresolved_def pending_nonempty_def)
  moreover have "neighbors_incoming G (graph s) i \<noteq> [] \<longleftrightarrow> (\<exists>a. (a, i) \<in> edge_set G (graph s))"
    using stable_digraph_edges(5) [OF assms(1), of "graph s" i] by (metis empty_iff ex_in_conv mem_Collect_eq set_empty)
  moreover have "(\<exists>a. (a, i) \<in> edge_set G (graph s)) \<longleftrightarrow> (\<exists>k'. (k', k) \<in> key_edges G s)"
  proof
    assume "\<exists>a. (a, i) \<in> edge_set G (graph s)"
    then obtain a where a: "(a, i) \<in> edge_set G (graph s)" by blast
    then have "node_weight G (graph s) a \<noteq> None"
      using deps_in_graph [of _ G s a] by (auto simp: edges resolved_edges_def)
    then obtain k' where "key_to_index s k' = Some a" using indexedD(2) [OF ix, of a] by blast
    with a assms(3) show "\<exists>k'. (k', k) \<in> key_edges G s" by (auto simp: key_edges_def)
  next
    assume "\<exists>k'. (k', k) \<in> key_edges G s"
    then show "\<exists>a. (a, i) \<in> edge_set G (graph s)" using assms(3) by (auto simp: key_edges_def)
  qed
  moreover have "(\<exists>k'. (k', k) \<in> key_edges G s) \<longleftrightarrow> (\<exists>k'. declared (config_at G s) k' k)"
    unfolding wired_by_keys(1) [OF w] using present by simp
  ultimately show ?thesis by (simp add: has_dependents_def)
qed

section \<open>Ending the stack\<close>

definition tracked_pids :: "'g petgraph \<Rightarrow> 'g node_stack \<Rightarrow> u32 set" where
  "tracked_pids G s = {p. \<exists>k e t. entity_at G s k = Some e \<and> t \<in> set (instances e) \<and> pid t = Some p}"

lemma kill_all: "live_groups (fold kill_group ps w) = live_groups w - set ps"
  by (induction ps arbitrary: w) (auto simp: kill_group_def)

lemma kill_all_of: "live_groups (fold (\<lambda>h w. fold kill_group (f h) w) hs w) = live_groups w - (\<Union>h\<in>set hs. set (f h))"
  by (induction hs arbitrary: w) (auto simp: kill_all)

lemma set_map_filter_Some: "y \<in> set (List.map_filter f xs) \<longleftrightarrow> (\<exists>x\<in>set xs. f x = Some y)"
  by (force simp: map_filter_def)

lemma ran_node_weight:
  assumes "indexed G s"
  shows "h \<in> ran (node_weight G (graph s)) \<longleftrightarrow> (\<exists>k. stack_find G s k = Some h)"
  using indexedD(2) [OF assms] by (fastforce simp: ran_def stack_find_def bind_eq_Some_conv)

text \<open>
  Dropping the stack leaves no child behind. Exactly the process groups that an instance of the
  stack recorded are killed, and every other group lives on.
\<close>

theorem drop_stack_kills_tracked:
  assumes "stable_digraph G" and "stack_run G scc s"
  shows "live_groups (drop_stack G s w) = live_groups w - tracked_pids G s"
proof -
  have ix: "indexed G s" using stack_run_wired [OF assms] by (rule wiredD(3))
  have "(\<Union>h\<in>set (node_weights G (graph s)). set (List.map_filter pid (instances (heap s h)))) =
      tracked_pids G s"
  proof (rule set_eqI)
    fix p
    have "p \<in> (\<Union>h\<in>set (node_weights G (graph s)). set (List.map_filter pid (instances (heap s h)))) \<longleftrightarrow>
        (\<exists>h. h \<in> ran (node_weight G (graph s)) \<and> (\<exists>t\<in>set (instances (heap s h)). pid t = Some p))"
      by (simp add: set_node_weights [OF assms(1)] set_map_filter_Some Bex_def)
    also have "\<dots> \<longleftrightarrow> (\<exists>k h. stack_find G s k = Some h \<and> (\<exists>t\<in>set (instances (heap s h)). pid t = Some p))"
      unfolding ran_node_weight [OF ix] by blast
    also have "\<dots> \<longleftrightarrow> p \<in> tracked_pids G s"
      unfolding tracked_pids_def entity_at_def mem_Collect_eq map_option_eq_Some by blast
    finally show "p \<in> (\<Union>h\<in>set (node_weights G (graph s)). set (List.map_filter pid (instances (heap s h)))) \<longleftrightarrow>
        p \<in> tracked_pids G s" .
  qed
  then show ?thesis by (simp add: drop_stack_def kill_all_of)
qed

end
