(* ===== verification/Stack_Pairing.thy ===== *)
theory Stack_Pairing
  imports Stack_Operations
begin

text \<open>
  The pairing half of the node stack, its clocks, and the graph it serializes for display:
  \<open>node-stack-internal/src/node_stack.rs\<close>, with \<open>serialize_node_entity\<close> of \<open>node_stack/entity.rs\<close> and
  the serialized types of \<open>core-node-api/src/graph.rs\<close>. The root's name is read at every call, as the
  code does; where the code panics for want of a root the operation is None, which \<open>rooted_name\<close>
  rules out in every run.
\<close>

section \<open>Liveness\<close>

definition live_instance_ids_for_pairing :: "'g petgraph \<Rightarrow> 'g node_stack \<Rightarrow> string set" where
  "live_instance_ids_for_pairing G s =
     set (concat (map (\<lambda>h. map instance_id (filter (\<lambda>t. has_process (inst_state t)) (instances (heap s h))))
       (node_weights G (graph s))))"

definition live_pairs_filtered :: "'g petgraph \<Rightarrow> 'g node_stack \<Rightarrow> pairing list option" where
  "live_pairs_filtered G s =
     (if stack_pairs s = [] then Some []
      else map_option (\<lambda>local.
          filter (\<lambda>p. has_live_local_endpoints p local (\<lambda>i. i \<in> live_instance_ids_for_pairing G s))
            (stack_pairs s)) (root_core_node_name G s))"

definition prune_dead_pairs :: "'g petgraph \<Rightarrow> 'g node_stack \<Rightarrow> 'g node_stack option" where
  "prune_dead_pairs G s =
     (if stack_pairs s = [] then Some s
      else map_option (\<lambda>local.
          s\<lparr>stack_pairs := prune_dead (stack_pairs s) local (\<lambda>i. i \<in> live_instance_ids_for_pairing G s)\<rparr>)
        (root_core_node_name G s))"

section \<open>Making a pair\<close>

definition pairing_slot_meta ::
    "'g petgraph \<Rightarrow> 'g node_stack \<Rightarrow> slot_addr \<Rightarrow> stack_error + pairing_dependency" where
  "pairing_slot_meta G s slot =
     (case stack_tracked G s (sa_instance_id slot) (\<lambda>tr.
          (Option.bind (m_depends_on (nc_manifest (ent_config (tr_entity tr))))
             (\<lambda>d. find (\<lambda>p. pd_link_id p = sa_link_id slot) (dep_pairings d)),
           inst_state (tr_instance tr))) of
        None \<Rightarrow> Inl (PairingInstanceNotInStack (sa_instance_id slot))
      | Some (dep, st) \<Rightarrow>
          if \<not> has_process st then Inl (PairingInstanceWithoutProcess (sa_instance_id slot) st)
          else case dep of
                 None \<Rightarrow> Inl (PairingSlotNotFound (sa_instance_id slot) (sa_link_id slot))
               | Some d \<Rightarrow> Inr d)"

definition stack_instance_copy :: "'g petgraph \<Rightarrow> 'g node_stack \<Rightarrow> string \<Rightarrow> string option" where
  "stack_instance_copy G s i = Option.bind (stack_tracked G s i (\<lambda>tr. inst_copy (tr_instance tr))) id"

definition resolve_endpoint_meta ::
    "'g petgraph \<Rightarrow> 'g node_stack \<Rightarrow> slot_addr \<Rightarrow> remote_slot_meta option \<Rightarrow> stack_error + endpoint_meta" where
  "resolve_endpoint_meta G s slot remote =
     (case remote of
        Some m \<Rightarrow>
          Inr \<lparr>em_name = rm_pairing_name m, em_tag = rm_pairing_tag m, em_role = rm_role m,
               em_sha256 = None, em_cardinality = rm_cardinality m, em_copy = rm_copy m\<rparr>
      | None \<Rightarrow>
          if root_core_node_name G s \<noteq> Some (sa_core_node slot)
          then Inl (PairingInstanceNotInStack (sa_instance_id slot))
          else map_sum id (\<lambda>d. \<lparr>em_name = pd_name d, em_tag = pd_tag d, em_role = pd_role d,
                               em_sha256 = pd_sha256 d, em_cardinality = pd_cardinality d,
                               em_copy = stack_instance_copy G s (sa_instance_id slot)\<rparr>)
                 (pairing_slot_meta G s slot))"

definition sha_pins_disagree :: "endpoint_meta \<Rightarrow> endpoint_meta \<Rightarrow> (string \<times> string) option" where
  "sha_pins_disagree a b =
     (case (em_sha256 a, em_sha256 b) of
        (Some x, Some y) \<Rightarrow> if x \<noteq> y then Some (x, y) else None | _ \<Rightarrow> None)"

text \<open>The first scalar end that holds a pair already, with the slot of its peer.\<close>

definition slot_taken :: "pairing_registry \<Rightarrow> slot_addr \<times> endpoint_meta \<Rightarrow> stack_error option" where
  "slot_taken pairs end =
     (case end of (slot, meta) \<Rightarrow>
        if \<not> is_scalar (em_cardinality meta) then None
        else map_option (\<lambda>existing. PairingSlotAlreadyPaired (slot_display slot)
                (case peer_of existing slot of None \<Rightarrow> [] | Some other \<Rightarrow> slot_display (pe_slot other)))
               (find_by_slot pairs slot))"

definition pair_slots_impl ::
    "'g petgraph \<Rightarrow> slot_addr \<Rightarrow> remote_slot_meta option \<Rightarrow> slot_addr \<Rightarrow> remote_slot_meta option \<Rightarrow>
     'g node_stack \<Rightarrow> ((stack_error + pairing) \<times> 'g node_stack) option" where
  "pair_slots_impl G a a_remote b b_remote s =
     (case resolve_endpoint_meta G s a a_remote of
        Inl err \<Rightarrow> Some (Inl err, s)
      | Inr da \<Rightarrow>
     (case resolve_endpoint_meta G s b b_remote of
        Inl err \<Rightarrow> Some (Inl err, s)
      | Inr db \<Rightarrow>
          if em_name da \<noteq> em_name db \<or> em_tag da \<noteq> em_tag db
          then Some (Inl (PairingMismatch (slot_display a) (em_name da) (em_tag da) (slot_display b)
                            (em_name db) (em_tag db)), s)
          else if em_role da = em_role db
          then Some (Inl (PairingRolesNotComplementary (slot_display a) (slot_display b) (em_role da)
                            (em_name da) (em_tag da)), s)
          else case sha_pins_disagree da db of
            Some (x, y) \<Rightarrow>
              Some (Inl (PairingShaMismatch (slot_display a) x (slot_display b) y (em_name da) (em_tag da)), s)
          | None \<Rightarrow>
              (case prune_dead_pairs G s of
                 None \<Rightarrow> None
               | Some s1 \<Rightarrow>
                   if find_pair (stack_pairs s1) a b \<noteq> None
                   then Some (Inl (PairAlreadyHeld (slot_display a) (slot_display b)), s1)
                   else case find_map (slot_taken (stack_pairs s1)) [(a, da), (b, db)] of
                     Some err \<Rightarrow> Some (Inl err, s1)
                   | None \<Rightarrow>
                       let p = \<lparr>pairing_name = em_name da, pairing_tag = em_tag da,
                                pair_a = \<lparr>pe_slot = a, pe_role = em_role da, pe_copy = em_copy da\<rparr>,
                                pair_b = \<lparr>pe_slot = b, pe_role = em_role db, pe_copy = em_copy db\<rparr>\<rparr>
                       in Some (Inr p, s1\<lparr>stack_pairs := registry_insert (stack_pairs s1) p\<rparr>))))"

definition pair_slots ::
    "'g petgraph \<Rightarrow> slot_addr \<Rightarrow> slot_addr \<Rightarrow> 'g node_stack \<Rightarrow>
     ((stack_error + pairing) \<times> 'g node_stack) option" where
  "pair_slots G a b s = pair_slots_impl G a None b None s"

definition pair_slot_with_remote ::
    "'g petgraph \<Rightarrow> slot_addr \<Rightarrow> slot_addr \<Rightarrow> remote_slot_meta \<Rightarrow> 'g node_stack \<Rightarrow>
     ((stack_error + pairing) \<times> 'g node_stack) option" where
  "pair_slot_with_remote G local remote meta s = pair_slots_impl G local None remote (Some meta) s"

definition pair_planned ::
    "'g petgraph \<Rightarrow> planned_pair \<Rightarrow> 'g node_stack \<Rightarrow> ((stack_error + pairing) \<times> 'g node_stack) option" where
  "pair_planned G pair s =
     (case peer_remote_meta pair of
        None \<Rightarrow> pair_slots G (own pair) (peer pair) s
      | Some meta \<Rightarrow> pair_slot_with_remote G (own pair) (peer pair) meta s)"

section \<open>Reading and dissolving pairs\<close>

definition clear_pair :: "slot_addr \<Rightarrow> slot_addr \<Rightarrow> 'g node_stack \<Rightarrow> pairing option \<times> 'g node_stack" where
  "clear_pair a b s =
     (let (p, pairs) = remove_pair (stack_pairs s) a b in (p, s\<lparr>stack_pairs := pairs\<rparr>))"

definition pairs_impl :: "'g petgraph \<Rightarrow> 'g node_stack \<Rightarrow> (pairing list \<times> 'g node_stack) option" where
  "pairs_impl G s = map_option (\<lambda>s1. (stack_pairs s1, s1)) (prune_dead_pairs G s)"

definition dissolve_pairs_for_remote_instance ::
    "string \<Rightarrow> string \<Rightarrow> 'g node_stack \<Rightarrow> pairing list \<times> 'g node_stack" where
  "dissolve_pairs_for_remote_instance core_node i s =
     (let (gone, pairs) = remove_for_instance (stack_pairs s) core_node i in (gone, s\<lparr>stack_pairs := pairs\<rparr>))"

definition dissolve_pairs_for_instance ::
    "'g petgraph \<Rightarrow> string \<Rightarrow> 'g node_stack \<Rightarrow> (pairing list \<times> 'g node_stack) option" where
  "dissolve_pairs_for_instance G i s =
     map_option (\<lambda>core_node. dissolve_pairs_for_remote_instance core_node i s) (root_core_node_name G s)"

section \<open>Clocks, containers and snapshots\<close>

record instance_clock =
  ic_instance_id :: string
  ic_binding :: clock_binding
  ic_launch :: "launch_identity option"

definition holds_domain_name :: "instance_state \<Rightarrow> bool" where
  "holds_domain_name st \<longleftrightarrow> has_process st \<or> st = Restarting"

definition instance_clocks_of ::
    "tracked_instance list \<Rightarrow> (instance_state \<Rightarrow> bool) \<Rightarrow> instance_clock list" where
  "instance_clocks_of is counts =
     map (\<lambda>t. \<lparr>ic_instance_id = instance_id t, ic_binding = inst_clock t, ic_launch = inst_launch t\<rparr>)
       (filter (\<lambda>t. counts (inst_state t)) is)"

definition clock_domain_publisher_of :: "instance_clock list \<Rightarrow> string \<Rightarrow> string option" where
  "clock_domain_publisher_of clocks name =
     map_option ic_instance_id
       (find (\<lambda>c. case published_domain (ic_binding c) of None \<Rightarrow> False | Some d \<Rightarrow> cd_name d = name) clocks)"

definition clocks_where :: "'g petgraph \<Rightarrow> 'g node_stack \<Rightarrow> (instance_state \<Rightarrow> bool) \<Rightarrow> instance_clock list" where
  "clocks_where G s counts =
     concat (map (\<lambda>h. instance_clocks_of (instances (heap s h)) counts) (node_weights G (graph s)))"

definition clock_domain_publisher :: "'g petgraph \<Rightarrow> 'g node_stack \<Rightarrow> string \<Rightarrow> string option" where
  "clock_domain_publisher G s name = clock_domain_publisher_of (clocks_where G s holds_domain_name) name"

definition live_container_instances_of :: "node_config \<Rightarrow> tracked_instance list \<Rightarrow> string list" where
  "live_container_instances_of c is =
     (if \<not> nc_container c then []
      else map instance_id (filter (\<lambda>t. has_process (inst_state t)) is))"

definition live_container_instance_ids :: "'g petgraph \<Rightarrow> 'g node_stack \<Rightarrow> string list" where
  "live_container_instance_ids G s =
     concat (map (\<lambda>h. live_container_instances_of (ent_config (heap s h)) (instances (heap s h)))
       (node_weights G (graph s)))"

record pairing_node_snapshot =
  ps_node_name :: string
  ps_node_tag :: string
  ps_instance_ids :: "string list"
  ps_pairing_deps :: "pairing_dependency list"

definition pairing_node_snapshots :: "'g petgraph \<Rightarrow> 'g node_stack \<Rightarrow> pairing_node_snapshot list" where
  "pairing_node_snapshots G s =
     List.map_filter (\<lambda>h.
         let e = heap s h; ids = map instance_id (filter (\<lambda>t. has_process (inst_state t)) (instances e))
         in if key_from_entity e = root_key s \<or> ids = [] then None
            else Some \<lparr>ps_node_name = ent_name e, ps_node_tag = ent_tag e, ps_instance_ids = ids,
                       ps_pairing_deps =
                         (case m_depends_on (nc_manifest (ent_config e)) of None \<Rightarrow> [] | Some d \<Rightarrow> dep_pairings d)\<rparr>)
       (node_weights G (graph s))"

section \<open>The serialized graph\<close>

record paired_peer =
  pp_peer :: producer_ref
  pp_peer_link_id :: string
  pp_copy :: "string option"

record serialized_pairing_slot =
  sps_pairing_name :: string
  sps_pairing_tag :: string
  sps_role :: string
  sps_peers :: "paired_peer list"
  sps_cardinality :: cardinality

record serialized_instance =
  si_instance_id :: string
  si_state :: instance_state
  si_healthy :: bool
  si_clock :: clock_binding
  si_slot_bindings :: slot_bindings
  si_pairing_slots :: "string \<rightharpoonup> serialized_pairing_slot"
  si_endpoints :: "instance_endpoint list"
  si_restart_status :: restart_status

record serialized_node =
  sn_name :: string
  sn_tag :: string
  sn_core_node :: string
  sn_config_path :: string
  sn_artifact_path :: "string option"
  sn_stage :: serialized_stage
  sn_instances :: "serialized_instance list"

record serialized_edge =
  se_from :: serialized_node
  se_to :: serialized_node
  se_via_contract :: "string option"

record serialized_node_graph =
  sg_nodes :: "serialized_node list"
  sg_edges :: "serialized_edge list"

definition serialize_node_entity :: "node_entity \<Rightarrow> string \<Rightarrow> world \<Rightarrow> serialized_node" where
  "serialize_node_entity e core_node w =
     \<lparr>sn_name = ent_name e, sn_tag = ent_tag e, sn_core_node = core_node,
      sn_config_path = config_path e, sn_artifact_path = artifact_path e,
      sn_stage = to_serialized (ent_stage e),
      sn_instances =
        map (\<lambda>t. \<lparr>si_instance_id = instance_id t, si_state = inst_state t, si_healthy = healthy t w,
                  si_clock = inst_clock t, si_slot_bindings = inst_slot_bindings t,
                  si_pairing_slots = Map.empty, si_endpoints = endpoints t,
                  si_restart_status = inst_restart_status t\<rparr>) (instances e)\<rparr>"

definition pairing_slot_view ::
    "string \<Rightarrow> string \<Rightarrow> pairing_dependency list \<Rightarrow> pairing list \<Rightarrow> (string \<rightharpoonup> serialized_pairing_slot)" where
  "pairing_slot_view core_node i slots live_pairs =
     fold (\<lambda>dep out.
         let slot = \<lparr>sa_core_node = core_node, sa_instance_id = i, sa_link_id = pd_link_id dep\<rparr>;
             peers = map (\<lambda>peer. \<lparr>pp_peer = \<lparr>pr_core_node = sa_core_node (pe_slot peer),
                                            pr_instance_id = sa_instance_id (pe_slot peer)\<rparr>,
                                 pp_peer_link_id = sa_link_id (pe_slot peer), pp_copy = pe_copy peer\<rparr>)
                       (List.map_filter (\<lambda>p. peer_of p slot) live_pairs)
         in out(pd_link_id dep \<mapsto>
              \<lparr>sps_pairing_name = pd_name dep, sps_pairing_tag = pd_tag dep, sps_role = pd_role dep,
               sps_peers = peers, sps_cardinality = pd_cardinality dep\<rparr>)) slots Map.empty"

definition overlay_pairing_slots :: "string \<Rightarrow> pairing list \<Rightarrow> node_config \<Rightarrow> serialized_node \<Rightarrow> serialized_node" where
  "overlay_pairing_slots core_node live_pairs c node =
     (case m_depends_on (nc_manifest c) of
        None \<Rightarrow> node
      | Some d \<Rightarrow>
          if dep_pairings d = [] then node
          else node\<lparr>sn_instances := map (\<lambda>inst.
                 if \<not> has_process (si_state inst) then inst
                 else inst\<lparr>si_pairing_slots :=
                        pairing_slot_view core_node (si_instance_id inst) (dep_pairings d) live_pairs\<rparr>)
               (sn_instances node)\<rparr>)"

text \<open>\<open>HashMap\<close> collected from the nodes in order: the last node of a name and tag is the one found.\<close>

definition node_by_key :: "serialized_node list \<Rightarrow> string \<times> string \<rightharpoonup> serialized_node" where
  "node_by_key nodes = fold (\<lambda>n m. m((sn_name n, sn_tag n) \<mapsto> n)) nodes Map.empty"

definition to_serialized_graph ::
    "'g petgraph \<Rightarrow> 'g node_stack \<Rightarrow> world \<Rightarrow> serialized_node_graph option" where
  "to_serialized_graph G s w =
     (case live_pairs_filtered G s of
        None \<Rightarrow> None
      | Some live_pairs \<Rightarrow>
          let core_node = nk_name (root_key s);
              serialize = (\<lambda>e. serialize_node_entity e core_node w);
              handles = node_weights G (graph s);
              configs = map (\<lambda>h. ent_config (heap s h)) handles;
              nodes = map (\<lambda>h. overlay_pairing_slots core_node live_pairs (ent_config (heap s h))
                                (serialize (heap s h))) handles;
              direct = List.map_filter (\<lambda>edge.
                  Option.bind (edge_endpoints G (graph s) edge) (\<lambda>(src, dst).
                  Option.bind (node_weight G (graph s) src) (\<lambda>hs.
                  Option.bind (node_weight G (graph s) dst) (\<lambda>hd.
                  Some \<lparr>se_from = serialize (heap s hs), se_to = serialize (heap s hd),
                        se_via_contract = None\<rparr>))))
                (edge_indices G (graph s));
              implemented = List.map_filter (\<lambda>edge.
                  Option.bind (node_by_key nodes (cie_consumer_name edge, cie_consumer_tag edge)) (\<lambda>from.
                  Option.bind (node_by_key nodes (cie_provider_name edge, cie_provider_tag edge)) (\<lambda>to.
                  Some \<lparr>se_from = from, se_to = to,
                        se_via_contract = Some (edge_label (cie_contract_name edge) (cie_contract_tag edge))\<rparr>)))
                (collect_contract_implementation_edges configs)
          in Some \<lparr>sg_nodes = nodes, sg_edges = direct @ implemented\<rparr>)"

section \<open>What a pair guarantees\<close>

lemma rooted_name:
  assumes "wired G s"
  shows "\<exists>n. root_core_node_name G s = Some n"
proof -
  obtain i where i: "key_to_index s (root_key s) = Some i"
    using wiredD(2) [OF assms] by (auto simp: rooted_def)
  then obtain h where "node_weight G (graph s) i = Some h"
    using indexedD(4) [OF wiredD(3) [OF assms]] by blast
  with i show ?thesis by (simp add: root_core_node_name_def stack_root_def stack_find_def)
qed

text \<open>The pairs that survive the pruning before a pair is made.\<close>

definition surviving_pairs :: "'g petgraph \<Rightarrow> 'g node_stack \<Rightarrow> pairing list" where
  "surviving_pairs G s =
     (case root_core_node_name G s of
        None \<Rightarrow> []
      | Some local \<Rightarrow> filter (\<lambda>p. has_live_local_endpoints p local
          (\<lambda>i. i \<in> live_instance_ids_for_pairing G s)) (stack_pairs s))"

lemma prune_dead_pairs_wired:
  assumes "wired G s"
  shows "prune_dead_pairs G s = Some (s\<lparr>stack_pairs := surviving_pairs G s\<rparr>)"
proof -
  obtain n where "root_core_node_name G s = Some n" using rooted_name [OF assms] by blast
  then show ?thesis
    by (cases s) (simp add: prune_dead_pairs_def surviving_pairs_def prune_dead_def)
qed

lemma slot_taken_None:
  "slot_taken pairs (slot, meta) = None \<longleftrightarrow>
     \<not> is_scalar (em_cardinality meta) \<or> (\<forall>p\<in>set pairs. endpoint p slot = None)"
  by (auto simp: slot_taken_def find_by_slot_None split: if_splits)

lemma sha_pins_agree:
  "sha_pins_disagree a b = None \<longleftrightarrow>
     (case (em_sha256 a, em_sha256 b) of (Some x, Some y) \<Rightarrow> x = y | _ \<Rightarrow> True)"
  by (auto simp: sha_pins_disagree_def split: option.split)

text \<open>What the two ends and the registry must be for a pair to be made.\<close>

definition may_pair ::
    "pairing list \<Rightarrow> slot_addr \<Rightarrow> endpoint_meta \<Rightarrow> slot_addr \<Rightarrow> endpoint_meta \<Rightarrow> bool" where
  "may_pair pairs a da b db \<longleftrightarrow>
     em_name da = em_name db \<and> em_tag da = em_tag db \<and> em_role da \<noteq> em_role db \<and>
     sha_pins_disagree da db = None \<and> find_pair pairs a b = None \<and>
     (\<not> is_scalar (em_cardinality da) \<or> find_by_slot pairs a = None) \<and>
     (\<not> is_scalar (em_cardinality db) \<or> find_by_slot pairs b = None)"

definition pair_of :: "slot_addr \<Rightarrow> endpoint_meta \<Rightarrow> slot_addr \<Rightarrow> endpoint_meta \<Rightarrow> pairing" where
  "pair_of a da b db =
     \<lparr>pairing_name = em_name da, pairing_tag = em_tag da,
      pair_a = \<lparr>pe_slot = a, pe_role = em_role da, pe_copy = em_copy da\<rparr>,
      pair_b = \<lparr>pe_slot = b, pe_role = em_role db, pe_copy = em_copy db\<rparr>\<rparr>"

lemma pair_slots_resolved:
  assumes "wired G s" and "resolve_endpoint_meta G s a ra = Inr da" and "resolve_endpoint_meta G s b rb = Inr db"
  shows "(if may_pair (surviving_pairs G s) a da b db
      then pair_slots_impl G a ra b rb s =
        Some (Inr (pair_of a da b db), s\<lparr>stack_pairs := surviving_pairs G s @ [pair_of a da b db]\<rparr>)
      else \<exists>err pairs. pair_slots_impl G a ra b rb s = Some (Inl err, s\<lparr>stack_pairs := pairs\<rparr>) \<and>
             (pairs = stack_pairs s \<or> pairs = surviving_pairs G s))"
proof -
  let ?ps = "surviving_pairs G s"
  have same: "s\<lparr>stack_pairs := stack_pairs s\<rparr> = s" by simp
  have taken: "find_map (slot_taken ?ps) [(a, da), (b, db)] = None \<longleftrightarrow>
      (\<not> is_scalar (em_cardinality da) \<or> find_by_slot ?ps a = None) \<and>
      (\<not> is_scalar (em_cardinality db) \<or> find_by_slot ?ps b = None)"
    by (auto simp: slot_taken_def split: option.split)
  note def = pair_slots_impl_def assms(2,3) prune_dead_pairs_wired [OF assms(1)]
  show ?thesis
  proof (cases "em_name da = em_name db \<and> em_tag da = em_tag db \<and> em_role da \<noteq> em_role db \<and>
      sha_pins_disagree da db = None \<and> find_pair ?ps a b = None")
    case True
    then show ?thesis
      by (cases "find_map (slot_taken ?ps) [(a, da), (b, db)]")
         (use taken in \<open>auto simp: def may_pair_def pair_of_def registry_insert_def Let_def\<close>)
  next
    case False
    then have "\<not> may_pair ?ps a da b db" by (auto simp: may_pair_def)
    moreover from False have "\<exists>err pairs. pair_slots_impl G a ra b rb s = Some (Inl err, s\<lparr>stack_pairs := pairs\<rparr>) \<and>
             (pairs = stack_pairs s \<or> pairs = ?ps)"
      unfolding def
      by (cases "em_name da = em_name db \<and> em_tag da = em_tag db"; cases "em_role da = em_role db";
          cases "sha_pins_disagree da db"; cases "find_pair ?ps a b")
         (force simp: same split: prod.split)+
    ultimately show ?thesis by simp
  qed
qed



section \<open>The registry over time\<close>

inductive pair_step :: "'g petgraph \<Rightarrow> 'g node_stack \<Rightarrow> 'g node_stack \<Rightarrow> bool" for G where
  made: "pair_slots_impl G a ra b rb s = Some (r, s') \<Longrightarrow> pair_step G s s'"
| cleared: "pair_step G s (snd (clear_pair a b s))"
| pruned: "pairs_impl G s = Some (ps, s') \<Longrightarrow> pair_step G s s'"
| dissolved: "pair_step G s (snd (dissolve_pairs_for_remote_instance n i s))"
| reset: "stack_reset G s = Some s' \<Longrightarrow> pair_step G s s'"
| other: "stack_pairs s' = stack_pairs s \<Longrightarrow> pair_step G s s'"

definition pair_ends :: "pairing \<Rightarrow> slot_addr set" where
  "pair_ends p = {pe_slot (pair_a p), pe_slot (pair_b p)}"

definition registry_inv :: "pairing_registry \<Rightarrow> bool" where
  "registry_inv pairs \<longleftrightarrow>
     distinct (map pair_ends pairs) \<and> list_all (\<lambda>p. pe_role (pair_a p) \<noteq> pe_role (pair_b p)) pairs"

lemma registry_inv_filter: "registry_inv pairs \<Longrightarrow> registry_inv (filter q pairs)"
  by (auto simp: registry_inv_def list_all_iff distinct_map_filter)

lemma registry_inv_remove: "registry_inv pairs \<Longrightarrow> registry_inv (remove_first q pairs)"
  by (auto simp: registry_inv_def list_all_iff distinct_map_remove_first)

lemma registry_inv_insert:
  assumes "registry_inv pairs" and "find_pair pairs (pe_slot (pair_a p)) (pe_slot (pair_b p)) = None"
    and "pe_role (pair_a p) \<noteq> pe_role (pair_b p)"
  shows "registry_inv (registry_insert pairs p)"
proof -
  have "pair_ends q \<noteq> pair_ends p" if "q \<in> set pairs" for q
  proof
    assume "pair_ends q = pair_ends p"
    then have "is_between q (pe_slot (pair_a p)) (pe_slot (pair_b p))"
      unfolding is_between_def endpoint_iff pair_ends_def by blast
    with that assms(2) show False by (auto simp: find_pair_def find_None_iff)
  qed
  with assms show ?thesis by (auto simp: registry_inv_def registry_insert_def)
qed

lemma prune_dead_pairs_registry: "prune_dead_pairs G s = Some s' \<Longrightarrow> \<exists>q. stack_pairs s' = filter q (stack_pairs s)"
  by (cases "stack_pairs s = []") (auto simp: prune_dead_pairs_def prune_dead_def intro: exI)

lemma pair_slots_registry:
  assumes "pair_slots_impl G a ra b rb s = Some (r, s')" and "registry_inv (stack_pairs s)"
  shows "registry_inv (stack_pairs s')"
proof (cases "resolve_endpoint_meta G s a ra"; cases "resolve_endpoint_meta G s b rb")
  fix da db assume ends: "resolve_endpoint_meta G s a ra = Inr da" "resolve_endpoint_meta G s b rb = Inr db"
  show ?thesis
  proof (cases "(em_name da \<noteq> em_name db \<or> em_tag da \<noteq> em_tag db) \<or> em_role da = em_role db \<or>
      sha_pins_disagree da db \<noteq> None")
    case True
    then have "s' = s"
      using assms(1) ends by (auto simp: pair_slots_impl_def split: if_splits option.splits)
    with assms(2) show ?thesis by simp
  next
    case False
    then have agree: "sha_pins_disagree da db = None" "em_name da = em_name db" "em_tag da = em_tag db"
      "em_role da \<noteq> em_role db"
      by blast+
    then obtain s1 where s1: "prune_dead_pairs G s = Some s1"
      using assms(1) ends by (cases "prune_dead_pairs G s") (simp_all add: pair_slots_impl_def)
    have inv1: "registry_inv (stack_pairs s1)"
      using prune_dead_pairs_registry [OF s1] registry_inv_filter [OF assms(2)] by auto
    have "stack_pairs s' = stack_pairs s1 \<or>
        find_pair (stack_pairs s1) a b = None \<and> stack_pairs s' = registry_insert (stack_pairs s1) (pair_of a da b db)"
      using assms(1) ends s1 agree
      by (auto simp: pair_slots_impl_def pair_of_def Let_def split: if_splits option.splits)
    with inv1 registry_inv_insert [OF inv1, of "pair_of a da b db"] agree show ?thesis
      by (auto simp: pair_of_def)
  qed
qed (use assms in \<open>auto simp: pair_slots_impl_def\<close>)

lemma pair_step_registry: "pair_step G s s' \<Longrightarrow> registry_inv (stack_pairs s) \<Longrightarrow> registry_inv (stack_pairs s')"
proof (induction rule: pair_step.induct)
  case (made a ra b rb s r s')
  then show ?case by (rule pair_slots_registry)
next
  case (cleared s a b)
  then show ?case
    by (auto simp: clear_pair_def remove_pair_def registry_inv_remove split: option.split)
next
  case (pruned s ps s')
  then show ?case
    by (auto simp: pairs_impl_def dest!: prune_dead_pairs_registry intro: registry_inv_filter)
next
  case (dissolved s n i)
  then show ?case
    by (simp add: dissolve_pairs_for_remote_instance_def remove_for_instance_def registry_inv_filter)
next
  case (reset s s')
  then show ?case
    by (auto simp: stack_reset_def Let_def case_prod_beta registry_inv_def split: option.splits)
qed simp

text \<open>
  C9: the registry never holds a pair twice. From a stack without pairs, whatever pairs are made,
  cleared, pruned and dissolved and whatever else happens to the stack, no two pairs join the same
  two slots and the two ends of every pair play different roles.
\<close>

theorem registry_never_duplicates:
  assumes "stack_pairs s = []" and "(pair_step G)\<^sup>*\<^sup>* s s'"
  shows "distinct (map pair_ends (stack_pairs s')) \<and>
     list_all (\<lambda>p. pe_role (pair_a p) \<noteq> pe_role (pair_b p)) (stack_pairs s')"
  using assms(2,1)
proof -
  have "registry_inv (stack_pairs s)" by (simp add: assms(1) registry_inv_def)
  with assms(2) have "registry_inv (stack_pairs s')"
    by (induction rule: rtranclp.induct) (auto intro: pair_step_registry)
  then show ?thesis by (simp add: registry_inv_def)
qed

end
