(* ===== verification/Stack_Samples.thy ===== *)
theory Stack_Samples
  imports Stack_Pairing
begin

text \<open>
  Concrete stacks over \<open>slab_graph\<close> and \<open>closure_scc\<close>: a daemon with a camera and its viewer, at which
  the theorems of the stack are applied, and an arm and a gripper that come to call each other.
\<close>

section \<open>A camera and a viewer\<close>

definition sample_entity_of :: "node_config \<Rightarrow> node_entity" where
  "sample_entity_of c = fst (entity_new c ''peppy.json5'' [] sample_world)"

definition core_config :: node_config where
  "core_config =
     \<lparr>nc_manifest = \<lparr>m_name = ''core'', m_tag = ''v1'', m_implements = [], m_depends_on = None\<rparr>,
      nc_interfaces = \<lparr>topics = None, services = None, actions = None\<rparr>, nc_container = False\<rparr>"

definition core_entity :: node_entity where
  "core_entity = fst (entity_root core_config ''core.json5''
     (fst (tracked_new ''core'' Running Map.empty sample_world)) sample_world)"

abbreviation insert_config :: "node_config \<Rightarrow> slab node_stack \<Rightarrow> slab node_stack" where
  "insert_config c s \<equiv> insert_new_entity slab_graph (sample_entity_of c) s"

definition core_stack :: "slab node_stack" where
  "core_stack = insert_new_entity slab_graph core_entity (empty_inner slab_graph core_entity)"

definition camera_stack :: "slab node_stack" where
  "camera_stack = insert_config viewer_config (insert_config camera_config core_stack)"

lemma no_calls_no_cycle:
  assumes "distinct (identities nodes)" and "edge_pairs nodes = []"
  shows "find_service_action_cycle closure_scc nodes = None"
  using find_cycle_None_iff [OF closure_scc_computes assms(1)] edge_pairs_calls [OF assms(1)] assms(2)
  by (simp add: acyclic_def)

lemma core_run: "stack_run slab_graph closure_scc core_stack"
proof -
  have "validate_dependency_specs (nc_manifest (ent_config core_entity)) (nc_interfaces (ent_config core_entity))
      (ent_name core_entity) (ent_tag core_entity) AllowAbsentWhenSlotAdmitsEmpty
      (resolve_config slab_graph (empty_inner slab_graph core_entity)) = []"
    by code_simp
  moreover have "find_service_action_cycle closure_scc
      (cycle_check_view slab_graph (empty_inner slab_graph core_entity) core_entity) = None"
    by (rule no_calls_no_cycle) code_simp+
  ultimately have "inner_new slab_graph closure_scc core_entity = Some core_stack"
    by (simp add: inner_new_def validate_dependencies_def validate_no_service_action_cycle_def core_stack_def)
  moreover have "dependency_keys (ent_config core_entity) = []" by code_simp
  ultimately show ?thesis by (rule stack_run.start)
qed


lemma push_new:
  assumes "key_to_index s (key_from_entity e) = None" and "\<not> is_root s (key_from_entity e)"
    and "validate_dependency_specs (nc_manifest (ent_config e)) (nc_interfaces (ent_config e))
      (ent_name e) (ent_tag e) AllowAbsentWhenSlotAdmitsEmpty (resolve_config slab_graph s) = []"
    and "find_service_action_cycle closure_scc (cycle_check_view slab_graph s e) = None"
  shows "push_entity slab_graph closure_scc e False s = (Inr (), insert_new_entity slab_graph e s)"
  using assms
  by (simp add: push_entity_def validate_candidate_def validate_dependencies_def
      validate_no_service_action_cycle_def Let_def)

lemma push_new_run:
  assumes "stack_run slab_graph closure_scc s"
    and "push_entity slab_graph closure_scc e allow s = (r, s')"
  shows "stack_run slab_graph closure_scc s'"
  using stack_run.step [OF assms(1) stack_step.push [of slab_graph closure_scc s e allow]] assms(2) by simp

lemma camera_pushed:
  "push_entity slab_graph closure_scc (sample_entity_of camera_config) False core_stack =
     (Inr (), insert_config camera_config core_stack)"
proof (rule push_new)
  show "find_service_action_cycle closure_scc
      (cycle_check_view slab_graph core_stack (sample_entity_of camera_config)) = None"
    by (rule no_calls_no_cycle) code_simp+
qed code_simp+

lemma viewer_pushed:
  "push_entity slab_graph closure_scc (sample_entity_of viewer_config) False
     (insert_config camera_config core_stack) = (Inr (), camera_stack)"
  unfolding camera_stack_def
proof (rule push_new)
  show "find_service_action_cycle closure_scc (cycle_check_view slab_graph
      (insert_config camera_config core_stack) (sample_entity_of viewer_config)) = None"
    by (rule no_calls_no_cycle) code_simp+
qed code_simp+

lemma camera_run: "stack_run slab_graph closure_scc camera_stack"
  by (rule push_new_run [OF push_new_run [OF core_run camera_pushed] viewer_pushed])

lemmas on_slab = slab_graph_stable camera_run

theorem stack_graph_is_declared_witness:
  "(node_key_new ''viewer'' ''v1'', node_key_new ''camera'' ''v1'') \<in> key_edges slab_graph camera_stack"
proof -
  have "declared (config_at slab_graph camera_stack) (node_key_new ''viewer'' ''v1'') (node_key_new ''camera'' ''v1'')"
    "config_at slab_graph camera_stack (node_key_new ''camera'' ''v1'') \<noteq> None"
    by code_simp+
  with stack_graph_is_declared [OF on_slab] show ?thesis by simp
qed

theorem push_entity_refines_update_witness:
  "entity_at slab_graph camera_stack =
     (entity_at slab_graph (insert_config camera_config core_stack))
       (node_key_new ''viewer'' ''v1'' \<mapsto> sample_entity_of viewer_config)"
proof -
  have "key_from_entity (sample_entity_of viewer_config) = node_key_new ''viewer'' ''v1''" by code_simp
  with push_entity_refines_update [OF slab_graph_stable push_new_run [OF core_run camera_pushed],
      of "sample_entity_of viewer_config" False] viewer_pushed
  show ?thesis by simp
qed

theorem has_dependents_iff_witness:
  "(case key_to_index camera_stack (node_key_new ''camera'' ''v1'') of
      None \<Rightarrow> False | Some i \<Rightarrow> has_dependents slab_graph camera_stack i (node_key_new ''camera'' ''v1''))"
proof -
  have "declared (config_at slab_graph camera_stack) (node_key_new ''viewer'' ''v1'') (node_key_new ''camera'' ''v1'')"
    by code_simp
  moreover have "\<not> Option.is_none (key_to_index camera_stack (node_key_new ''camera'' ''v1''))" by code_simp
  ultimately show ?thesis
    using has_dependents_iff [OF on_slab] by (auto simp: Option.is_none_def split: option.split)
qed

definition running_camera_stack :: "slab node_stack" where
  "running_camera_stack = write_entity 1 sample_running camera_stack"

lemma running_camera_run: "stack_run slab_graph closure_scc running_camera_stack"
proof -
  have "ent_config sample_running = camera_config"
    by (simp add: sample_running_def sample_entity_def entity_built_in_def with_stage_def Let_def case_prod_beta)
  moreover have "ent_config (heap camera_stack 1) = camera_config" by code_simp
  ultimately show ?thesis
    unfolding running_camera_stack_def by (intro stack_run.step [OF camera_run] stack_step.edit) simp
qed

lemma running_camera_found:
  "entity_at slab_graph running_camera_stack (node_key_new ''camera'' ''v1'') = Some sample_running"
proof -
  have "stack_find slab_graph camera_stack (node_key_new ''camera'' ''v1'') = Some 1" by code_simp
  then show ?thesis by (simp add: running_camera_stack_def entity_at_def stack_find_def write_entity_def)
qed

theorem drop_stack_kills_tracked_witness:
  "4711 \<notin> live_groups (drop_stack slab_graph running_camera_stack (sample_world\<lparr>live_groups := {7, 4711}\<rparr>))"
proof -
  have "sample_running_slot \<in> set (instances sample_running)" "pid sample_running_slot = Some 4711"
    using sample_running_slot_facts(2)
    by (simp_all add: sample_running_def instances_set_instances(2) sample_entity_stage
        runs_unclaimed_process_def runs_process_def)
  with running_camera_found have "4711 \<in> tracked_pids slab_graph running_camera_stack"
    unfolding tracked_pids_def by blast
  then show ?thesis
    using drop_stack_kills_tracked [OF slab_graph_stable running_camera_run] by simp
qed

lemma pushed_entity_at:
  assumes "stack_run slab_graph closure_scc s"
    and "push_entity slab_graph closure_scc e allow s = (Inr (), s')"
  shows "entity_at slab_graph s' = (entity_at slab_graph s)(key_from_entity e \<mapsto> e)"
  using push_entity_update [OF slab_graph_stable assms(1), of e allow] assms(2) by simp

lemma sample_keys:
  "key_from_entity (sample_entity_of viewer_config) = node_key_new ''viewer'' ''v1''"
  "key_from_entity (sample_entity_of camera_config) = node_key_new ''camera'' ''v1''"
  by code_simp+

lemma camera_entities:
  "entity_at slab_graph camera_stack = (entity_at slab_graph core_stack)
     (node_key_new ''camera'' ''v1'' \<mapsto> sample_entity_of camera_config,
      node_key_new ''viewer'' ''v1'' \<mapsto> sample_entity_of viewer_config)"
  using pushed_entity_at [OF core_run camera_pushed]
    pushed_entity_at [OF push_new_run [OF core_run camera_pushed] viewer_pushed]
  by (simp add: sample_keys)

definition viewer_removed :: "slab node_stack" where
  "viewer_removed = snd (remove_config slab_graph ''viewer'' ''v1'' camera_stack)"

lemma viewer_removal: "remove_config slab_graph ''viewer'' ''v1'' camera_stack = (Inr True, viewer_removed)"
proof -
  have "fst (remove_config slab_graph ''viewer'' ''v1'' camera_stack) = Inr True" by code_simp
  then show ?thesis unfolding viewer_removed_def by (metis prod.collapse)
qed

lemma viewer_back:
  "push_entity slab_graph closure_scc (sample_entity_of viewer_config) False viewer_removed =
     (Inr (), insert_config viewer_config viewer_removed)"
proof (rule push_new)
  show "find_service_action_cycle closure_scc
      (cycle_check_view slab_graph viewer_removed (sample_entity_of viewer_config)) = None"
    by (rule no_calls_no_cycle) code_simp+
qed code_simp+

theorem remove_then_push_restores_witness:
  "key_edges slab_graph (insert_config viewer_config viewer_removed) = key_edges slab_graph camera_stack"
proof -
  have "entity_at slab_graph camera_stack (key_from_entity (sample_entity_of viewer_config)) =
      Some (sample_entity_of viewer_config)"
    by (simp add: camera_entities sample_keys)
  from remove_then_push_restores [OF on_slab viewer_removal viewer_back this refl sample_keys(1)]
  show ?thesis by blast
qed

section \<open>An arm and a gripper\<close>

text \<open>
  The arm calls a service of the contract \<open>grip\<close> and the gripper, which implements it, calls one of
  the contract \<open>pose\<close>. The first arm implements another contract under its link id \<open>impl\<close>; the second
  implements \<open>pose\<close> there, and its interfaces and node dependencies are the same.
\<close>

definition caller_config :: "string \<Rightarrow> string \<Rightarrow> string \<Rightarrow> node_config" where
  "caller_config n implemented called =
     \<lparr>nc_manifest =
        \<lparr>m_name = n, m_tag = ''v1'',
         m_implements = [\<lparr>ie_name = implemented, ie_tag = ''v1'', ie_link_id = ''impl'', ie_sha256 = None\<rparr>],
         m_depends_on = Some
           \<lparr>dep_nodes = [],
            dep_contracts = [\<lparr>cdep_name = called, cdep_tag = ''v1'', cdep_link_id = ''call'',
                             cdep_sha256 = None, cdep_cardinality = One\<rparr>],
            dep_daemon = [], dep_pairings = [], dep_observers = []\<rparr>\<rparr>,
      nc_interfaces =
        \<lparr>topics = None,
         services = Some
           \<lparr>produces = Some [Linked \<lparr>le_link_id = ''impl'', le_name = ''move'', le_refine = None\<rparr>],
            consumes = Some [\<lparr>ce_link_id = ''call'', ce_name = ''move'', ce_refine = None\<rparr>]\<rparr>,
         actions = None\<rparr>,
      nc_container = False\<rparr>"

definition arm_config :: node_config where
  "arm_config = caller_config ''arm'' ''idle'' ''grip''"

definition arm_config_2 :: node_config where
  "arm_config_2 = caller_config ''arm'' ''pose'' ''grip''"

definition gripper_config :: node_config where
  "gripper_config = caller_config ''gripper'' ''grip'' ''pose''"

definition stack_nodes :: "'g petgraph \<Rightarrow> 'g node_stack \<Rightarrow> cycle_check_node list" where
  "stack_nodes G s =
     map (\<lambda>h. let k = key_from_entity (heap s h)
             in \<lparr>ccn_name = nk_name k, ccn_tag = nk_tag k, ccn_config = ent_config (heap s h)\<rparr>)
       (node_weights G (graph s))"

definition arms_stack :: "slab node_stack" where
  "arms_stack = insert_config gripper_config (insert_config arm_config core_stack)"

lemma acyclic_calls_by_order:
  assumes "distinct (identities nodes)" and "list_all (\<lambda>(a, b). f a < (f b :: nat)) (edge_pairs nodes)"
  shows "acyclic (calls nodes)"
proof -
  have step: "f a < f b" if "(a, b) \<in> calls nodes" for a b
    using assms(2) that unfolding edge_pairs_calls [OF assms(1), symmetric] by (auto simp: list_all_iff)
  have "f a < f b" if "(a, b) \<in> (calls nodes)\<^sup>+" for a b
    using that by (induction rule: trancl.induct) (auto dest: step)
  then show ?thesis by (auto simp: acyclic_def)
qed

lemma ordered_calls_no_cycle:
  "distinct (identities nodes) \<Longrightarrow> list_all (\<lambda>(a, b). a < b) (edge_pairs nodes) \<Longrightarrow>
     find_service_action_cycle closure_scc nodes = None"
  using find_cycle_None_iff [OF closure_scc_computes] acyclic_calls_by_order [where f = id] by simp

lemma cyclic_calls:
  assumes "distinct (identities nodes)" and "(a, b) \<in> set (edge_pairs nodes)" and "(b, a) \<in> set (edge_pairs nodes)"
  shows "\<not> acyclic (calls nodes)"
  using assms(2,3) unfolding edge_pairs_calls [OF assms(1)] acyclic_def by (meson trancl.simps)

lemma arms_pushed:
  "push_entity slab_graph closure_scc (sample_entity_of arm_config) False core_stack =
     (Inr (), insert_config arm_config core_stack)"
  "push_entity slab_graph closure_scc (sample_entity_of gripper_config) False
     (insert_config arm_config core_stack) = (Inr (), arms_stack)"
proof -
  show "push_entity slab_graph closure_scc (sample_entity_of arm_config) False core_stack =
     (Inr (), insert_config arm_config core_stack)"
  proof (rule push_new)
    show "find_service_action_cycle closure_scc
        (cycle_check_view slab_graph core_stack (sample_entity_of arm_config)) = None"
      by (rule ordered_calls_no_cycle) code_simp+
  qed code_simp+
  show "push_entity slab_graph closure_scc (sample_entity_of gripper_config) False
     (insert_config arm_config core_stack) = (Inr (), arms_stack)"
    unfolding arms_stack_def
  proof (rule push_new)
    show "find_service_action_cycle closure_scc (cycle_check_view slab_graph
        (insert_config arm_config core_stack) (sample_entity_of gripper_config)) = None"
      by (rule ordered_calls_no_cycle) code_simp+
  qed code_simp+
qed

lemma arms_run: "stack_run slab_graph closure_scc arms_stack"
  by (rule push_new_run [OF push_new_run [OF core_run arms_pushed(1)] arms_pushed(2)])

lemma arm_readded:
  "push_entity slab_graph closure_scc (sample_entity_of arm_config_2) False arms_stack =
     (Inr (), write_entity 1 (sample_entity_of arm_config_2) arms_stack)"
proof -
  let ?e = "sample_entity_of arm_config_2"
  have "\<not> is_root arms_stack (key_from_entity ?e)" "key_to_index arms_stack (key_from_entity ?e) = Some 1"
    "node_weight slab_graph (graph arms_stack) 1 = Some 1" "length (instances (heap arms_stack 1)) = 0"
    "nc_interfaces (ent_config (heap arms_stack 1)) = nc_interfaces (ent_config ?e)"
    "dependency_keys (ent_config (heap arms_stack 1)) = dependency_keys (ent_config ?e)"
    by code_simp+
  then show ?thesis by (simp add: push_entity_def)
qed

text \<open>
  C40: a re-add can close a call cycle without a check. The stack of the first arm and the gripper has
  no cycle of calls. Re-adding the arm with another contract implemented under the same link id is
  accepted, and then arm and gripper call each other; pushed in the other order, with the second arm
  in the stack, the gripper is refused for that cycle.
\<close>

theorem readd_can_close_call_cycle:
  "stack_run slab_graph closure_scc arms_stack \<and> acyclic (calls (stack_nodes slab_graph arms_stack)) \<and>
   fst (push_entity slab_graph closure_scc (sample_entity_of arm_config_2) False arms_stack) = Inr () \<and>
   \<not> acyclic (calls (stack_nodes slab_graph
       (snd (push_entity slab_graph closure_scc (sample_entity_of arm_config_2) False arms_stack)))) \<and>
   isl (fst (push_entity slab_graph closure_scc (sample_entity_of gripper_config) False
     (insert_new_entity slab_graph (sample_entity_of arm_config_2) core_stack)))"
proof (intro conjI)
  show "stack_run slab_graph closure_scc arms_stack" by (rule arms_run)
  show "acyclic (calls (stack_nodes slab_graph arms_stack))"
    by (rule acyclic_calls_by_order [where f = "\<lambda>n. 2 - n"]) code_simp+
  show "fst (push_entity slab_graph closure_scc (sample_entity_of arm_config_2) False arms_stack) = Inr ()"
    by (simp add: arm_readded)
  show "\<not> acyclic (calls (stack_nodes slab_graph
       (snd (push_entity slab_graph closure_scc (sample_entity_of arm_config_2) False arms_stack))))"
    unfolding arm_readded snd_conv by (rule cyclic_calls [where a = 0 and b = 1]) code_simp+
  let ?view = "cycle_check_view slab_graph (insert_config arm_config_2 core_stack) (sample_entity_of gripper_config)"
  have "\<not> acyclic (calls ?view)" by (rule cyclic_calls [where a = 0 and b = 2]) code_simp+
  moreover have "distinct (identities ?view)" by code_simp
  ultimately have "find_service_action_cycle closure_scc ?view \<noteq> None"
    using find_cycle_None_iff [OF closure_scc_computes] by blast
  moreover have rest: "key_to_index (insert_config arm_config_2 core_stack)
      (key_from_entity (sample_entity_of gripper_config)) = None" by code_simp
  ultimately show "isl (fst (push_entity slab_graph closure_scc (sample_entity_of gripper_config) False
     (insert_config arm_config_2 core_stack)))"
    using rest by (auto simp: push_entity_def validate_candidate_def validate_dependencies_def
        validate_no_service_action_cycle_def Let_def split: list.split)
qed


section \<open>A teleoperator and an arm\<close>

text \<open>Two nodes with complementary roles of one pairing, each with a running instance.\<close>

definition paired_config :: "string \<Rightarrow> string \<Rightarrow> node_config" where
  "paired_config n role =
     \<lparr>nc_manifest =
        \<lparr>m_name = n, m_tag = ''v1'', m_implements = [],
         m_depends_on = Some
           \<lparr>dep_nodes = [], dep_contracts = [], dep_daemon = [],
            dep_pairings = [\<lparr>pd_name = ''teleop'', pd_tag = ''v1'', pd_role = role, pd_link_id = ''peer'',
                            pd_sha256 = None, pd_cardinality = One\<rparr>],
            dep_observers = []\<rparr>\<rparr>,
      nc_interfaces = \<lparr>topics = None, services = None, actions = None\<rparr>, nc_container = False\<rparr>"

definition running_of :: "string \<Rightarrow> string \<Rightarrow> node_entity" where
  "running_of n role =
     \<lparr>ent_config = paired_config n role,
      ent_stage = Ready ''peppy.json5'' (Built ''n.sif'')
        [fst (tracked_new n Running Map.empty sample_world)],
      generation = 1, pending_working_dir = None, documents = [], stage_label = SReady\<rparr>"

definition teleop_stack :: "slab node_stack" where
  "teleop_stack =
     write_entity 2 (running_of ''arm'' ''follower'')
       (write_entity 1 (running_of ''pad'' ''leader'')
         (insert_config (paired_config ''arm'' ''follower'')
           (insert_config (paired_config ''pad'' ''leader'') core_stack)))"

definition teleop_slot :: "string \<Rightarrow> slot_addr" where
  "teleop_slot i = \<lparr>sa_core_node = ''core'', sa_instance_id = i, sa_link_id = ''peer''\<rparr>"

lemma teleop_run: "stack_run slab_graph closure_scc teleop_stack"
proof -
  let ?pad = "sample_entity_of (paired_config ''pad'' ''leader'')"
  let ?arm = "sample_entity_of (paired_config ''arm'' ''follower'')"
  have pad: "push_entity slab_graph closure_scc ?pad False core_stack = (Inr (), insert_new_entity slab_graph ?pad core_stack)"
  proof (rule push_new)
    show "find_service_action_cycle closure_scc (cycle_check_view slab_graph core_stack ?pad) = None"
      by (rule no_calls_no_cycle) code_simp+
  qed code_simp+
  have arm: "push_entity slab_graph closure_scc ?arm False (insert_new_entity slab_graph ?pad core_stack) =
      (Inr (), insert_new_entity slab_graph ?arm (insert_new_entity slab_graph ?pad core_stack))"
  proof (rule push_new)
    show "find_service_action_cycle closure_scc (cycle_check_view slab_graph
        (insert_new_entity slab_graph ?pad core_stack) ?arm) = None"
      by (rule no_calls_no_cycle) code_simp+
  qed code_simp+
  let ?s = "insert_new_entity slab_graph ?arm (insert_new_entity slab_graph ?pad core_stack)"
  have "ent_config (running_of ''pad'' ''leader'') = ent_config (heap ?s 1)"
    and arm_config: "ent_config (running_of ''arm'' ''follower'') =
      ent_config (heap (write_entity 1 (running_of ''pad'' ''leader'') ?s) 2)"
    by code_simp+
  note stack_run.step [OF push_new_run [OF push_new_run [OF core_run pad] arm] stack_step.edit [OF this(1)]]
  then show ?thesis
    unfolding teleop_stack_def by (rule stack_run.step [OF _ stack_step.edit [OF arm_config]])
qed


theorem registry_never_duplicates_witness:
  "distinct (map pair_ends (stack_pairs (snd (the (pair_slots slab_graph (teleop_slot ''pad'')
     (teleop_slot ''arm'') teleop_stack))))) \<and>
   length (stack_pairs (snd (the (pair_slots slab_graph (teleop_slot ''pad'')
     (teleop_slot ''arm'') teleop_stack)))) = 1"
proof -
  let ?p = "pair_slots slab_graph (teleop_slot ''pad'') (teleop_slot ''arm'') teleop_stack"
  have len: "length (stack_pairs (snd (the ?p))) = 1" "\<not> Option.is_none ?p" by code_simp+
  then obtain r s' where "?p = Some (r, s')" by (cases ?p) (auto simp: Option.is_none_def)
  then have step: "(pair_step slab_graph)\<^sup>*\<^sup>* teleop_stack (snd (the ?p))"
    unfolding pair_slots_def using pair_step.made by (metis option.sel r_into_rtranclp snd_conv)
  have "stack_pairs teleop_stack = []" by code_simp
  from registry_never_duplicates [OF this step] len(1) show ?thesis by simp
qed

theorem record_held_pair_holds_one_witness:
  "\<exists>e' t'. record_held_pair \<lparr>own = teleop_slot ''arm'', peer = teleop_slot ''pad'', peer_remote_meta = None\<rparr>
       (running_of ''arm'' ''follower'') = (Some [], e') \<and>
     instance_mut e' ''arm'' = Some t' \<and>
     set (held_pairs (inst_supervision t')) =
       {\<lparr>own = teleop_slot ''arm'', peer = teleop_slot ''pad'', peer_remote_meta = None\<rparr>}"
proof -
  let ?pair = "\<lparr>own = teleop_slot ''arm'', peer = teleop_slot ''pad'', peer_remote_meta = None\<rparr>"
  let ?t = "fst (tracked_new ''arm'' Running Map.empty sample_world)"
  have id: "sa_instance_id (own ?pair) = ''arm''" by (simp add: teleop_slot_def)
  have found: "instance_mut (running_of ''arm'' ''follower'') (sa_instance_id (own ?pair)) = Some ?t"
    by (simp add: instance_mut_def instances_mut_def running_of_def teleop_slot_def tracked_new_def Let_def
        case_prod_beta)
  have "pairing_slot_cardinality (running_of ''arm'' ''follower'') (sa_link_id (own ?pair)) = Some One"
    by code_simp
  moreover have "held_pairs (inst_supervision ?t) = []"
    by (simp add: tracked_new_def Let_def case_prod_beta supervision_default_def)
  ultimately show ?thesis
    using record_held_pair_holds_one [OF found] unfolding id by (fastforce simp: Let_def)
qed

end
