(* ===== verification/Stack_Edits.thy ===== *)
theory Stack_Edits
  imports Stack_Pairing
begin

text \<open>
  The calls of \<open>NodeStack\<close> that reach one instance by its id: reads of what a caller may ask about it,
  and edits of its entity under the entity's write lock. An edit finds the entity under the stack's
  read lock and takes the entity's lock after releasing it, so another task may run in between;
  \<open>interfere\<close> is what such a task does to the stack.
\<close>

section \<open>Reads\<close>

definition live_credential :: "'g petgraph \<Rightarrow> 'g node_stack \<Rightarrow> string \<Rightarrow> string option" where
  "live_credential G s i =
     Option.bind (stack_tracked G s i (\<lambda>tr.
       Option.bind (live_incarnation (tr_instance tr))
         (\<lambda>_. map_option sf_credential (inst_spawn_files (tr_instance tr))))) id"

definition stack_live_incarnation :: "'g petgraph \<Rightarrow> 'g node_stack \<Rightarrow> string \<Rightarrow> u64 option" where
  "stack_live_incarnation G s i =
     Option.bind (stack_tracked G s i (\<lambda>tr. live_incarnation (tr_instance tr))) id"

definition or_false :: "bool option \<Rightarrow> bool" where
  "or_false b = (case b of None \<Rightarrow> False | Some v \<Rightarrow> v)"

definition stack_runs_process :: "'g petgraph \<Rightarrow> 'g node_stack \<Rightarrow> string \<Rightarrow> u32 \<Rightarrow> bool" where
  "stack_runs_process G s i p = or_false (stack_tracked G s i (\<lambda>tr. runs_process (tr_instance tr) p))"

definition stack_keeps_held_pair :: "'g petgraph \<Rightarrow> 'g node_stack \<Rightarrow> slot_addr \<Rightarrow> slot_addr \<Rightarrow> bool" where
  "stack_keeps_held_pair G s own_slot peer_slot =
     or_false (stack_tracked G s (sa_instance_id own_slot)
       (\<lambda>tr. keeps_held_pair (tr_instance tr) own_slot peer_slot))"

section \<open>Edits\<close>

type_synonym 'g stack_interference = "'g node_stack \<Rightarrow> 'g node_stack"

definition edit_any_state ::
    "'g petgraph \<Rightarrow> 'g stack_interference \<Rightarrow> string \<Rightarrow> (node_entity \<Rightarrow> 'a \<times> node_entity) \<Rightarrow>
     'g node_stack \<Rightarrow> 'a option \<times> 'g node_stack" where
  "edit_any_state G interfere i edit s =
     (case find_entity_any_state G s i of
        None \<Rightarrow> (None, s)
      | Some h \<Rightarrow>
          let s1 = interfere s; (r, e) = edit (heap s1 h) in (Some r, write_entity h e s1))"

definition stack_set_instance_slot_binding ::
    "'g petgraph \<Rightarrow> 'g stack_interference \<Rightarrow> string \<Rightarrow> string \<Rightarrow> bound_producers \<Rightarrow> 'g node_stack \<Rightarrow>
     bool \<times> 'g node_stack" where
  "stack_set_instance_slot_binding G interfere i link producers s =
     (case find_entity_by_instance_id G s i of
        None \<Rightarrow> (False, s)
      | Some h \<Rightarrow>
          let s1 = interfere s; (r, e) = set_instance_slot_binding i link producers (heap s1 h)
          in (r, write_entity h e s1))"

definition stack_record_slot_binding_for_restart ::
    "'g petgraph \<Rightarrow> 'g stack_interference \<Rightarrow> string \<Rightarrow> string \<Rightarrow> bound_producers \<Rightarrow> 'g node_stack \<Rightarrow>
     bool \<times> 'g node_stack" where
  "stack_record_slot_binding_for_restart G interfere i link producers s =
     (let (r, s') = edit_any_state G interfere i (record_slot_binding_for_restart i link producers) s
      in (or_false r, s'))"

definition stack_record_held_pair ::
    "'g petgraph \<Rightarrow> 'g stack_interference \<Rightarrow> planned_pair \<Rightarrow> 'g node_stack \<Rightarrow>
     planned_pair list \<times> 'g node_stack" where
  "stack_record_held_pair G interfere pair s =
     (let (r, s') = edit_any_state G interfere (sa_instance_id (own pair)) (record_held_pair pair) s
      in (case Option.bind r id of None \<Rightarrow> [] | Some displaced \<Rightarrow> displaced, s'))"

definition stack_forget_held_pair ::
    "'g petgraph \<Rightarrow> 'g stack_interference \<Rightarrow> planned_pair \<Rightarrow> 'g node_stack \<Rightarrow> 'g node_stack" where
  "stack_forget_held_pair G interfere pair s =
     snd (edit_any_state G interfere (sa_instance_id (own pair)) (\<lambda>e. ((), forget_held_pair pair e)) s)"

definition stack_forget_pairs_held_with ::
    "'g petgraph \<Rightarrow> (nat \<Rightarrow> 'g stack_interference) \<Rightarrow> string \<Rightarrow> string \<Rightarrow> 'g node_stack \<Rightarrow> 'g node_stack" where
  "stack_forget_pairs_held_with G interfere core_node i s =
     fold (\<lambda>h s. let s1 = interfere h s in write_entity h (forget_pairs_held_with core_node i (heap s1 h)) s1)
       (node_weights G (graph s)) s"

definition stack_record_observations_for_restart ::
    "'g petgraph \<Rightarrow> 'g stack_interference \<Rightarrow> string \<Rightarrow> (string \<rightharpoonup> observation_targets) \<Rightarrow> 'g node_stack \<Rightarrow>
     bool \<times> 'g node_stack" where
  "stack_record_observations_for_restart G interfere i observations s =
     (let (r, s') = edit_any_state G interfere i (record_observations_for_restart i observations) s
      in (or_false r, s'))"

definition stack_record_watchers_for_restart ::
    "'g petgraph \<Rightarrow> 'g stack_interference \<Rightarrow> string \<Rightarrow> string list \<Rightarrow> 'g node_stack \<Rightarrow> 'g node_stack" where
  "stack_record_watchers_for_restart G interfere i ws s =
     snd (edit_any_state G interfere i (\<lambda>e. ((), record_watchers_for_restart i ws e)) s)"

definition stack_arm_health_kill ::
    "'g petgraph \<Rightarrow> 'g stack_interference \<Rightarrow> string \<Rightarrow> health_kill \<Rightarrow> 'g node_stack \<Rightarrow>
     process_group option \<times> 'g node_stack" where
  "stack_arm_health_kill G interfere i kill s =
     (let (r, s') = edit_any_state G interfere i (arm_health_kill i kill) s in (Option.bind r id, s'))"

definition set_add_log_path :: "string \<Rightarrow> string \<Rightarrow> string \<Rightarrow> 'g node_stack \<Rightarrow> 'g node_stack" where
  "set_add_log_path n t path s = s\<lparr>add_log_paths := (add_log_paths s)(node_key_new n t \<mapsto> path)\<rparr>"

section \<open>An edit is a step of the stack\<close>

text \<open>An edit of the entity an instance lives in, after what other tasks did to the stack.\<close>

lemma edit_any_state_step:
  assumes "\<And>e. ent_config (snd (edit e)) = ent_config e"
    and "(stack_step G scc)\<^sup>*\<^sup>* s (interfere s)"
  shows "(stack_step G scc)\<^sup>*\<^sup>* s (snd (edit_any_state G interfere i edit s))"
proof (cases "find_entity_any_state G s i")
  case None
  then show ?thesis by (simp add: edit_any_state_def)
next
  case (Some h)
  have "stack_step G scc (interfere s) (write_entity h (snd (edit (heap (interfere s) h))) (interfere s))"
    by (rule stack_step.edit) (rule assms(1))
  with assms(2) Some show ?thesis
    by (simp add: edit_any_state_def Let_def case_prod_beta)
qed

lemma edits_keep_config:
  "ent_config (snd (record_slot_binding_for_restart i link producers e)) = ent_config e"
  "ent_config (snd (record_held_pair pair e)) = ent_config e"
  "ent_config (forget_held_pair pair e) = ent_config e"
  "ent_config (forget_pairs_held_with core_node i e) = ent_config e"
  "ent_config (snd (record_observations_for_restart i observations e)) = ent_config e"
  "ent_config (record_watchers_for_restart i ws e) = ent_config e"
  "ent_config (snd (arm_health_kill i kill e)) = ent_config e"
  "ent_config (snd (set_instance_slot_binding i link producers e)) = ent_config e"
  by (simp_all add: op_defs edit_instance_def edit_restarting_def Let_def case_prod_beta
      record_slot_binding_for_restart_def record_held_pair_def forget_held_pair_def
      forget_pairs_held_with_def record_observations_for_restart_def record_watchers_for_restart_def
      arm_health_kill_def set_instance_slot_binding_def split: option.split)

text \<open>
  Every edit through the stack is a run of the stack, so the graph, the keys and the pending
  requirements stay those of the declared dependencies whatever other tasks do in between.
\<close>

lemma stack_edits_are_steps:
  assumes other: "\<And>s. (stack_step G scc)\<^sup>*\<^sup>* s (interfere s)"
  shows "(stack_step G scc)\<^sup>*\<^sup>* s (snd (stack_set_instance_slot_binding G interfere i link producers s))"
    "(stack_step G scc)\<^sup>*\<^sup>* s (snd (stack_record_slot_binding_for_restart G interfere i link producers s))"
    "(stack_step G scc)\<^sup>*\<^sup>* s (snd (stack_record_held_pair G interfere pair s))"
    "(stack_step G scc)\<^sup>*\<^sup>* s (stack_forget_held_pair G interfere pair s)"
    "(stack_step G scc)\<^sup>*\<^sup>* s (snd (stack_record_observations_for_restart G interfere i observations s))"
    "(stack_step G scc)\<^sup>*\<^sup>* s (stack_record_watchers_for_restart G interfere i ws s)"
    "(stack_step G scc)\<^sup>*\<^sup>* s (snd (stack_arm_health_kill G interfere i kill s))"
proof -
  show "(stack_step G scc)\<^sup>*\<^sup>* s (snd (stack_set_instance_slot_binding G interfere i link producers s))"
  proof (cases "find_entity_by_instance_id G s i")
    case (Some h)
    have "stack_step G scc (interfere s)
        (write_entity h (snd (set_instance_slot_binding i link producers (heap (interfere s) h))) (interfere s))"
      by (rule stack_step.edit) (rule edits_keep_config(8))
    with other [of s] Some show ?thesis
      by (simp add: stack_set_instance_slot_binding_def Let_def case_prod_beta)
  qed (simp add: stack_set_instance_slot_binding_def)
qed (simp_all add: stack_record_slot_binding_for_restart_def stack_record_held_pair_def stack_forget_held_pair_def
      stack_record_observations_for_restart_def stack_record_watchers_for_restart_def stack_arm_health_kill_def
      case_prod_beta Let_def edit_any_state_step edits_keep_config other)

lemma stack_forget_pairs_is_steps:
  assumes other: "\<And>h s. (stack_step G scc)\<^sup>*\<^sup>* s (interfere h s)"
  shows "(stack_step G scc)\<^sup>*\<^sup>* s (stack_forget_pairs_held_with G interfere core_node i s)"
proof -
  let ?one = "\<lambda>h s. let s1 = interfere h s in write_entity h (forget_pairs_held_with core_node i (heap s1 h)) s1"
  have "stack_step G scc (interfere h s)
      (write_entity h (forget_pairs_held_with core_node i (heap (interfere h s) h)) (interfere h s))" for h s
    by (rule stack_step.edit) (rule edits_keep_config(4))
  with other have one: "(stack_step G scc)\<^sup>*\<^sup>* s (?one h s)" for h s
    unfolding Let_def by (meson rtranclp.rtrancl_into_rtrancl)
  have "(stack_step G scc)\<^sup>*\<^sup>* s (fold ?one hs s)" for hs s
  proof (induction hs arbitrary: s)
    case (Cons h hs)
    have "(stack_step G scc)\<^sup>*\<^sup>* s (fold ?one hs (?one h s))"
      using one [of s h] Cons.IH [of "?one h s"] by (rule rtranclp_trans)
    then show ?case by simp
  qed simp
  then show ?thesis unfolding stack_forget_pairs_held_with_def .
qed

end
