(* ===== verification/Serialized_Graph.thy ===== *)
theory Serialized_Graph
  imports Stack_Pairing Stack_Samples
begin

text \<open>
  What the daemon shows of its stack: \<open>NodeStack::to_serialized_graph\<close> against the stack it was taken of.
\<close>

definition sn_key :: "serialized_node \<Rightarrow> node_key" where
  "sn_key n = node_key_new (sn_name n) (sn_tag n)"

definition instance_states :: "serialized_node \<Rightarrow> (string \<times> instance_state) list" where
  "instance_states n = map (\<lambda>i. (si_instance_id i, si_state i)) (sn_instances n)"

definition direct_edges :: "serialized_node_graph \<Rightarrow> (node_key \<times> node_key) set" where
  "direct_edges g = {(sn_key (se_from e), sn_key (se_to e)) | e. e \<in> set (sg_edges g) \<and> se_via_contract e = None}"

lemma serialized_key: "sn_key (serialize_node_entity e core w) = key_from_entity e"
  by (simp add: sn_key_def serialize_node_entity_def key_from_entity_def)

lemma serialized_instances:
  "instance_states (serialize_node_entity e core w) = map (\<lambda>t. (instance_id t, inst_state t)) (instances e)"
  by (simp add: instance_states_def serialize_node_entity_def)

text \<open>The overlay of the pairing slots changes neither the key nor an instance's state.\<close>

lemma overlay_key: "sn_key (overlay_pairing_slots core pairs c n) = sn_key n"
  by (simp add: overlay_pairing_slots_def sn_key_def split: option.split)

lemma overlay_instances: "instance_states (overlay_pairing_slots core pairs c n) = instance_states n"
  by (auto simp: overlay_pairing_slots_def instance_states_def split: option.split)

lemma live_pairs_filtered_Some: "wired G s \<Longrightarrow> \<exists>ps. live_pairs_filtered G s = Some ps"
  using rooted_name [of G s] by (auto simp: live_pairs_filtered_def)

lemma weights_distinct_keys:
  assumes "stable_digraph G" "indexed G s"
  shows "distinct (map (\<lambda>h. key_from_entity (heap s h)) (node_weights G (graph s)))"
proof -
  let ?key = "\<lambda>i. key_from_entity (heap s (the (node_weight G (graph s) i)))"
  have idx: "distinct (node_indices G (graph s))" "set (node_indices G (graph s)) = dom (node_weight G (graph s))"
    using stable_digraph_nodes(7,8) [OF assms(1)] by simp_all
  have all: "map (\<lambda>h. key_from_entity (heap s h)) (node_weights G (graph s)) = map ?key (node_indices G (graph s))"
  proof -
    have "filter (\<lambda>i. node_weight G (graph s) i \<noteq> None) (node_indices G (graph s)) = node_indices G (graph s)"
      using idx(2) by (auto simp: filter_id_conv)
    then show ?thesis by (simp add: node_weights_def map_filter_def comp_def)
  qed
  have "i = j" if "i \<in> dom (node_weight G (graph s))" "j \<in> dom (node_weight G (graph s))" "?key i = ?key j" for i j
    using that indexedD(2) [OF assms(2)] by (metis domD option.inject option.sel)
  then show ?thesis unfolding all using idx by (simp add: distinct_map inj_on_def)
qed

lemma weight_keys:
  assumes "stable_digraph G" "indexed G s"
  shows "h \<in> set (node_weights G (graph s)) \<longleftrightarrow> stack_find G s (key_from_entity (heap s h)) = Some h"
  unfolding set_node_weights [OF assms(1)] ran_def stack_find_def
  using indexedD(1,2) [OF assms(2)] by (fastforce simp: bind_eq_Some_conv)

lemma set_map_filter_iff: "y \<in> set (List.map_filter f xs) \<longleftrightarrow> (\<exists>x \<in> set xs. f x = Some y)"
  by (force simp: map_filter_def)

text \<open>The edges of the graph, each shown between the nodes at its ends.\<close>

definition shown_edge :: "'g petgraph \<Rightarrow> 'g node_stack \<Rightarrow> string \<Rightarrow> world \<Rightarrow> nat \<Rightarrow> serialized_edge option" where
  "shown_edge G s core w edge =
     Option.bind (edge_endpoints G (graph s) edge) (\<lambda>(src, dst).
     Option.bind (node_weight G (graph s) src) (\<lambda>hs.
     Option.bind (node_weight G (graph s) dst) (\<lambda>hd.
     Some \<lparr>se_from = serialize_node_entity (heap s hs) core w, se_to = serialize_node_entity (heap s hd) core w,
           se_via_contract = None\<rparr>)))"

lemma shown_edges_keys:
  assumes "stable_digraph G" "indexed G s"
  shows "{(sn_key (se_from e), sn_key (se_to e)) | e. e \<in> set (List.map_filter (shown_edge G s core w) (edge_indices G (graph s)))} =
    key_edges G s"
proof -
  have indices: "set (edge_indices G (graph s)) = dom (edge_endpoints G (graph s))"
    using stable_digraphD(3) [OF assms(1)] by (simp add: query_laws_def)
  have mem: "e \<in> set (List.map_filter (shown_edge G s core w) (edge_indices G (graph s))) \<longleftrightarrow>
      (\<exists>i j hs ht. (i, j) \<in> edge_set G (graph s) \<and> node_weight G (graph s) i = Some hs \<and>
         node_weight G (graph s) j = Some ht \<and>
         e = \<lparr>se_from = serialize_node_entity (heap s hs) core w, se_to = serialize_node_entity (heap s ht) core w,
              se_via_contract = None\<rparr>)" for e
  proof -
    have "e \<in> set (List.map_filter (shown_edge G s core w) (edge_indices G (graph s))) \<longleftrightarrow>
        (\<exists>x. shown_edge G s core w x = Some e)"
    proof -
      have "x \<in> dom (edge_endpoints G (graph s))" if "shown_edge G s core w x = Some e" for x
        using that by (cases "edge_endpoints G (graph s) x") (simp_all add: shown_edge_def domI)
      then show ?thesis unfolding set_map_filter_iff indices by blast
    qed
    then show ?thesis
      by (auto simp: shown_edge_def bind_eq_Some_conv edge_set_def ran_def) blast+
  qed
  have at: "key_to_index s k = Some i \<longleftrightarrow> (\<exists>h. node_weight G (graph s) i = Some h \<and> key_from_entity (heap s h) = k)" for k i
    using assms(2) unfolding indexed_def by blast
  show ?thesis
    unfolding key_edges_def mem at by (auto simp: serialized_key) (metis serialized_key serialized_edge.select_convs(1,2))+
qed

text \<open>
  C22: The graph the daemon shows is its stack. In every run of the stack it can be taken; it has every
  node once, with the instances of the node in their states, and its direct edges are exactly the
  dependencies the manifests declare on nodes of the stack.
\<close>

theorem serialized_graph_is_stack:
  assumes "stable_digraph G" "stack_run G scc s"
  shows "\<exists>g. to_serialized_graph G s w = Some g \<and> distinct (map sn_key (sg_nodes g)) \<and>
    sn_key ` set (sg_nodes g) = dom (entity_at G s) \<and>
    (\<forall>n \<in> set (sg_nodes g). \<exists>e. entity_at G s (sn_key n) = Some e \<and>
       instance_states n = map (\<lambda>t. (instance_id t, inst_state t)) (instances e)) \<and>
    direct_edges g = {(k, k'). declared (config_at G s) k k' \<and> config_at G s k' \<noteq> None}"
proof -
  have wired: "wired G s" by (rule stack_run_wired [OF assms])
  note ix = wiredD(3) [OF wired]
  obtain ps where ps: "live_pairs_filtered G s = Some ps" using live_pairs_filtered_Some [OF wired] by blast
  let ?core = "nk_name (root_key s)"
  define node where "node = (\<lambda>h. overlay_pairing_slots ?core ps (ent_config (heap s h)) (serialize_node_entity (heap s h) ?core w))"
  define implemented where "implemented = List.map_filter (\<lambda>edge.
      Option.bind (node_by_key (map node (node_weights G (graph s))) (cie_consumer_name edge, cie_consumer_tag edge)) (\<lambda>from.
      Option.bind (node_by_key (map node (node_weights G (graph s))) (cie_provider_name edge, cie_provider_tag edge)) (\<lambda>to.
      Some \<lparr>se_from = from, se_to = to,
            se_via_contract = Some (edge_label (cie_contract_name edge) (cie_contract_tag edge))\<rparr>)))
    (collect_contract_implementation_edges (map (\<lambda>h. ent_config (heap s h)) (node_weights G (graph s))))"
  define direct where "direct = List.map_filter (shown_edge G s ?core w) (edge_indices G (graph s))"
  define g where "g = \<lparr>sg_nodes = map node (node_weights G (graph s)), sg_edges = direct @ implemented\<rparr>"
  have shown: "to_serialized_graph G s w = Some g"
    unfolding to_serialized_graph_def ps g_def direct_def implemented_def node_def shown_edge_def [abs_def] Let_def
    by simp
  have node: "sn_key (node h) = key_from_entity (heap s h)"
    "instance_states (node h) = map (\<lambda>t. (instance_id t, inst_state t)) (instances (heap s h))" for h
    by (simp_all add: node_def overlay_key serialized_key overlay_instances serialized_instances)
  have at: "entity_at G s (sn_key (node h)) = Some (heap s h)" if "h \<in> set (node_weights G (graph s))" for h
    using that weight_keys [OF assms(1) ix] by (simp add: node entity_at_def)
  have "distinct (map sn_key (sg_nodes g))"
    using weights_distinct_keys [OF assms(1) ix] by (simp add: g_def comp_def node)
  moreover have "sn_key ` set (sg_nodes g) = dom (entity_at G s)"
  proof -
    have "k \<in> sn_key ` set (sg_nodes g)" if "stack_find G s k = Some h" for k h
    proof -
      have "key_from_entity (heap s h) = k" "h \<in> ran (node_weight G (graph s))"
        using that indexedD(1) [OF ix, of k] by (auto simp: stack_find_def bind_eq_Some_conv ran_def)
      then show ?thesis
        unfolding g_def using set_node_weights [OF assms(1), of "graph s"] node(1) [of h] by force
    qed
    then have "dom (entity_at G s) \<subseteq> sn_key ` set (sg_nodes g)"
      by (auto simp: entity_at_def)
    moreover have "sn_key ` set (sg_nodes g) \<subseteq> dom (entity_at G s)"
      using at by (auto simp: g_def)
    ultimately show ?thesis by blast
  qed
  moreover have "direct_edges g = key_edges G s"
  proof -
    have plain: "se_via_contract e = None" if "e \<in> set direct" for e
      using that by (auto simp: direct_def set_map_filter_iff shown_edge_def bind_eq_Some_conv)
    have labelled: "se_via_contract e \<noteq> None" if "e \<in> set implemented" for e
      using that by (auto simp: implemented_def set_map_filter_iff bind_eq_Some_conv)
    have "e \<in> set (sg_edges g) \<and> se_via_contract e = None \<longleftrightarrow> e \<in> set direct" for e
      using plain [of e] labelled [of e] by (auto simp: g_def)
    then have "direct_edges g = {(sn_key (se_from e), sn_key (se_to e)) | e. e \<in> set direct}"
      unfolding direct_edges_def by simp
    then show ?thesis unfolding direct_def shown_edges_keys [OF assms(1) ix] .
  qed
  moreover have "\<forall>n \<in> set (sg_nodes g). \<exists>e. entity_at G s (sn_key n) = Some e \<and>
      instance_states n = map (\<lambda>t. (instance_id t, inst_state t)) (instances e)"
    using at node(2) by (auto simp: g_def)
  ultimately show ?thesis
    unfolding wired_by_keys(1) [OF wired] using shown by (intro exI [of _ g] conjI)
qed

theorem serialized_graph_is_stack_witness:
  "\<exists>g. to_serialized_graph slab_graph camera_stack sample_world = Some g \<and>
     (node_key_new ''viewer'' ''v1'', node_key_new ''camera'' ''v1'') \<in> direct_edges g"
proof -
  have "declared (config_at slab_graph camera_stack) (node_key_new ''viewer'' ''v1'') (node_key_new ''camera'' ''v1'')"
    "config_at slab_graph camera_stack (node_key_new ''camera'' ''v1'') \<noteq> None"
    by code_simp+
  with serialized_graph_is_stack [OF on_slab, of sample_world] show ?thesis by auto
qed

end
