(* ===== verification/Bytes_Text.thy ===== *)
theory Bytes_Text
  imports Prelude
begin

text \<open>
  Results, text and bytes as the messaging crates use them: the early return of \<open>?\<close> on a
  \<open>Result\<close>, \<open>str::split\<close> on one character and the keys the format strings join with it,
  \<open>str::strip_prefix\<close>, and the big-endian bytes of an integer. A Rust string is the list of its
  UTF-8 bytes, so \<open>as_bytes\<close> only changes the type of its elements and \<open>len\<close> is the length.
\<close>

named_theorems result_simps \<open>when a chain of fallible steps succeeds\<close>

section \<open>Results\<close>

text \<open>The \<open>?\<close> operator: the error returns at once, the value goes on.\<close>

definition and_then :: "'e + 'a \<Rightarrow> ('a \<Rightarrow> 'e + 'b) \<Rightarrow> 'e + 'b" where
  "and_then r f = (case r of Inl e \<Rightarrow> Inl e | Inr x \<Rightarrow> f x)"

text \<open>\<open>ok_or\<close>, \<open>map_err\<close> and \<open>Option::transpose\<close>.\<close>

definition ok_or :: "'e \<Rightarrow> 'a option \<Rightarrow> 'e + 'a" where
  "ok_or e x = (case x of None \<Rightarrow> Inl e | Some v \<Rightarrow> Inr v)"

definition map_err :: "('e \<Rightarrow> 'f) \<Rightarrow> 'e + 'a \<Rightarrow> 'f + 'a" where
  "map_err f r = map_sum f id r"

definition transpose :: "('e + 'a) option \<Rightarrow> 'e + 'a option" where
  "transpose x = (case x of None \<Rightarrow> Inr None | Some r \<Rightarrow> map_sum id Some r)"

lemma and_then_simps [simp]: "and_then (Inl e) f = Inl e" "and_then (Inr x) f = f x"
  by (simp_all add: and_then_def)

lemma and_then_Inr [result_simps]:
  "and_then r f = Inr y \<longleftrightarrow> (\<exists>x. r = Inr x \<and> f x = Inr y)"
  by (cases r) simp_all

lemma ok_or_simps [simp]: "ok_or e None = Inl e" "ok_or e (Some x) = Inr x"
  by (simp_all add: ok_or_def)

lemma ok_or_Inr [result_simps]: "ok_or e x = Inr y \<longleftrightarrow> x = Some y"
  by (cases x) simp_all

lemma map_err_simps [simp]: "map_err f (Inl e) = Inl (f e)" "map_err f (Inr x) = Inr x"
  by (simp_all add: map_err_def)

lemma map_err_Inr [result_simps]: "map_err f r = Inr y \<longleftrightarrow> r = Inr y"
  by (cases r) simp_all

lemma transpose_simps [simp]:
  "transpose None = Inr None" "transpose (Some r) = map_sum id Some r"
  by (simp_all add: transpose_def)

lemma transpose_Inr [result_simps]:
  "transpose x = Inr y \<longleftrightarrow>
     (case x of None \<Rightarrow> y = None | Some r \<Rightarrow> (\<exists>v. r = Inr v \<and> y = Some v))"
  by (cases x) auto

section \<open>Split and join\<close>

fun split_on :: "char \<Rightarrow> string \<Rightarrow> string list" where
  "split_on c [] = [[]]"
| "split_on c (x # xs) =
     (if x = c then [] # split_on c xs
      else case split_on c xs of [] \<Rightarrow> [[x]] | s # ss \<Rightarrow> (x # s) # ss)"

fun join_with :: "char \<Rightarrow> string list \<Rightarrow> string" where
  "join_with c [] = []"
| "join_with c [s] = s"
| "join_with c (s # t # ss) = s @ c # join_with c (t # ss)"

definition strip_prefix :: "string \<Rightarrow> string \<Rightarrow> string option" where
  "strip_prefix p s = (if take (length p) s = p then Some (drop (length p) s) else None)"

text \<open>The texts the format strings of the sources join with slashes.\<close>

abbreviation slashed :: "string list \<Rightarrow> string" where
  "slashed \<equiv> join_with CHR ''/''"

abbreviation chunks :: "string \<Rightarrow> string list" where
  "chunks \<equiv> split_on CHR ''/''"

lemma split_on_neq_Nil [simp]: "split_on c s \<noteq> []"
  by (induction s) (auto split: list.split)

lemma join_with_Cons: "ss \<noteq> [] \<Longrightarrow> join_with c (s # ss) = s @ c # join_with c ss"
  by (cases ss) simp_all

lemma join_split [simp]: "join_with c (split_on c s) = s"
proof (induction s)
  case (Cons x s)
  show ?case
  proof (cases "x = c")
    case True
    with Cons show ?thesis by (simp add: join_with_Cons)
  next
    case False
    obtain t ts where "split_on c s = t # ts" by (cases "split_on c s") auto
    with Cons False show ?thesis by (cases ts) auto
  qed
qed simp

lemma split_on_free: "c \<notin> set s \<Longrightarrow> split_on c s = [s]"
  by (induction s) auto

lemma split_on_append:
  "c \<notin> set s \<Longrightarrow> split_on c (s @ c # t) = s # split_on c t"
  by (induction s) auto

lemma split_on_append_any: "split_on c (s @ c # t) = split_on c s @ split_on c t"
proof (induction s)
  case (Cons x s)
  then show ?case by (cases "split_on c s") auto
qed simp

lemma split_join:
  "ss \<noteq> [] \<Longrightarrow> list_all (\<lambda>s. c \<notin> set s) ss \<Longrightarrow> split_on c (join_with c ss) = ss"
  by (induction c ss rule: join_with.induct) (simp_all add: split_on_free split_on_append)

lemma split_on_chunk_free: "s \<in> set (split_on c t) \<Longrightarrow> c \<notin> set s"
proof (induction t arbitrary: s)
  case (Cons x t)
  obtain u us where u: "split_on c t = u # us" by (cases "split_on c t") auto
  with Cons show ?case by (auto split: if_splits)
qed simp

lemma join_with_append:
  "xs \<noteq> [] \<Longrightarrow> ys \<noteq> [] \<Longrightarrow> join_with c (xs @ ys) = join_with c xs @ c # join_with c ys"
proof (induction xs)
  case (Cons x xs)
  then show ?case by (cases "xs = []") (simp_all add: join_with_Cons)
qed simp

text \<open>A key whose last part is itself joined: its chunks are those of the parts.\<close>

lemma slashed_nested: "ys \<noteq> [] \<Longrightarrow> join_with c (xs @ [join_with c ys]) = join_with c (xs @ ys)"
  by (cases "xs = []") (simp_all add: join_with_append)

lemma slashed_nested_front:
  "xs \<noteq> [] \<Longrightarrow> join_with c (join_with c xs # ys) = join_with c (xs @ ys)"
  by (cases "ys = []") (simp_all add: join_with_append join_with_Cons)

lemma join_inject:
  assumes "xs \<noteq> []" "ys \<noteq> []" "list_all (\<lambda>s. c \<notin> set s) xs" "list_all (\<lambda>s. c \<notin> set s) ys"
  shows "join_with c xs = join_with c ys \<longleftrightarrow> xs = ys"
  using split_join [OF assms(1,3)] split_join [OF assms(2,4)] by metis

lemma strip_prefix_Some: "strip_prefix p s = Some r \<longleftrightarrow> s = p @ r"
  by (auto simp: strip_prefix_def) (metis append_take_drop_id)

lemma strip_prefix_append [simp]: "strip_prefix p (p @ r) = Some r"
  by (simp add: strip_prefix_Some)

section \<open>Bytes\<close>

type_synonym byte = "8 word"

definition as_bytes :: "string \<Rightarrow> byte list" where
  "as_bytes s = map (\<lambda>c. of_nat (of_char c)) s"

text \<open>The big-endian bytes of \<open>v\<close> in \<open>k\<close> bytes (\<open>to_be_bytes\<close>), and their value.\<close>

fun be_bytes :: "nat \<Rightarrow> nat \<Rightarrow> byte list" where
  "be_bytes 0 v = []"
| "be_bytes (Suc k) v = be_bytes k (v div 256) @ [of_nat (v mod 256)]"

definition be_value :: "byte list \<Rightarrow> nat" where
  "be_value bs = foldl (\<lambda>acc b. 256 * acc + unat b) 0 bs"

definition u64_be :: "u64 \<Rightarrow> byte list" where
  "u64_be w = be_bytes 8 (unat w)"

definition u32_be :: "u32 \<Rightarrow> byte list" where
  "u32_be w = be_bytes 4 (unat w)"

definition u64_from_be :: "byte list \<Rightarrow> u64" where
  "u64_from_be bs = of_nat (be_value bs)"

definition u32_from_be :: "byte list \<Rightarrow> u32" where
  "u32_from_be bs = of_nat (be_value bs)"

lemma inj_char_byte: "inj (\<lambda>c. of_nat (of_char c :: nat) :: byte)"
proof (rule injI)
  fix x y :: char
  assume "(of_nat (of_char x :: nat) :: byte) = of_nat (of_char y :: nat)"
  then have "unat (of_nat (of_char x :: nat) :: byte) = unat (of_nat (of_char y :: nat) :: byte)"
    by simp
  then have "(of_char x :: nat) = of_char y" by (simp add: unat_of_nat)
  then show "x = y" by simp
qed

lemma as_bytes_inject [simp]: "as_bytes s = as_bytes t \<longleftrightarrow> s = t"
proof
  assume "as_bytes s = as_bytes t"
  then show "s = t"
    unfolding as_bytes_def by (rule map_injective) (rule inj_char_byte)
qed simp

lemma length_as_bytes [simp]: "length (as_bytes s) = length s"
  by (simp add: as_bytes_def)

lemma length_be_bytes [simp]: "length (be_bytes k v) = k"
  by (induction k arbitrary: v) simp_all

lemma be_value_bytes: "v < 256 ^ k \<Longrightarrow> be_value (be_bytes k v) = v"
proof (induction k arbitrary: v)
  case 0
  then show ?case by (simp add: be_value_def)
next
  case (Suc k)
  then have "v div 256 < 256 ^ k" by (simp add: less_mult_imp_div_less mult.commute)
  then have "be_value (be_bytes k (v div 256)) = v div 256" by (rule Suc.IH)
  then show ?case by (simp add: be_value_def unat_of_nat)
qed

lemma length_u64_be [simp]: "length (u64_be w) = 8"
  by (simp add: u64_be_def)

lemma length_u32_be [simp]: "length (u32_be w) = 4"
  by (simp add: u32_be_def)

lemma u64_from_to_be [simp]: "u64_from_be (u64_be w) = w"
proof -
  have "unat w < 256 ^ 8" using unsigned_less [of w] by simp
  then show ?thesis by (simp add: u64_from_be_def u64_be_def be_value_bytes)
qed

lemma u32_from_to_be [simp]: "u32_from_be (u32_be w) = w"
proof -
  have "unat w < 256 ^ 4" using unsigned_less [of w] by simp
  then show ?thesis by (simp add: u32_from_be_def u32_be_def be_value_bytes)
qed

lemma be_value_snoc: "be_value (bs @ [b]) = 256 * be_value bs + unat b"
  by (simp add: be_value_def)

lemma be_value_less: "be_value bs < 256 ^ length bs"
proof (induction bs rule: rev_induct)
  case Nil
  then show ?case by (simp add: be_value_def)
next
  case (snoc b bs)
  have "unat b < 256" using unsigned_less [of b] by simp
  with snoc show ?case by (simp add: be_value_snoc)
qed

lemma be_bytes_value: "be_bytes (length bs) (be_value bs) = bs"
proof (induction bs rule: rev_induct)
  case Nil
  then show ?case by simp
next
  case (snoc b bs)
  have "unat b < 256" using unsigned_less [of b] by simp
  with snoc show ?case by (simp add: be_value_snoc)
qed

lemma u64_be_from_be: "length bs = 8 \<Longrightarrow> u64_be (u64_from_be bs) = bs"
  using be_value_less [of bs] be_bytes_value [of bs]
  by (simp add: u64_be_def u64_from_be_def unat_of_nat)

lemma u32_be_from_be: "length bs = 4 \<Longrightarrow> u32_be (u32_from_be bs) = bs"
  using be_value_less [of bs] be_bytes_value [of bs]
  by (simp add: u32_be_def u32_from_be_def unat_of_nat)

lemma u64_be_inject [simp]: "u64_be a = u64_be b \<longleftrightarrow> a = b"
  by (metis u64_from_to_be)

text \<open>A field written after its length: the length and the bytes determine each other.\<close>

definition sized_field :: "byte list \<Rightarrow> byte list" where
  "sized_field bs = u64_be (of_nat (length bs)) @ bs"

lemma sized_field_inject:
  assumes "sized_field x @ r = sized_field y @ r'" "length x < 2 ^ 64" "length y < 2 ^ 64"
  shows "x = y \<and> r = r'"
proof -
  from assms(1) have "u64_be (of_nat (length x)) = u64_be (of_nat (length y)) \<and> x @ r = y @ r'"
    by (simp add: sized_field_def append_eq_append_conv)
  then have "unat (of_nat (length x) :: u64) = unat (of_nat (length y) :: u64)" "x @ r = y @ r'"
    by simp_all
  with assms(2,3) have "length x = length y" "x @ r = y @ r'"
    by (simp_all add: unat_of_nat)
  then show ?thesis by simp
qed

end
