(* ===== verification/Datastore.thy ===== *)
theory Datastore
  imports Stack_Edits Stack_Samples Bytes_Text
begin

text \<open>
  The key/value store of the daemon (\<open>core-node-internal/src/services/datastore.rs\<close>). A key that
  \<open>store_exclusive\<close> wrote has an owner, an instance id with the incarnation of its process, and reads as
  absent once that process is gone. The entries are a \<open>BTreeMap\<close>, here a list in the order of its keys.

  An access reads the owner of its key under the lock of the entries, looks the owner's process up with
  the entries unlocked, and locks them again to act, from the start when the owner changed meanwhile.
  The operations take what happens to the daemon between these sections as a list of gaps. The world
  is polymorphic in the state the lookup reads: \<open>L\<close> is the \<open>InstanceLiveness\<close> of the source, which the
  node stack implements with \<open>stack_live_incarnation\<close>.
\<close>

section \<open>Ordered maps\<close>

fun bt_insert :: "'k::linorder \<Rightarrow> 'v \<Rightarrow> ('k \<times> 'v) list \<Rightarrow> ('k \<times> 'v) list" where
  "bt_insert k v [] = [(k, v)]"
| "bt_insert k v ((k', v') # xs) =
     (if k < k' then (k, v) # (k', v') # xs
      else if k = k' then (k, v) # xs
      else (k', v') # bt_insert k v xs)"

definition bt_remove :: "'k \<Rightarrow> ('k \<times> 'v) list \<Rightarrow> ('k \<times> 'v) list" where
  "bt_remove k xs = filter (\<lambda>x. fst x \<noteq> k) xs"

definition bt_ok :: "('k::linorder \<times> 'v) list \<Rightarrow> bool" where
  "bt_ok xs \<longleftrightarrow> sorted_wrt (<) (map fst xs)"

lemma map_of_bt_insert [simp]: "map_of (bt_insert k v xs) = (map_of xs)(k \<mapsto> v)"
  by (induction xs) auto

lemma map_of_bt_remove [simp]: "map_of (bt_remove k xs) = (map_of xs)(k := None)"
  unfolding bt_remove_def by (rule map_of_filter_key)

lemma bt_insert_keys: "fst ` set (bt_insert k v xs) = insert k (fst ` set xs)"
proof (induction xs)
  case (Cons x xs)
  then show ?case by (cases x) (simp add: insert_commute)
qed simp

lemma bt_ok_Cons: "bt_ok (x # xs) \<longleftrightarrow> (\<forall>k \<in> fst ` set xs. fst x < k) \<and> bt_ok xs"
  by (simp add: bt_ok_def)

lemma bt_ok_insert: "bt_ok xs \<Longrightarrow> bt_ok (bt_insert k v xs)"
proof (induction xs)
  case (Cons x xs)
  obtain k' v' where x: "x = (k', v')" by (cases x)
  consider "k < k'" | "k = k'" | "k' < k" by fastforce
  then show ?case
    by cases (use Cons in \<open>auto simp: x bt_ok_Cons bt_insert_keys simp del: set_map\<close>)
qed (simp add: bt_ok_def)

lemma bt_ok_remove: "bt_ok xs \<Longrightarrow> bt_ok (bt_remove k xs)"
  unfolding bt_ok_def bt_remove_def by (induction xs) auto

lemma bt_ok_distinct: "bt_ok xs \<Longrightarrow> distinct (map fst xs)"
  unfolding bt_ok_def by (simp add: strict_sorted_iff)

section \<open>Entries\<close>

record stored_value =
  sv_value :: "byte list"
  sv_encoding :: string
  sv_last_modified_by :: string

record ds_entry =
  en_stored :: stored_value
  en_owner_incarnation :: "u64 option"

type_synonym ds_owner = "string \<times> u64"
type_synonym ds_entries = "(string \<times> ds_entry) list"

definition entry_new :: "byte list \<Rightarrow> string \<Rightarrow> string \<Rightarrow> u64 option \<Rightarrow> ds_entry" where
  "entry_new v enc writer inc =
     \<lparr>en_stored = \<lparr>sv_value = v, sv_encoding = enc, sv_last_modified_by = writer\<rparr>, en_owner_incarnation = inc\<rparr>"

definition entry_owner :: "ds_entry \<Rightarrow> ds_owner option" where
  "entry_owner e = map_option (\<lambda>n. (sv_last_modified_by (en_stored e), n)) (en_owner_incarnation e)"

definition owner_in :: "ds_entries \<Rightarrow> string \<Rightarrow> ds_owner option" where
  "owner_in es key = Option.bind (map_of es key) entry_owner"

definition owner_other_than :: "ds_entry \<Rightarrow> string \<Rightarrow> string option" where
  "owner_other_than e writer =
     (let i = sv_last_modified_by (en_stored e)
      in if en_owner_incarnation e \<noteq> None \<and> i \<noteq> writer then Some i else None)"

datatype ds_error =
    DatastoreOwnerNotRunning string
  | DatastoreKeyOwned string string string
  | DatastoreKeyUnowned string

definition stop_command :: "string \<Rightarrow> string \<Rightarrow> string" where
  "stop_command i core = ''`peppy node stop '' @ i @ '' --core-node '' @ core @ ''`''"

definition refuse_other_writer :: "string \<Rightarrow> ds_entry \<Rightarrow> string \<Rightarrow> string \<Rightarrow> ds_error + unit" where
  "refuse_other_writer core e key writer =
     (case owner_other_than e writer of
        None \<Rightarrow> Inr ()
      | Some i \<Rightarrow> Inl (DatastoreKeyOwned key i (stop_command i core)))"

section \<open>What an access does under the lock\<close>

definition store_act ::
    "string \<Rightarrow> string \<Rightarrow> byte list \<Rightarrow> string \<Rightarrow> string \<Rightarrow> ds_entries \<Rightarrow> (ds_error + unit) \<times> ds_entries" where
  "store_act core key v enc writer es =
     (case map_of es key of
        None \<Rightarrow> (Inr (), bt_insert key (entry_new v enc writer None) es)
      | Some e \<Rightarrow>
          (case refuse_other_writer core e key writer of
             Inl err \<Rightarrow> (Inl err, es)
           | Inr _ \<Rightarrow> (Inr (), bt_insert key (entry_new v enc writer (en_owner_incarnation e)) es)))"

datatype exclusive_response = Stored | Refused stored_value

definition exclusive_act ::
    "string \<Rightarrow> byte list \<Rightarrow> string \<Rightarrow> string \<Rightarrow> u64 \<Rightarrow> ds_entries \<Rightarrow>
     (ds_error + exclusive_response) \<times> ds_entries" where
  "exclusive_act key v enc writer inc es =
     (let stored = (Inr Stored, bt_insert key (entry_new v enc writer (Some inc)) es)
      in case map_of es key of
           None \<Rightarrow> stored
         | Some current \<Rightarrow>
             if en_owner_incarnation current = None then (Inl (DatastoreKeyUnowned key), es)
             else if owner_other_than current writer \<noteq> None then (Inr (Refused (en_stored current)), es)
             else stored)"

definition get_act :: "string \<Rightarrow> ds_entries \<Rightarrow> stored_value option \<times> ds_entries" where
  "get_act key es = (map_option en_stored (map_of es key), es)"

definition remove_act :: "string \<Rightarrow> string \<Rightarrow> string \<Rightarrow> ds_entries \<Rightarrow> (ds_error + bool) \<times> ds_entries" where
  "remove_act core key remover es =
     (case map_of es key of
        None \<Rightarrow> (Inr False, es)
      | Some e \<Rightarrow>
          (case refuse_other_writer core e key remover of
             Inl err \<Rightarrow> (Inl err, es)
           | Inr _ \<Rightarrow> (Inr True, bt_remove key es)))"

section \<open>An access and its lookups\<close>

record 's ds_world =
  ds_entries :: ds_entries
  ds_stack :: 's

type_synonym 's liveness = "'s \<Rightarrow> string \<Rightarrow> u64 option"
type_synonym 's ds_gap = "'s ds_world \<Rightarrow> 's ds_world"

definition runs :: "'s liveness \<Rightarrow> 's \<Rightarrow> ds_owner \<Rightarrow> bool" where
  "runs L s owner \<longleftrightarrow> L s (fst owner) = Some (snd owner)"

definition owner_gone :: "'s liveness \<Rightarrow> 's \<Rightarrow> ds_owner option \<Rightarrow> bool" where
  "owner_gone L s owner = (case owner of None \<Rightarrow> False | Some ow \<Rightarrow> \<not> runs L s ow)"

text \<open>The second section of a turn: \<open>None\<close> when the owner changed since the first, and the loop goes on.\<close>

definition act_section ::
    "string \<Rightarrow> ds_owner option \<Rightarrow> bool \<Rightarrow> (ds_entries \<Rightarrow> 'a \<times> ds_entries) \<Rightarrow> ds_entries \<Rightarrow>
     ('a \<times> ds_entries) option" where
  "act_section key owner gone act es =
     (if owner_in es key \<noteq> owner then None
      else Some (act (if gone then bt_remove key es else es)))"

fun with_live_key ::
    "'s liveness \<Rightarrow> 's ds_gap list \<Rightarrow> string \<Rightarrow> (ds_entries \<Rightarrow> 'a \<times> ds_entries) \<Rightarrow> 's ds_world \<Rightarrow>
     ('a \<times> 's ds_world) option" where
  "with_live_key L (before_lookup # before_lock # gaps) key act w =
     (let owner = owner_in (ds_entries w) key;
          w1 = before_lookup w;
          gone = owner_gone L (ds_stack w1) owner;
          w2 = before_lock w1
      in case act_section key owner gone act (ds_entries w2) of
           None \<Rightarrow> with_live_key L gaps key act w2
         | Some (r, es) \<Rightarrow> Some (r, w2\<lparr>ds_entries := es\<rparr>))"
| "with_live_key L _ key act w = None"

definition ds_store ::
    "'s liveness \<Rightarrow> 's ds_gap list \<Rightarrow> string \<Rightarrow> string \<Rightarrow> byte list \<Rightarrow> string \<Rightarrow> string \<Rightarrow> 's ds_world \<Rightarrow>
     ((ds_error + unit) \<times> 's ds_world) option" where
  "ds_store L gaps core key v enc writer w = with_live_key L gaps key (store_act core key v enc writer) w"

definition ds_store_exclusive ::
    "'s liveness \<Rightarrow> 's ds_gap \<Rightarrow> 's ds_gap list \<Rightarrow> string \<Rightarrow> byte list \<Rightarrow> string \<Rightarrow> string \<Rightarrow> 's ds_world \<Rightarrow>
     ((ds_error + exclusive_response) \<times> 's ds_world) option" where
  "ds_store_exclusive L gap gaps key v enc writer w =
     (case L (ds_stack w) writer of
        None \<Rightarrow> Some (Inl (DatastoreOwnerNotRunning writer), w)
      | Some inc \<Rightarrow> with_live_key L gaps key (exclusive_act key v enc writer inc) (gap w))"

definition ds_get ::
    "'s liveness \<Rightarrow> 's ds_gap list \<Rightarrow> string \<Rightarrow> 's ds_world \<Rightarrow> (stored_value option \<times> 's ds_world) option" where
  "ds_get L gaps key w = with_live_key L gaps key (get_act key) w"

definition ds_remove ::
    "'s liveness \<Rightarrow> 's ds_gap list \<Rightarrow> string \<Rightarrow> string \<Rightarrow> string \<Rightarrow> 's ds_world \<Rightarrow>
     ((ds_error + bool) \<times> 's ds_world) option" where
  "ds_remove L gaps core key remover w = with_live_key L gaps key (remove_act core key remover) w"

text \<open>\<open>list\<close>: the owners are looked up one by one, and a key is dropped while the dead owner has it.\<close>

record list_entry =
  le_key :: string
  le_encoding :: string
  le_last_modified_by :: string

definition owned_keys :: "ds_entries \<Rightarrow> (string \<times> ds_owner) list" where
  "owned_keys es = List.map_filter (\<lambda>(key, e). map_option (Pair key) (entry_owner e)) es"

fun find_dead ::
    "'s liveness \<Rightarrow> 's ds_gap list \<Rightarrow> (string \<times> ds_owner) list \<Rightarrow> 's ds_world \<Rightarrow>
     ((string \<times> ds_owner) list \<times> 's ds_world) option" where
  "find_dead L gaps [] w = Some ([], w)"
| "find_dead L [] (ko # owned) w = None"
| "find_dead L (gap # gaps) (ko # owned) w =
     map_option (\<lambda>(dead, w'). (if runs L (ds_stack (gap w)) (snd ko) then dead else ko # dead, w'))
       (find_dead L gaps owned (gap w))"

definition drop_dead :: "(string \<times> ds_owner) list \<Rightarrow> ds_entries \<Rightarrow> ds_entries" where
  "drop_dead dead es =
     fold (\<lambda>(key, ow) es. if owner_in es key = Some ow then bt_remove key es else es) dead es"

definition list_view :: "ds_entries \<Rightarrow> list_entry list" where
  "list_view es =
     map (\<lambda>(key, e). \<lparr>le_key = key, le_encoding = sv_encoding (en_stored e),
                      le_last_modified_by = sv_last_modified_by (en_stored e)\<rparr>) es"

definition ds_list ::
    "'s liveness \<Rightarrow> 's ds_gap list \<Rightarrow> 's ds_gap \<Rightarrow> 's ds_world \<Rightarrow> (list_entry list \<times> 's ds_world) option" where
  "ds_list L gaps before_lock w =
     map_option (\<lambda>(dead, w1).
         let w2 = before_lock w1; es = drop_dead dead (ds_entries w2)
         in (list_view es, w2\<lparr>ds_entries := es\<rparr>))
       (find_dead L gaps (owned_keys (ds_entries w)) w)"

section \<open>The store as a map of live keys\<close>

text \<open>
  What a client sees: the keys whose owner, if they have one, still runs. The specification is five
  operations on that map.
\<close>

definition live_entry :: "'s liveness \<Rightarrow> 's \<Rightarrow> ds_entry option \<Rightarrow> ds_entry option" where
  "live_entry L s x = (case x of None \<Rightarrow> None | Some e \<Rightarrow> if owner_gone L s (entry_owner e) then None else Some e)"

definition live_view :: "'s liveness \<Rightarrow> 's ds_world \<Rightarrow> string \<rightharpoonup> ds_entry" where
  "live_view L w = (\<lambda>key. live_entry L (ds_stack w) (map_of (ds_entries w) key))"

definition other_owner :: "(string \<rightharpoonup> ds_entry) \<Rightarrow> string \<Rightarrow> string \<Rightarrow> string option" where
  "other_owner m key writer = Option.bind (m key) (\<lambda>e. owner_other_than e writer)"

definition spec_store ::
    "string \<Rightarrow> string \<Rightarrow> byte list \<Rightarrow> string \<Rightarrow> string \<Rightarrow> (string \<rightharpoonup> ds_entry) \<Rightarrow>
     (ds_error + unit) \<times> (string \<rightharpoonup> ds_entry)" where
  "spec_store core key v enc writer m =
     (case other_owner m key writer of
        Some i \<Rightarrow> (Inl (DatastoreKeyOwned key i (stop_command i core)), m)
      | None \<Rightarrow> (Inr (), m(key \<mapsto> entry_new v enc writer (Option.bind (m key) en_owner_incarnation))))"

definition spec_exclusive ::
    "u64 option \<Rightarrow> string \<Rightarrow> byte list \<Rightarrow> string \<Rightarrow> string \<Rightarrow> (string \<rightharpoonup> ds_entry) \<Rightarrow>
     (ds_error + exclusive_response) \<times> (string \<rightharpoonup> ds_entry)" where
  "spec_exclusive running key v enc writer m =
     (case running of
        None \<Rightarrow> (Inl (DatastoreOwnerNotRunning writer), m)
      | Some inc \<Rightarrow>
          if m key \<noteq> None \<and> Option.bind (m key) entry_owner = None then (Inl (DatastoreKeyUnowned key), m)
          else if other_owner m key writer \<noteq> None then (Inr (Refused (en_stored (the (m key)))), m)
          else (Inr Stored, m(key \<mapsto> entry_new v enc writer (Some inc))))"

definition spec_remove ::
    "string \<Rightarrow> string \<Rightarrow> string \<Rightarrow> (string \<rightharpoonup> ds_entry) \<Rightarrow> (ds_error + bool) \<times> (string \<rightharpoonup> ds_entry)" where
  "spec_remove core key remover m =
     (case other_owner m key remover of
        Some i \<Rightarrow> (Inl (DatastoreKeyOwned key i (stop_command i core)), m)
      | None \<Rightarrow> (Inr (m key \<noteq> None), m(key := None)))"

text \<open>An access with nothing in between acts on the entries without its key's dead owner.\<close>

definition purged :: "'s liveness \<Rightarrow> string \<Rightarrow> 's ds_world \<Rightarrow> ds_entries" where
  "purged L key w =
     (if owner_gone L (ds_stack w) (owner_in (ds_entries w) key) then bt_remove key (ds_entries w)
      else ds_entries w)"

lemma with_live_key_quiet:
  "with_live_key L [id, id] key act w =
     Some (fst (act (purged L key w)), w\<lparr>ds_entries := snd (act (purged L key w))\<rparr>)"
  by (simp add: act_section_def purged_def Let_def split: prod.split)

declare with_live_key.simps [simp del]

lemma purged_key: "map_of (purged L key w) key = live_view L w key"
  by (auto simp: purged_def live_view_def live_entry_def owner_in_def owner_gone_def split: option.splits)

lemma purged_view: "live_view L (w\<lparr>ds_entries := purged L key w\<rparr>) = live_view L w"
proof
  fix k
  show "live_view L (w\<lparr>ds_entries := purged L key w\<rparr>) k = live_view L w k"
    using purged_key [of L key w]
    by (cases "k = key") (auto simp: live_view_def live_entry_def purged_def split: option.splits if_splits)
qed

lemma purged_ok: "bt_ok (ds_entries w) \<Longrightarrow> bt_ok (purged L key w)"
  by (simp add: purged_def bt_ok_remove)

lemma live_view_insert:
  "live_view L (w\<lparr>ds_entries := bt_insert key e es\<rparr>) =
     (live_view L (w\<lparr>ds_entries := es\<rparr>))(key := live_entry L (ds_stack w) (Some e))"
  by (auto simp: live_view_def fun_eq_iff)

lemma live_view_remove:
  "live_view L (w\<lparr>ds_entries := bt_remove key es\<rparr>) = (live_view L (w\<lparr>ds_entries := es\<rparr>))(key := None)"
  by (auto simp: live_view_def live_entry_def fun_eq_iff)

text \<open>What is stored for a key keeps its owner, so it is live.\<close>

lemma kept_owner_live:
  assumes "live_view L w key = Some e" "owner_other_than e writer = None"
  shows "live_entry L (ds_stack w) (Some (entry_new v enc writer (en_owner_incarnation e))) =
    Some (entry_new v enc writer (en_owner_incarnation e))"
  using assms
  by (auto simp: live_view_def live_entry_def entry_owner_def entry_new_def owner_other_than_def owner_gone_def Let_def
      split: option.splits if_splits)

lemma store_refines:
  "map_option (map_prod id (live_view L)) (ds_store L [id, id] core key v enc writer w) =
     Some (spec_store core key v enc writer (live_view L w))"
  unfolding ds_store_def with_live_key_quiet
  using kept_owner_live [of L w key _ writer v enc] purged_key [of L key w]
  by (auto simp: store_act_def spec_store_def other_owner_def refuse_other_writer_def live_view_insert purged_view
      live_entry_def entry_new_def entry_owner_def owner_gone_def split: option.splits)

lemma exclusive_refines:
  "map_option (map_prod id (live_view L)) (ds_store_exclusive L id [id, id] key v enc writer w) =
     Some (spec_exclusive (L (ds_stack w) writer) key v enc writer (live_view L w))"
proof (cases "L (ds_stack w) writer")
  case (Some inc)
  then have "live_entry L (ds_stack w) (Some (entry_new v enc writer (Some inc))) = Some (entry_new v enc writer (Some inc))"
    by (simp add: live_entry_def entry_new_def entry_owner_def owner_gone_def runs_def)
  then show ?thesis
    using purged_key [of L key w] Some
    by (cases "live_view L w key")
      (simp_all add: ds_store_exclusive_def with_live_key_quiet exclusive_act_def spec_exclusive_def other_owner_def
        live_view_insert purged_view entry_owner_def Let_def)
qed (simp add: ds_store_exclusive_def spec_exclusive_def)

lemma get_refines:
  "map_option (map_prod id (live_view L)) (ds_get L [id, id] key w) =
     Some (map_option en_stored (live_view L w key), live_view L w)"
  by (simp add: ds_get_def with_live_key_quiet get_act_def purged_key purged_view)

lemma remove_refines:
  "map_option (map_prod id (live_view L)) (ds_remove L [id, id] core key remover w) =
     Some (spec_remove core key remover (live_view L w))"
  unfolding ds_remove_def with_live_key_quiet
  using purged_key [of L key w]
  by (auto simp: remove_act_def spec_remove_def other_owner_def refuse_other_writer_def live_view_remove purged_view
      fun_upd_idem split: option.splits)

text \<open>Listing drops exactly the keys whose owner it found gone and keeps the order.\<close>

lemma map_of_drop_dead:
  "map_of (drop_dead dead es) k =
     (if \<exists>ow. (k, ow) \<in> set dead \<and> owner_in es k = Some ow then None else map_of es k)"
  unfolding drop_dead_def
  by (induction dead arbitrary: es) (auto simp: owner_in_def split: if_splits)

lemma drop_dead_ok: "bt_ok es \<Longrightarrow> bt_ok (drop_dead dead es)"
  unfolding drop_dead_def by (induction dead arbitrary: es) (auto simp: bt_ok_remove)

lemma find_dead_quiet:
  "find_dead L (replicate (length owned) id) owned w = Some (filter (\<lambda>ko. \<not> runs L (ds_stack w) (snd ko)) owned, w)"
  by (induction owned) auto

lemma owned_keys_iff:
  assumes "bt_ok es"
  shows "(k, ow) \<in> set (owned_keys es) \<longleftrightarrow> owner_in es k = Some ow"
proof -
  have "(k, ow) \<in> set (owned_keys es) \<longleftrightarrow> (\<exists>e. (k, e) \<in> set es \<and> entry_owner e = Some ow)"
    by (force simp: owned_keys_def map_filter_def)
  also have "\<dots> \<longleftrightarrow> owner_in es k = Some ow"
    using bt_ok_distinct [OF assms] by (auto simp: owner_in_def bind_eq_Some_conv)
  finally show ?thesis .
qed

lemma list_refines:
  assumes "bt_ok (ds_entries w)"
  shows "\<exists>es. bt_ok es \<and> map_of es = live_view L w \<and>
    ds_list L (replicate (length (owned_keys (ds_entries w))) id) id w = Some (list_view es, w\<lparr>ds_entries := es\<rparr>)"
proof -
  let ?dead = "filter (\<lambda>ko. \<not> runs L (ds_stack w) (snd ko)) (owned_keys (ds_entries w))"
  have "map_of (drop_dead ?dead (ds_entries w)) k = live_view L w k" for k
    using owned_keys_iff [OF assms, of k]
    by (auto simp: map_of_drop_dead live_view_def live_entry_def owner_gone_def owner_in_def split: option.splits)
  then show ?thesis
    using drop_dead_ok [OF assms, of ?dead]
    by (intro exI [of _ "drop_dead ?dead (ds_entries w)"])
      (simp add: ds_list_def find_dead_quiet Let_def fun_eq_iff)
qed

lemma acts_keep_order:
  assumes "bt_ok es"
  shows "bt_ok (snd (store_act core key v enc writer es))" "bt_ok (snd (exclusive_act key v enc writer inc es))"
    "bt_ok (snd (get_act key es))" "bt_ok (snd (remove_act core key remover es))"
  using assms
  by (auto simp: store_act_def exclusive_act_def get_act_def remove_act_def Let_def bt_ok_insert bt_ok_remove
      split: option.split sum.split)

text \<open>
  C21: With nobody else at work every operation of the datastore returns and is an operation on the map of
  live keys. A store or a remove is refused exactly when another instance with a live process owns the
  key, and an owner's store keeps the key owned. An exclusive store needs a running process, is
  refused on a key without an owner, answers with the value of another owner, and otherwise makes the
  writer's process the owner. A listing gives the live keys in their order.
\<close>

theorem datastore_refines_map:
  assumes "bt_ok (ds_entries w)"
  shows "map_option (map_prod id (live_view L)) (ds_store L [id, id] core key v enc writer w) =
      Some (spec_store core key v enc writer (live_view L w)) \<and>
    map_option (map_prod id (live_view L)) (ds_store_exclusive L id [id, id] key v enc writer w) =
      Some (spec_exclusive (L (ds_stack w) writer) key v enc writer (live_view L w)) \<and>
    map_option (map_prod id (live_view L)) (ds_get L [id, id] key w) =
      Some (map_option en_stored (live_view L w key), live_view L w) \<and>
    map_option (map_prod id (live_view L)) (ds_remove L [id, id] core key writer w) =
      Some (spec_remove core key writer (live_view L w)) \<and>
    (\<exists>es. bt_ok es \<and> map_of es = live_view L w \<and>
       ds_list L (replicate (length (owned_keys (ds_entries w))) id) id w =
         Some (list_view es, w\<lparr>ds_entries := es\<rparr>))"
  by (intro conjI store_refines exclusive_refines get_refines remove_refines list_refines assms)

section \<open>Keys as locks\<close>

text \<open>
  A client that stores a key exclusively to acquire it and removes it to release it. The laws are the
  specification of the two operations; mutual exclusion follows from them.
\<close>

locale exclusive_keys =
  fixes view :: "'w \<Rightarrow> string \<rightharpoonup> ds_entry"
    and running :: "'w \<Rightarrow> string \<Rightarrow> u64 option"
    and acquire :: "string \<Rightarrow> string \<Rightarrow> 'w \<Rightarrow> (ds_error + exclusive_response) \<times> 'w"
    and release :: "string \<Rightarrow> string \<Rightarrow> 'w \<Rightarrow> (ds_error + bool) \<times> 'w"
    and core :: string
  assumes acquire_spec: "map_prod id view (acquire key c w) = spec_exclusive (running w c) key [] [] c (view w)"
    and release_spec: "map_prod id view (release key c w) = spec_remove core key c (view w)"
    and running_kept: "running (snd (acquire key c w)) = running w" "running (snd (release key c w)) = running w"
begin

lemma acquired_view:
  assumes "acquire key a w = (Inr Stored, w1)"
  shows "\<exists>n. running w a = Some n \<and> view w1 key = Some (entry_new [] [] a (Some n))"
proof -
  have "spec_exclusive (running w a) key [] [] a (view w) = (Inr Stored, view w1)"
    using acquire_spec [of key a w] assms by simp
  then show ?thesis by (auto simp: spec_exclusive_def split: option.splits if_splits) (metis fun_upd_same)+
qed

lemma acquire_excludes:
  assumes "acquire key a w = (Inr Stored, w1)" "b \<noteq> a"
  shows "fst (acquire key b w1) \<noteq> Inr Stored" "view (snd (acquire key b w1)) = view w1"
    "fst (release key b w1) = Inl (DatastoreKeyOwned key a (stop_command a core))"
proof -
  obtain n where held: "view w1 key = Some (entry_new [] [] a (Some n))" using acquired_view [OF assms(1)] by blast
  then have other: "other_owner (view w1) key b = Some a"
    using assms(2) by (simp add: other_owner_def owner_other_than_def entry_new_def)
  have "map_prod id view (acquire key b w1) = spec_exclusive (running w1 b) key [] [] b (view w1)"
    by (rule acquire_spec)
  then show "fst (acquire key b w1) \<noteq> Inr Stored" "view (snd (acquire key b w1)) = view w1"
    using held other
    by (cases "acquire key b w1"; auto simp: spec_exclusive_def entry_new_def entry_owner_def split: option.splits)+
  show "fst (release key b w1) = Inl (DatastoreKeyOwned key a (stop_command a core))"
    using release_spec [of key b w1] other by (cases "release key b w1") (simp add: spec_remove_def)
qed

lemma release_hands_over:
  assumes "acquire key a w = (Inr Stored, w1)" "running w b = Some n"
  shows "\<exists>w2. release key a w1 = (Inr True, w2) \<and> fst (acquire key b w2) = Inr Stored"
proof -
  obtain k where held: "view w1 key = Some (entry_new [] [] a (Some k))" using acquired_view [OF assms(1)] by blast
  then have "map_prod id view (release key a w1) = (Inr True, (view w1)(key := None))"
    by (simp add: release_spec spec_remove_def other_owner_def owner_other_than_def entry_new_def)
  then obtain w2 where w2: "release key a w1 = (Inr True, w2)" "view w2 key = None"
    by (cases "release key a w1") (auto simp: fun_eq_iff)
  have "running w2 b = Some n"
    using running_kept(1) [of key a w] running_kept(2) [of key a w1] assms w2(1) by simp
  with w2 have "map_prod id view (acquire key b w2) =
      (Inr Stored, (view w2)(key \<mapsto> entry_new [] [] b (Some n)))"
    by (simp add: acquire_spec spec_exclusive_def other_owner_def)
  with w2(1) show ?thesis by (cases "acquire key b w2") auto
qed

end

interpretation ds_lock: exclusive_keys "live_view L" "\<lambda>w. L (ds_stack w)"
  "\<lambda>key c w. the (ds_store_exclusive L id [id, id] key [] [] c w)" "\<lambda>key c w. the (ds_remove L [id, id] core key c w)" core
  for L :: "'s liveness" and core
proof
  fix key c and w :: "'s ds_world"
  show "map_prod id (live_view L) (the (ds_store_exclusive L id [id, id] key [] [] c w)) =
      spec_exclusive (L (ds_stack w) c) key [] [] c (live_view L w)"
    using exclusive_refines [of L key "[]" "[]" c w] by (auto simp: map_option_case split: option.splits)
  show "map_prod id (live_view L) (the (ds_remove L [id, id] core key c w)) = spec_remove core key c (live_view L w)"
    using remove_refines [of L core key c w] by (auto simp: map_option_case split: option.splits)
  show "L (ds_stack (snd (the (ds_store_exclusive L id [id, id] key [] [] c w)))) = L (ds_stack w)"
    by (cases "L (ds_stack w) c") (simp_all add: ds_store_exclusive_def with_live_key_quiet)
  show "L (ds_stack (snd (the (ds_remove L [id, id] core key c w)))) = L (ds_stack w)"
    by (simp add: ds_remove_def with_live_key_quiet)
qed

section \<open>Requests at work together\<close>

text \<open>
  Several requests on one store, each thread at one of the sections of its access, while the node stack
  changes. An exclusive store looks its writer's process up when it begins. The logs hold the answers.
\<close>

datatype ds_act =
    AStore string "byte list" string string
  | AExclusive string "byte list" string string u64
  | AGet string
  | ARemove string string

datatype ds_result =
    RStored "ds_error + unit"
  | RExclusive "ds_error + exclusive_response"
  | RGot "stored_value option"
  | RRemoved "ds_error + bool"

fun act_key :: "ds_act \<Rightarrow> string" where
  "act_key (AStore key _ _ _) = key"
| "act_key (AExclusive key _ _ _ _) = key"
| "act_key (AGet key) = key"
| "act_key (ARemove key _) = key"

fun act_by :: "ds_act \<Rightarrow> string \<Rightarrow> bool" where
  "act_by (AStore _ _ _ c) i \<longleftrightarrow> c = i"
| "act_by (AExclusive _ _ _ c _) i \<longleftrightarrow> c = i"
| "act_by (AGet _) i \<longleftrightarrow> False"
| "act_by (ARemove _ c) i \<longleftrightarrow> c = i"

fun run_act :: "string \<Rightarrow> ds_act \<Rightarrow> ds_entries \<Rightarrow> ds_result \<times> ds_entries" where
  "run_act core (AStore key v enc c) es = map_prod RStored id (store_act core key v enc c es)"
| "run_act core (AExclusive key v enc c inc) es = map_prod RExclusive id (exclusive_act key v enc c inc es)"
| "run_act core (AGet key) es = map_prod RGot id (get_act key es)"
| "run_act core (ARemove key c) es = map_prod RRemoved id (remove_act core key c es)"

fun begin_act :: "'s liveness \<Rightarrow> 's \<Rightarrow> ds_act \<Rightarrow> ds_result + ds_act" where
  "begin_act L s (AExclusive key v enc c _) =
     (case L s c of
        None \<Rightarrow> Inl (RExclusive (Inl (DatastoreOwnerNotRunning c)))
      | Some inc \<Rightarrow> Inr (AExclusive key v enc c inc))"
| "begin_act L s act = Inr act"

datatype ds_pc =
    DsIdle
  | ReadOwner ds_act
  | LookUp ds_act "ds_owner option"
  | ActOn ds_act "ds_owner option" bool
  | ListLookUp "(string \<times> ds_owner) list" "(string \<times> ds_owner) list"

record 's ds_sys =
  sy_world :: "'s ds_world"
  sy_threads :: "ds_pc list"
  sy_log :: "(ds_act \<times> ds_result) list"
  sy_listed :: "list_entry list list"

datatype 's ds_event = DsBegin nat ds_act | DsBeginList nat | DsAdvance nat | DsStack 's

definition set_pc :: "nat \<Rightarrow> ds_pc \<Rightarrow> 's ds_sys \<Rightarrow> 's ds_sys" where
  "set_pc t pc y = y\<lparr>sy_threads := (sy_threads y)[t := pc]\<rparr>"

fun advance_pc :: "'s liveness \<Rightarrow> string \<Rightarrow> nat \<Rightarrow> ds_pc \<Rightarrow> 's ds_sys \<Rightarrow> 's ds_sys" where
  "advance_pc L core t DsIdle y = y"
| "advance_pc L core t (ReadOwner act) y = set_pc t (LookUp act (owner_in (ds_entries (sy_world y)) (act_key act))) y"
| "advance_pc L core t (LookUp act ow) y = set_pc t (ActOn act ow (owner_gone L (ds_stack (sy_world y)) ow)) y"
| "advance_pc L core t (ActOn act ow gone) y =
     (case act_section (act_key act) ow gone (run_act core act) (ds_entries (sy_world y)) of
        None \<Rightarrow> set_pc t (ReadOwner act) y
      | Some (r, es) \<Rightarrow>
          set_pc t DsIdle (y\<lparr>sy_world := (sy_world y)\<lparr>ds_entries := es\<rparr>, sy_log := sy_log y @ [(act, r)]\<rparr>))"
| "advance_pc L core t (ListLookUp (ko # todo) dead) y =
     set_pc t (ListLookUp todo (if runs L (ds_stack (sy_world y)) (snd ko) then dead else dead @ [ko])) y"
| "advance_pc L core t (ListLookUp [] dead) y =
     (let es = drop_dead dead (ds_entries (sy_world y))
      in set_pc t DsIdle (y\<lparr>sy_world := (sy_world y)\<lparr>ds_entries := es\<rparr>, sy_listed := sy_listed y @ [list_view es]\<rparr>))"

fun ds_step :: "'s liveness \<Rightarrow> string \<Rightarrow> 's ds_event \<Rightarrow> 's ds_sys \<Rightarrow> 's ds_sys" where
  "ds_step L core (DsBegin t act) y =
     (if t < length (sy_threads y) \<and> sy_threads y ! t = DsIdle
      then case begin_act L (ds_stack (sy_world y)) act of
             Inl r \<Rightarrow> y\<lparr>sy_log := sy_log y @ [(act, r)]\<rparr>
           | Inr act' \<Rightarrow> set_pc t (ReadOwner act') y
      else y)"
| "ds_step L core (DsBeginList t) y =
     (if t < length (sy_threads y) \<and> sy_threads y ! t = DsIdle
      then set_pc t (ListLookUp (owned_keys (ds_entries (sy_world y))) []) y else y)"
| "ds_step L core (DsAdvance t) y =
     (if t < length (sy_threads y) then advance_pc L core t (sy_threads y ! t) y else y)"
| "ds_step L core (DsStack s) y = y\<lparr>sy_world := (sy_world y)\<lparr>ds_stack := s\<rparr>\<rparr>"

definition ds_run :: "'s liveness \<Rightarrow> string \<Rightarrow> 's ds_event list \<Rightarrow> 's ds_sys \<Rightarrow> 's ds_sys" where
  "ds_run L core evs y = fold (ds_step L core) evs y"

section \<open>An owned key is its owner's alone\<close>

text \<open>
  The requests in flight and the events that leave the key to its owner \<open>(i, n)\<close>: none is the owner's own
  request on the key, none has found the owner's process gone, and the process goes on running.
\<close>

fun leaves_key :: "string \<Rightarrow> ds_owner \<Rightarrow> ds_pc \<Rightarrow> bool" where
  "leaves_key key ow DsIdle \<longleftrightarrow> True"
| "leaves_key key ow (ReadOwner act) \<longleftrightarrow> \<not> (act_key act = key \<and> act_by act (fst ow))"
| "leaves_key key ow (LookUp act _) \<longleftrightarrow> \<not> (act_key act = key \<and> act_by act (fst ow))"
| "leaves_key key ow (ActOn act seen gone) \<longleftrightarrow>
     \<not> (act_key act = key \<and> (act_by act (fst ow) \<or> gone \<and> seen = Some ow))"
| "leaves_key key ow (ListLookUp todo dead) \<longleftrightarrow> (key, ow) \<notin> set dead"

fun event_leaves_key :: "'s liveness \<Rightarrow> string \<Rightarrow> ds_owner \<Rightarrow> 's ds_event \<Rightarrow> bool" where
  "event_leaves_key L key ow (DsBegin t act) \<longleftrightarrow> \<not> (act_key act = key \<and> act_by act (fst ow))"
| "event_leaves_key L key ow (DsStack s) \<longleftrightarrow> runs L s ow"
| "event_leaves_key L key ow _ \<longleftrightarrow> True"

text \<open>The answer that others get about a key while its owner runs.\<close>

definition owners_answer :: "string \<Rightarrow> string \<Rightarrow> ds_entry \<Rightarrow> ds_act \<Rightarrow> ds_result \<Rightarrow> bool" where
  "owners_answer core i e act r \<longleftrightarrow>
     (let refusal = DatastoreKeyOwned (act_key act) i (stop_command i core)
      in case act of
           AStore _ _ _ _ \<Rightarrow> r = RStored (Inl refusal)
         | AExclusive _ _ _ c _ \<Rightarrow>
             r = RExclusive (Inr (Refused (en_stored e))) \<or> r = RExclusive (Inl (DatastoreOwnerNotRunning c))
         | AGet _ \<Rightarrow> r = RGot (Some (en_stored e))
         | ARemove _ _ \<Rightarrow> r = RRemoved (Inl refusal))"

definition listed_as :: "string \<Rightarrow> ds_entry \<Rightarrow> list_entry" where
  "listed_as key e = \<lparr>le_key = key, le_encoding = sv_encoding (en_stored e),
     le_last_modified_by = sv_last_modified_by (en_stored e)\<rparr>"

definition owned_inv ::
    "'s liveness \<Rightarrow> string \<Rightarrow> string \<Rightarrow> ds_entry \<Rightarrow> ds_owner \<Rightarrow> 's ds_sys \<Rightarrow> bool" where
  "owned_inv L core key e ow y \<longleftrightarrow>
     map_of (ds_entries (sy_world y)) key = Some e \<and> entry_owner e = Some ow \<and> runs L (ds_stack (sy_world y)) ow \<and>
     list_all (leaves_key key ow) (sy_threads y) \<and>
     list_all (\<lambda>(act, r). act_key act = key \<longrightarrow> owners_answer core (fst ow) e act r) (sy_log y) \<and>
     list_all (\<lambda>l. listed_as key e \<in> set l) (sy_listed y)"

lemma owner_other_than_owned:
  assumes "entry_owner e = Some ow" "c \<noteq> fst ow"
  shows "owner_other_than e c = Some (fst ow)" "en_owner_incarnation e \<noteq> None"
  using assms by (auto simp: entry_owner_def owner_other_than_def Let_def)

lemma run_act_owned:
  assumes "map_of es key = Some e" "entry_owner e = Some ow" "act_key act = key" "\<not> act_by act (fst ow)"
  shows "snd (run_act core act es) = es" "owners_answer core (fst ow) e act (fst (run_act core act es))"
  using assms
  by (cases act; auto simp: store_act_def exclusive_act_def get_act_def remove_act_def refuse_other_writer_def
      owners_answer_def owner_other_than_owned Let_def)+

lemma run_act_elsewhere:
  assumes "act_key act \<noteq> key"
  shows "map_of (snd (run_act core act es)) key = map_of es key"
  using assms
  by (cases act) (auto simp: store_act_def exclusive_act_def get_act_def remove_act_def Let_def split: option.split sum.split)

lemma list_all_update: "list_all P xs \<Longrightarrow> P x \<Longrightarrow> list_all P (xs[t := x])"
  by (auto simp: list_all_iff dest!: set_update_subset_insert [THEN subsetD])

lemma set_pc_inv: "owned_inv L core key e ow y \<Longrightarrow> leaves_key key ow pc \<Longrightarrow> owned_inv L core key e ow (set_pc t pc y)"
  by (simp add: owned_inv_def set_pc_def list_all_update)

lemma act_section_owned:
  assumes inv: "owned_inv L core key e ow y" and pc: "leaves_key key ow (ActOn act seen gone)"
    and act: "act_section (act_key act) seen gone (run_act core act) (ds_entries (sy_world y)) = Some (r, es)"
  shows "map_of es key = Some e" "act_key act = key \<Longrightarrow> owners_answer core (fst ow) e act r"
proof -
  let ?es = "ds_entries (sy_world y)"
  have e: "map_of ?es key = Some e" "entry_owner e = Some ow" using inv by (simp_all add: owned_inv_def)
  have res: "owner_in ?es (act_key act) = seen" "(r, es) = run_act core act (if gone then bt_remove (act_key act) ?es else ?es)"
    using act by (auto simp: act_section_def split: if_splits)
  show "map_of es key = Some e"
  proof (cases "act_key act = key")
    case True
    with e res(1) have "seen = Some ow" by (simp add: owner_in_def)
    with pc True have "\<not> gone" "\<not> act_by act (fst ow)" by auto
    then have "es = ?es" using run_act_owned(1) [OF e True, of core] res(2) by (cases "run_act core act ?es") simp
    with e(1) show ?thesis by simp
  next
    case False
    let ?acted = "if gone then bt_remove (act_key act) ?es else ?es"
    have "es = snd (run_act core act ?acted)" using res(2) by (cases "run_act core act ?acted") simp
    then have "map_of es key = map_of ?acted key" by (simp only: run_act_elsewhere [OF False])
    with False e(1) show ?thesis by (cases gone) auto
  qed
  show "owners_answer core (fst ow) e act r" if "act_key act = key"
  proof -
    from e res(1) that have "seen = Some ow" by (simp add: owner_in_def)
    with pc that have "\<not> gone" "\<not> act_by act (fst ow)" by auto
    then show ?thesis using run_act_owned(2) [OF e that, of core] res(2) by (cases "run_act core act ?es") simp
  qed
qed

lemma listed_in_view: "map_of es key = Some e \<Longrightarrow> listed_as key e \<in> set (list_view es)"
  using map_of_SomeD [of es key e] by (force simp: list_view_def listed_as_def)

lemma advance_owned:
  assumes inv: "owned_inv L core key e ow y" and pc: "leaves_key key ow pc"
  shows "owned_inv L core key e ow (advance_pc L core t pc y)"
proof (cases pc)
  case (LookUp act seen)
  have "runs L (ds_stack (sy_world y)) ow" using inv by (simp add: owned_inv_def)
  with LookUp pc show ?thesis by (auto intro!: set_pc_inv [OF inv] simp: owner_gone_def)
next
  case (ActOn act seen gone)
  show ?thesis
  proof (cases "act_section (act_key act) seen gone (run_act core act) (ds_entries (sy_world y))")
    case None
    with ActOn pc show ?thesis by (auto intro!: set_pc_inv [OF inv])
  next
    case (Some res)
    obtain r es where res: "res = (r, es)" by (cases res)
    note owned = act_section_owned [OF inv pc [unfolded ActOn] Some [unfolded res]]
    have "owned_inv L core key e ow
        (y\<lparr>sy_world := (sy_world y)\<lparr>ds_entries := es\<rparr>, sy_log := sy_log y @ [(act, r)]\<rparr>)"
      using inv owned by (simp add: owned_inv_def)
    from set_pc_inv [OF this, of DsIdle t] show ?thesis by (simp add: ActOn Some res)
  qed
next
  case (ListLookUp todo dead)
  show ?thesis
  proof (cases todo)
    case Nil
    let ?es = "drop_dead dead (ds_entries (sy_world y))"
    have kept: "map_of ?es key = Some e"
      using inv pc ListLookUp by (auto simp: owned_inv_def map_of_drop_dead owner_in_def)
    have "owned_inv L core key e ow
        (y\<lparr>sy_world := (sy_world y)\<lparr>ds_entries := ?es\<rparr>, sy_listed := sy_listed y @ [list_view ?es]\<rparr>)"
      using inv kept listed_in_view [OF kept] by (simp add: owned_inv_def)
    from set_pc_inv [OF this, of DsIdle t] show ?thesis by (simp add: ListLookUp Nil Let_def)
  next
    case (Cons ko rest)
    have "runs L (ds_stack (sy_world y)) ow" using inv by (simp add: owned_inv_def)
    with Cons ListLookUp pc show ?thesis by (auto intro!: set_pc_inv [OF inv])
  qed
qed (use assms in \<open>auto intro!: set_pc_inv [OF inv]\<close>)

lemma begin_act_cases:
  "begin_act L s act = Inr act' \<Longrightarrow> act_key act' = act_key act \<and> (\<forall>i. act_by act' i = act_by act i)"
  "begin_act L s act = Inl r \<Longrightarrow> owners_answer core i e act r"
  by (cases act; auto simp: owners_answer_def split: option.splits)+

lemma ds_step_owned:
  assumes inv: "owned_inv L core key e ow y" and ev: "event_leaves_key L key ow ev"
  shows "owned_inv L core key e ow (ds_step L core ev y)"
proof (cases ev)
  case (DsBegin t act)
  show ?thesis
  proof (cases "begin_act L (ds_stack (sy_world y)) act")
    case (Inl r)
    have "owned_inv L core key e ow (y\<lparr>sy_log := sy_log y @ [(act, r)]\<rparr>)"
      using inv begin_act_cases(2) [OF Inl] by (simp add: owned_inv_def)
    with inv Inl show ?thesis by (simp add: DsBegin)
  next
    case (Inr act')
    with inv ev begin_act_cases(1) [OF Inr] show ?thesis by (auto simp: DsBegin intro!: set_pc_inv)
  qed
next
  case (DsAdvance t)
  show ?thesis
  proof (cases "t < length (sy_threads y)")
    case True
    then have "leaves_key key ow (sy_threads y ! t)" using inv by (simp add: owned_inv_def list_all_length)
    from advance_owned [OF inv this, of t] True show ?thesis by (simp add: DsAdvance)
  qed (use inv DsAdvance in simp)
qed (use inv ev in \<open>auto simp: owned_inv_def set_pc_def intro!: list_all_update\<close>)

lemma ds_run_owned:
  "owned_inv L core key e ow y \<Longrightarrow> list_all (event_leaves_key L key ow) evs \<Longrightarrow>
     owned_inv L core key e ow (ds_run L core evs y)"
  unfolding ds_run_def by (induction evs arbitrary: y) (simp_all add: ds_step_owned)

text \<open>
  C20: While the process that owns a key runs, the key is its owner's alone, however the requests of other
  instances interleave with each other and with the changes of the node stack. Nothing they do changes
  the key; every store and remove they attempt is refused in the owner's name, every exclusive store
  and every read answers with the owner's value, and every listing names the key. A request of the
  owner itself, or one that had already found the process gone, is the only way out.
\<close>

theorem owned_key_is_exclusive:
  assumes "map_of (ds_entries (sy_world y)) key = Some e" "entry_owner e = Some ow"
    "runs L (ds_stack (sy_world y)) ow" "list_all (leaves_key key ow) (sy_threads y)"
    "sy_log y = []" "sy_listed y = []" "list_all (event_leaves_key L key ow) evs"
  shows "map_of (ds_entries (sy_world (ds_run L core evs y))) key = Some e \<and>
    list_all (\<lambda>(act, r). act_key act = key \<longrightarrow> owners_answer core (fst ow) e act r) (sy_log (ds_run L core evs y)) \<and>
    list_all (\<lambda>l. listed_as key e \<in> set l) (sy_listed (ds_run L core evs y))"
proof -
  have "owned_inv L core key e ow y" using assms(1-6) by (simp add: owned_inv_def)
  from ds_run_owned [OF this assms(7)] show ?thesis by (simp add: owned_inv_def)
qed

section \<open>A camera that owns a key\<close>

text \<open>The processes of the node stack are the liveness the daemon's store reads.\<close>

abbreviation sample_liveness :: "slab node_stack liveness" where
  "sample_liveness \<equiv> stack_live_incarnation slab_graph"

definition sample_camera_runs :: "slab node_stack" where
  "sample_camera_runs = write_entity 1 sample_running (insert_config camera_config core_stack)"

lemma sample_camera_incarnation: "sample_liveness sample_camera_runs ''cam'' = Some (incarnation sample_running_slot)"
  by code_simp

definition sample_owned :: "slab node_stack ds_sys" where
  "sample_owned =
     \<lparr>sy_world = \<lparr>ds_entries = [(''head'', entry_new [7] ''raw'' ''cam'' (Some (incarnation sample_running_slot)))],
                 ds_stack = sample_camera_runs\<rparr>,
      sy_threads = [DsIdle, DsIdle], sy_log = [], sy_listed = []\<rparr>"

definition sample_requests :: "slab node_stack ds_event list" where
  "sample_requests =
     [DsBegin 0 (AStore ''head'' [9] ''raw'' ''arm''), DsAdvance 0, DsBegin 1 (AGet ''head''), DsAdvance 1,
      DsAdvance 0, DsAdvance 0, DsAdvance 1, DsAdvance 1, DsBeginList 0, DsAdvance 0, DsAdvance 0]"

lemma sample_owned_answers:
  "sy_log (ds_run sample_liveness ''core'' sample_requests sample_owned) =
     [(AStore ''head'' [9] ''raw'' ''arm'',
       RStored (Inl (DatastoreKeyOwned ''head'' ''cam'' (stop_command ''cam'' ''core'')))),
      (AGet ''head'', RGot (Some \<lparr>sv_value = [7], sv_encoding = ''raw'', sv_last_modified_by = ''cam''\<rparr>))]"
  by (simp add: ds_run_def sample_requests_def sample_owned_def set_pc_def act_section_def owner_gone_def runs_def
      owner_in_def entry_owner_def entry_new_def sample_camera_incarnation store_act_def get_act_def
      refuse_other_writer_def owner_other_than_def owned_keys_def map_filter_def drop_dead_def Let_def)

theorem owned_key_is_exclusive_witness:
  "map_of (ds_entries (sy_world (ds_run sample_liveness ''core'' sample_requests sample_owned))) ''head'' =
     Some (entry_new [7] ''raw'' ''cam'' (Some (incarnation sample_running_slot))) \<and>
   length (sy_log (ds_run sample_liveness ''core'' sample_requests sample_owned)) = 2"
proof -
  let ?e = "entry_new [7] ''raw'' ''cam'' (Some (incarnation sample_running_slot))"
  have owned: "map_of (ds_entries (sy_world sample_owned)) ''head'' = Some ?e"
    "entry_owner ?e = Some (''cam'', incarnation sample_running_slot)"
    "runs sample_liveness (ds_stack (sy_world sample_owned)) (''cam'', incarnation sample_running_slot)"
    "list_all (leaves_key ''head'' (''cam'', incarnation sample_running_slot)) (sy_threads sample_owned)"
    "sy_log sample_owned = []" "sy_listed sample_owned = []"
    by (simp_all add: sample_owned_def entry_owner_def entry_new_def runs_def sample_camera_incarnation)
  have "list_all (event_leaves_key sample_liveness ''head'' (''cam'', incarnation sample_running_slot)) sample_requests"
    by (simp add: sample_requests_def)
  from owned_key_is_exclusive [OF owned this, of "''core''"] sample_owned_answers show ?thesis by simp
qed

theorem datastore_refines_map_witness:
  "map_option (map_prod id (live_view sample_liveness))
     (ds_store_exclusive sample_liveness id [id, id] ''lamp'' [1] ''raw'' ''cam'' (sy_world sample_owned)) =
   Some (Inr Stored, (live_view sample_liveness (sy_world sample_owned))
     (''lamp'' \<mapsto> entry_new [1] ''raw'' ''cam'' (Some (incarnation sample_running_slot))))"
proof -
  have "bt_ok (ds_entries (sy_world sample_owned))" by (simp add: sample_owned_def bt_ok_def)
  note refines = datastore_refines_map [OF this, of sample_liveness "''core''" "''lamp''" "[1]" "''raw''" "''cam''"]
  have "live_view sample_liveness (sy_world sample_owned) ''lamp'' = None"
    by (simp add: live_view_def live_entry_def sample_owned_def)
  moreover have "sample_liveness (ds_stack (sy_world sample_owned)) ''cam'' = Some (incarnation sample_running_slot)"
    by (simp add: sample_owned_def sample_camera_incarnation)
  ultimately show ?thesis
    using refines [THEN conjunct2, THEN conjunct1] by (simp only: spec_exclusive_def other_owner_def) simp
qed

text \<open>
  A request that is still in flight when its sender's process ends acts for whichever process runs under
  the id, the documentation of the store says. An exclusive store does not: it holds the incarnation
  it looked up when it began. Below the camera's first process begins an exclusive store and is
  replaced; the second process stores the key and is its owner; the first request then binds the key
  to the process that is gone, and the key of the live owner reads as absent.
\<close>

definition stale_requests :: "(string \<times> u64) list ds_event list" where
  "stale_requests =
     [DsBegin 0 (AExclusive ''head'' [1] ''raw'' ''cam'' 0), DsStack [(''cam'', 2)],
      DsBegin 1 (AExclusive ''head'' [2] ''raw'' ''cam'' 0), DsAdvance 1, DsAdvance 1, DsAdvance 1,
      DsAdvance 0, DsAdvance 0, DsAdvance 0,
      DsBegin 1 (AGet ''head''), DsAdvance 1, DsAdvance 1, DsAdvance 1]"

lemma stale_exclusive_store_loses_key:
  "sy_log (ds_run map_of ''core'' stale_requests
     \<lparr>sy_world = \<lparr>ds_entries = [], ds_stack = [(''cam'', 1)]\<rparr>, sy_threads = [DsIdle, DsIdle], sy_log = [],
      sy_listed = []\<rparr>) =
   [(AExclusive ''head'' [2] ''raw'' ''cam'' 2, RExclusive (Inr Stored)),
    (AExclusive ''head'' [1] ''raw'' ''cam'' 1, RExclusive (Inr Stored)), (AGet ''head'', RGot None)]"
  by (simp add: ds_run_def stale_requests_def set_pc_def act_section_def owner_gone_def runs_def owner_in_def
      entry_owner_def entry_new_def exclusive_act_def get_act_def owner_other_than_def Let_def)

end
