(* ===== verification/Call_Proof.thy ===== *)
theory Call_Proof
  imports Bytes_Text
begin

text \<open>
  The proof of the sender of a call to a daemon (peppy-messaging-interface, \<open>call_proof.rs\<close>),
  and the attachments of queries, replies and topic messages that the wire format puts beside a
  payload (\<open>wire/zenoh_format.rs\<close>).

  Ed25519 is the \<open>ring\<close> crate. Its operations are the record \<open>ed25519_ops\<close>, an argument of the
  definitions that sign or verify, and what the daemon relies on is \<open>ed25519_laws\<close>: the sizes of keys and
  signatures, and that a signature verifies with the public key of the key that made it. The
  lemmas show that the signed bytes determine the call, that the encodings of a proof and of a
  query attachment are exact, and that a proof made by a signer verifies.
\<close>

section \<open>Ed25519\<close>

type_synonym client_public_key = "byte list"

record 'k ed25519_ops =
  ed_public :: "'k \<Rightarrow> byte list"
  ed_sign :: "'k \<Rightarrow> byte list \<Rightarrow> byte list"
  ed_verify :: "byte list \<Rightarrow> byte list \<Rightarrow> byte list \<Rightarrow> bool"

definition ed25519_laws :: "'k ed25519_ops \<Rightarrow> bool" where
  "ed25519_laws R \<longleftrightarrow>
     (\<forall>k. length (ed_public R k) = 32) \<and>
     (\<forall>k m. length (ed_sign R k m) = 64) \<and>
     (\<forall>k m. ed_verify R (ed_public R k) m (ed_sign R k m))"

definition nonce_len :: nat where
  "nonce_len = 16"

definition signature_len :: nat where
  "signature_len = 64"

definition public_key_len :: nat where
  "public_key_len = 32"

definition public_key_from_bytes :: "byte list \<Rightarrow> client_public_key option" where
  "public_key_from_bytes bs = (if length bs = public_key_len then Some bs else None)"

text \<open>\<open>ClientPublicKey::verifies\<close>.\<close>

definition key_verifies :: "'k ed25519_ops \<Rightarrow> client_public_key \<Rightarrow> byte list \<Rightarrow> byte list \<Rightarrow> bool" where
  "key_verifies R key message signature = ed_verify R key message signature"

section \<open>The signed bytes of a call\<close>

datatype service_query_kind = UserRequest | Probe

fun query_kind_byte :: "service_query_kind \<Rightarrow> byte" where
  "query_kind_byte UserRequest = 0x00"
| "query_kind_byte Probe = 0x01"

definition query_kind_from_byte :: "byte \<Rightarrow> service_query_kind option" where
  "query_kind_from_byte b =
     (if b = 0x00 then Some UserRequest else if b = 0x01 then Some Probe else None)"

record signed_call =
  call_namespace :: string
  call_key_expr :: string
  call_kind :: service_query_kind
  call_payload :: "byte list"

definition signed_call_context :: "byte list" where
  "signed_call_context = as_bytes ''peppy/call-proof/v1''"

definition signed_bytes :: "signed_call \<Rightarrow> u64 \<Rightarrow> byte list \<Rightarrow> byte list" where
  "signed_bytes call timestamp_ms nonce =
     signed_call_context
     @ concat (map (\<lambda>field. u64_be (of_nat (length field)) @ field)
         [as_bytes (call_namespace call), as_bytes (call_key_expr call)])
     @ [query_kind_byte (call_kind call)]
     @ u64_be (of_nat (length (call_payload call))) @ call_payload call
     @ u64_be timestamp_ms
     @ nonce"

section \<open>The proof and its signer\<close>

record call_proof =
  timestamp_ms :: u64
  proof_nonce :: "byte list"
  proof_signature :: "byte list"
  machine_proof :: "byte list option"

datatype call_receiver = ThisMachine | OtherMachine

record 'k call_signer =
  signer_key :: 'k
  signer_machine_proof :: "byte list option"

record 'k call_signing =
  signing_signer :: "'k call_signer"
  signing_receiver :: call_receiver

text \<open>\<open>unix_millis\<close>: 0 before the epoch, and \<open>u64::MAX\<close> past what 64 bits hold.\<close>

definition unix_millis :: "system_time \<Rightarrow> u64" where
  "unix_millis time =
     (if time < 0 then 0
      else let ms = nat time div 1000000 in if ms < 2 ^ 64 then of_nat ms else - 1)"

definition signer_prove ::
    "'k ed25519_ops \<Rightarrow> 'k call_signer \<Rightarrow> signed_call \<Rightarrow> call_receiver \<Rightarrow> byte list \<Rightarrow> system_time \<Rightarrow> call_proof" where
  "signer_prove R signer call receiver nonce now =
     (let ts = unix_millis now
      in \<lparr>timestamp_ms = ts, proof_nonce = nonce,
          proof_signature = ed_sign R (signer_key signer) (signed_bytes call ts nonce),
          machine_proof = (case receiver of
             ThisMachine \<Rightarrow> None | OtherMachine \<Rightarrow> signer_machine_proof signer)\<rparr>)"

definition signing_prove ::
    "'k ed25519_ops \<Rightarrow> 'k call_signing \<Rightarrow> signed_call \<Rightarrow> byte list \<Rightarrow> system_time \<Rightarrow> call_proof" where
  "signing_prove R signing call nonce now =
     signer_prove R (signing_signer signing) call (signing_receiver signing) nonce now"

text \<open>\<open>CallProof::verifies\<close>.\<close>

definition proof_verifies :: "'k ed25519_ops \<Rightarrow> call_proof \<Rightarrow> client_public_key \<Rightarrow> signed_call \<Rightarrow> bool" where
  "proof_verifies R p key call =
     key_verifies R key (signed_bytes call (timestamp_ms p) (proof_nonce p)) (proof_signature p)"

section \<open>The encoded proof\<close>

definition proof_version :: byte where
  "proof_version = 0x01"

definition encode_into :: "call_proof \<Rightarrow> byte list \<Rightarrow> byte list" where
  "encode_into p out =
     (let mp = (case machine_proof p of None \<Rightarrow> [] | Some b \<Rightarrow> b)
      in out @ [proof_version] @ u64_be (timestamp_ms p) @ proof_nonce p @ proof_signature p
         @ u32_be (of_nat (length mp)) @ mp)"

datatype call_proof_decode_error = Truncated | UnknownVersion byte | TrailingBytes nat

text \<open>\<open>Reader::take_slice\<close>: the reader is the bytes left.\<close>

definition take_slice :: "nat \<Rightarrow> byte list \<Rightarrow> call_proof_decode_error + byte list \<times> byte list" where
  "take_slice len r = (if length r < len then Inl Truncated else Inr (take len r, drop len r))"

definition proof_decode :: "byte list \<Rightarrow> call_proof_decode_error + call_proof" where
  "proof_decode bytes =
     and_then (take_slice 1 bytes) (\<lambda>(v, r1).
     if hd v \<noteq> proof_version then Inl (UnknownVersion (hd v))
     else
     and_then (take_slice 8 r1) (\<lambda>(ts, r2).
     and_then (take_slice nonce_len r2) (\<lambda>(nonce, r3).
     and_then (take_slice signature_len r3) (\<lambda>(sig, r4).
     and_then (take_slice 4 r4) (\<lambda>(len, r5).
     and_then (take_slice (unat (u32_from_be len)) r5) (\<lambda>(mp, r6).
     if r6 \<noteq> [] then Inl (TrailingBytes (length r6))
     else Inr \<lparr>timestamp_ms = u64_from_be ts, proof_nonce = nonce, proof_signature = sig,
               machine_proof = (if mp \<noteq> [] then Some mp else None)\<rparr>))))))"

section \<open>The attachments\<close>

datatype wire_parse_error =
    MissingSegment string
  | WildcardInCallerSegment string
  | InvalidCoreNodePresenceKey string
  | TargetSlotMismatch string string string
  | ServiceRootMismatch string string
  | MissingServiceQueryAttachment
  | ServiceQueryAttachmentMagicMismatch byte byte
  | TruncatedServiceQueryAttachment
  | UnknownServiceQueryKind byte
  | CallProofError call_proof_decode_error
  | MissingServiceReplyAttachment
  | ServiceReplyAttachmentMagicMismatch byte byte
  | TruncatedServiceReplyAttachment
  | UnknownServiceReplyKind byte

record service_query_attachment =
  qa_kind :: service_query_kind
  qa_proof :: "call_proof option"

definition query_magic_v3 :: byte where
  "query_magic_v3 = 0x03"

definition query_attachment_encode :: "service_query_attachment \<Rightarrow> byte list" where
  "query_attachment_encode a =
     (let bytes = [query_magic_v3, query_kind_byte (qa_kind a)]
      in case qa_proof a of None \<Rightarrow> bytes | Some p \<Rightarrow> encode_into p bytes)"

definition query_attachment_decode :: "byte list \<Rightarrow> wire_parse_error + service_query_attachment" where
  "query_attachment_decode bytes =
     (case bytes of
        [] \<Rightarrow> Inl MissingServiceQueryAttachment
      | magic # rest \<Rightarrow>
          if magic \<noteq> query_magic_v3
          then Inl (ServiceQueryAttachmentMagicMismatch query_magic_v3 magic)
          else case rest of
                 [] \<Rightarrow> Inl TruncatedServiceQueryAttachment
               | kind_byte # pf \<Rightarrow>
                   and_then (ok_or (UnknownServiceQueryKind kind_byte) (query_kind_from_byte kind_byte))
                     (\<lambda>kind.
                        if pf = [] then Inr \<lparr>qa_kind = kind, qa_proof = None\<rparr>
                        else and_then (map_err CallProofError (proof_decode pf))
                               (\<lambda>p. Inr \<lparr>qa_kind = kind, qa_proof = Some p\<rparr>)))"

datatype service_reply_kind = Ack | Response | ReplyFailure

fun reply_kind_byte :: "service_reply_kind \<Rightarrow> byte" where
  "reply_kind_byte Ack = 0x00"
| "reply_kind_byte Response = 0x01"
| "reply_kind_byte ReplyFailure = 0x02"

definition reply_kind_from_byte :: "byte \<Rightarrow> service_reply_kind option" where
  "reply_kind_from_byte b =
     (if b = 0x00 then Some Ack else if b = 0x01 then Some Response
      else if b = 0x02 then Some ReplyFailure else None)"

definition reply_magic_v1 :: byte where
  "reply_magic_v1 = 0x01"

definition reply_attachment_encode :: "service_reply_kind \<Rightarrow> byte list" where
  "reply_attachment_encode kind = [reply_magic_v1, reply_kind_byte kind]"

definition reply_attachment_decode :: "byte list \<Rightarrow> wire_parse_error + service_reply_kind" where
  "reply_attachment_decode bytes =
     (case bytes of
        [] \<Rightarrow> Inl MissingServiceReplyAttachment
      | magic # rest \<Rightarrow>
          if magic \<noteq> reply_magic_v1
          then Inl (ServiceReplyAttachmentMagicMismatch reply_magic_v1 magic)
          else case rest of
                 [] \<Rightarrow> Inl TruncatedServiceReplyAttachment
               | kind_byte # _ \<Rightarrow>
                   ok_or (UnknownServiceReplyKind kind_byte) (reply_kind_from_byte kind_byte))"

text \<open>\<open>TopicAttachment\<close>: a missing or unknown marker is a primary publish.\<close>

definition topic_attachment_encode :: "bool \<Rightarrow> byte list" where
  "topic_attachment_encode is_primary = (if is_primary then [0x01] else [0x00])"

definition topic_attachment_decode :: "byte list \<Rightarrow> bool" where
  "topic_attachment_decode bytes = (case bytes of [] \<Rightarrow> True | b # _ \<Rightarrow> b \<noteq> 0x00)"

section \<open>Replies and topics\<close>

text \<open>
  A reply and a topic attachment decode to what was encoded; a reply attachment with bytes after its
  kind, as a later version may send, still decodes.
\<close>

lemma reply_attachment_decode_iff:
  "reply_attachment_decode bytes = Inr kind \<longleftrightarrow> (\<exists>rest. bytes = reply_attachment_encode kind @ rest)"
  by (cases kind)
    (auto simp: reply_attachment_decode_def reply_attachment_encode_def reply_kind_from_byte_def ok_or_def
      split: list.splits if_splits)

lemma topic_attachment_roundtrip: "topic_attachment_decode (topic_attachment_encode b) = b"
  by (simp add: topic_attachment_decode_def topic_attachment_encode_def)

section \<open>The signed bytes determine the call\<close>

definition call_in_size :: "signed_call \<Rightarrow> bool" where
  "call_in_size call \<longleftrightarrow> length (call_namespace call) < 2 ^ 64 \<and>
     length (call_key_expr call) < 2 ^ 64 \<and> length (call_payload call) < 2 ^ 64"

lemma query_kind_byte_inject [simp]: "query_kind_byte a = query_kind_byte b \<longleftrightarrow> a = b"
  by (cases a; cases b) simp_all

lemma query_kind_roundtrip [simp]: "query_kind_from_byte (query_kind_byte k) = Some k"
  by (cases k) (simp_all add: query_kind_from_byte_def)

lemma query_kind_from_byte_Some: "query_kind_from_byte b = Some k \<longleftrightarrow> b = query_kind_byte k"
  by (cases k) (auto simp: query_kind_from_byte_def)

lemma reply_kind_roundtrip [simp]: "reply_kind_from_byte (reply_kind_byte k) = Some k"
  by (cases k) (simp_all add: reply_kind_from_byte_def)

lemma signed_bytes_fields:
  "signed_bytes call ts nonce =
     signed_call_context @ sized_field (as_bytes (call_namespace call))
     @ sized_field (as_bytes (call_key_expr call)) @ [query_kind_byte (call_kind call)]
     @ sized_field (call_payload call) @ u64_be ts @ nonce"
  by (simp add: signed_bytes_def sized_field_def)

lemma signed_bytes_determine:
  assumes "signed_bytes c t n = signed_bytes c' t' n'" "call_in_size c" "call_in_size c'"
  shows "c = c' \<and> t = t' \<and> n = n'"
proof -
  note bs = assms(1) [unfolded signed_bytes_fields append_same_eq same_append_eq]
  have size: "length (as_bytes (call_namespace c)) < 2 ^ 64" "length (as_bytes (call_namespace c')) < 2 ^ 64"
    "length (as_bytes (call_key_expr c)) < 2 ^ 64" "length (as_bytes (call_key_expr c')) < 2 ^ 64"
    "length (call_payload c) < 2 ^ 64" "length (call_payload c') < 2 ^ 64"
    using assms(2,3) by (simp_all add: call_in_size_def)
  note ns = sized_field_inject [OF bs size(1,2)]
  note ke = sized_field_inject [OF ns [THEN conjunct2] size(3,4)]
  from ke have kind: "call_kind c = call_kind c'"
    and tail: "sized_field (call_payload c) @ u64_be t @ n = sized_field (call_payload c') @ u64_be t' @ n'"
    by simp_all
  note pl = sized_field_inject [OF tail size(5,6)]
  from pl have "t = t' \<and> n = n'" by (simp add: append_eq_append_conv)
  moreover have "c = c'" using ns ke kind pl by simp
  ultimately show ?thesis by simp
qed

section \<open>The encodings are exact\<close>

definition proof_ok :: "call_proof \<Rightarrow> bool" where
  "proof_ok p \<longleftrightarrow> length (proof_nonce p) = nonce_len \<and> length (proof_signature p) = signature_len \<and>
     (case machine_proof p of None \<Rightarrow> True | Some b \<Rightarrow> b \<noteq> [] \<and> length b < 2 ^ 32)"

definition attachment_ok :: "service_query_attachment \<Rightarrow> bool" where
  "attachment_ok a \<longleftrightarrow> (case qa_proof a of None \<Rightarrow> True | Some p \<Rightarrow> proof_ok p)"

lemma take_slice_append [simp]: "length xs = n \<Longrightarrow> take_slice n (xs @ ys) = Inr (xs, ys)"
  by (simp add: take_slice_def)

lemma take_slice_Inr:
  "take_slice n r = Inr (x, y) \<longleftrightarrow> r = x @ y \<and> length x = n"
  by (auto simp: take_slice_def)

lemma unat_u32_length: "n < 2 ^ 32 \<Longrightarrow> unat (of_nat n :: u32) = n"
  by (simp add: unat_of_nat)

lemma encode_into_append: "encode_into p out = out @ encode_into p []"
  by (simp add: encode_into_def Let_def)

lemma encode_into_neq_Nil [simp]: "encode_into p [] \<noteq> []"
  by (simp add: encode_into_def Let_def)

lemma proof_decode_encode:
  assumes "proof_ok p"
  shows "proof_decode (encode_into p []) = Inr p"
proof -
  define mp where "mp = (case machine_proof p of None \<Rightarrow> [] | Some b \<Rightarrow> b)"
  have mp: "length mp < 2 ^ 32" "(if mp \<noteq> [] then Some mp else None) = machine_proof p"
    using assms by (auto simp: proof_ok_def mp_def split: option.splits)
  have len: "length (proof_nonce p) = nonce_len" "length (proof_signature p) = signature_len"
    using assms by (simp_all add: proof_ok_def)
  have slices:
    "take_slice 1 ([proof_version] @ r) = Inr ([proof_version], r)"
    "take_slice 8 (u64_be (timestamp_ms p) @ r) = Inr (u64_be (timestamp_ms p), r)"
    "take_slice nonce_len (proof_nonce p @ r) = Inr (proof_nonce p, r)"
    "take_slice signature_len (proof_signature p @ r) = Inr (proof_signature p, r)"
    "take_slice 4 (u32_be (of_nat (length mp)) @ r) = Inr (u32_be (of_nat (length mp)), r)"
    "take_slice (length mp) mp = Inr (mp, [])" for r
    using len by (simp_all add: take_slice_Inr)
  have "encode_into p [] = [proof_version] @ u64_be (timestamp_ms p) @ proof_nonce p
      @ proof_signature p @ u32_be (of_nat (length mp)) @ mp"
    by (simp add: encode_into_def mp_def Let_def)
  then show ?thesis
    using mp(2)
    by (simp only: proof_decode_def slices and_then_simps split_conv list.sel if_False
          u32_from_to_be u64_from_to_be unat_u32_length [OF mp(1)] simp_thms if_True) (cases p, auto)
qed

lemma proof_decode_sound:
  assumes "proof_decode bs = Inr p"
  shows "proof_ok p \<and> encode_into p [] = bs"
proof -
  from assms obtain v r1 ts r2 nonce r3 sig r4 len r5 mp where
    steps: "take_slice 1 bs = Inr (v, r1)" "hd v = proof_version" "take_slice 8 r1 = Inr (ts, r2)"
      "take_slice nonce_len r2 = Inr (nonce, r3)" "take_slice signature_len r3 = Inr (sig, r4)"
      "take_slice 4 r4 = Inr (len, r5)" "take_slice (unat (u32_from_be len)) r5 = Inr (mp, [])"
    and p: "p = \<lparr>timestamp_ms = u64_from_be ts, proof_nonce = nonce, proof_signature = sig,
                machine_proof = (if mp \<noteq> [] then Some mp else None)\<rparr>"
    by (auto simp: proof_decode_def and_then_Inr split: if_splits)
  note parts = steps [unfolded take_slice_Inr]
  from parts have "length mp < 2 ^ 32" using unat_lt_2p32 [of "u32_from_be len"] by simp
  with p parts have ok: "proof_ok p" by (simp add: proof_ok_def)
  have v: "v = [proof_version]" using parts by (cases v) auto
  have ts: "u64_be (u64_from_be ts) = ts" using parts u64_be_from_be by simp
  have "u32_be (u32_from_be len) = len" using parts u32_be_from_be by simp
  then have "u32_be (of_nat (length mp)) = len" using parts by simp
  with p parts ts v have "encode_into p [] = bs"
    by (cases "mp = []") (simp_all add: encode_into_def Let_def)
  with ok show ?thesis by simp
qed

lemma proof_decode_iff: "proof_decode bs = Inr p \<longleftrightarrow> proof_ok p \<and> encode_into p [] = bs"
  using proof_decode_encode proof_decode_sound by blast

lemma query_attachment_decode_encode:
  "attachment_ok a \<Longrightarrow> query_attachment_decode (query_attachment_encode a) = Inr a"
  by (cases a; cases "qa_proof a")
    (auto simp: query_attachment_decode_def query_attachment_encode_def attachment_ok_def Let_def
       encode_into_append [of _ "[x, y]" for x y] proof_decode_encode)

lemma query_attachment_decode_sound:
  assumes "query_attachment_decode bs = Inr a"
  shows "attachment_ok a \<and> query_attachment_encode a = bs"
proof -
  from assms obtain kind_byte pf where bs: "bs = query_magic_v3 # kind_byte # pf"
    and kind: "kind_byte = query_kind_byte (qa_kind a)"
    and pf: "if pf = [] then qa_proof a = None else (\<exists>p. proof_decode pf = Inr p \<and> qa_proof a = Some p)"
    by (auto simp: query_attachment_decode_def result_simps query_kind_from_byte_Some
          split: list.splits if_splits)
  show ?thesis
  proof (cases "pf = []")
    case True
    with bs kind pf show ?thesis by (simp add: attachment_ok_def query_attachment_encode_def)
  next
    case False
    with pf obtain p where p: "proof_decode pf = Inr p" "qa_proof a = Some p" by auto
    from p(1) have "proof_ok p" "encode_into p [] = pf" by (simp_all add: proof_decode_iff)
    with bs kind p(2) show ?thesis
      by (simp add: attachment_ok_def query_attachment_encode_def Let_def encode_into_append [of _ "[x, y]" for x y])
  qed
qed

section \<open>A signer's proof verifies\<close>

lemma signer_proof_verifies:
  assumes "ed25519_laws R"
  shows "proof_verifies R (signer_prove R signer call receiver nonce now)
           (ed_public R (signer_key signer)) call"
  using assms
  by (simp add: ed25519_laws_def proof_verifies_def key_verifies_def signer_prove_def Let_def)

text \<open>
  C18: The attachment of a query is exact: a query attachment, signed or not, whose proof has the
  sizes of its fields decodes to itself, and decoding accepts no other bytes: what decodes is the
  encoding of its result. Truncated, extended, re-versioned and unknown-kind attachments are
  refused, and so is the missing one.
\<close>

theorem query_attachment_exact:
  "(query_attachment_decode bs = Inr a) =
     (bs = query_attachment_encode a \<and> attachment_ok a)"
  using query_attachment_decode_encode query_attachment_decode_sound by blast

end
