(* ===== verification/Machine_Proof.thy ===== *)
theory Machine_Proof
  imports Call_Proof
begin

text \<open>
  The proof of a key to the daemons of the other machines of a federation (auth-internal,
  \<open>machine_proof.rs\<close>): the boot statement signed with the key of the machine certificate, the
  endorsement of a client's key by the key of the boot, and their check against a CA.

  Certificates, their signatures, JSON and base64 are the crates \<open>webpki\<close>, \<open>x509-parser\<close>,
  \<open>ring\<close>, \<open>serde_json\<close> and \<open>base64\<close>: the operations of the record \<open>pki\<close>, with the documented
  behaviour the code relies on as \<open>pki_laws\<close>. A certificate is its DER bytes, and the trust
  anchors a value that only the chain check reads. Reading the PEM files of a machine is not
  modelled.
\<close>

type_synonym certificate = "byte list"

datatype machine_signature = EcdsaP256Sha256 | EcdsaP384Sha384 | Ed25519 | RsaPkcs1Sha256

record boot_statement_json =
  bj_namespace :: string
  bj_core_node :: string
  bj_instance_id :: string
  bj_public_key :: string
  bj_algorithm :: machine_signature
  bj_signature :: string
  bj_certificates :: "string list"

record endorsement_json =
  ej_client :: string
  ej_public_key :: string
  ej_signature :: string

record machine_proof_json =
  mj_boot :: boot_statement_json
  mj_endorsement :: "endorsement_json option"

record ('m, 'a) pki =
  end_entity :: "certificate \<Rightarrow> bool"
  verify_for_usage :: "'a \<Rightarrow> certificate list \<Rightarrow> certificate \<Rightarrow> nat \<Rightarrow> bool"
  leaf_verify_signature :: "certificate \<Rightarrow> machine_signature \<Rightarrow> byte list \<Rightarrow> byte list \<Rightarrow> bool"
  x509_common_name :: "certificate \<Rightarrow> string option option"
  machine_key_algorithm :: "'m \<Rightarrow> machine_signature"
  machine_key_sign :: "'m \<Rightarrow> byte list \<Rightarrow> byte list"
  json_to_vec :: "machine_proof_json \<Rightarrow> byte list"
  json_from_slice :: "byte list \<Rightarrow> machine_proof_json option"
  base64_encode :: "byte list \<Rightarrow> string"
  base64_decode :: "string \<Rightarrow> byte list option"

definition pki_laws :: "('m, 'a) pki \<Rightarrow> bool" where
  "pki_laws P \<longleftrightarrow> (\<forall>j. json_from_slice P (json_to_vec P j) = Some j) \<and>
     (\<forall>b. base64_decode P (base64_encode P b) = Some b)"

section \<open>The statements\<close>

record boot_statement =
  bs_namespace :: string
  bs_core_node :: string
  bs_instance_id :: string
  bs_public_key :: client_public_key
  bs_algorithm :: machine_signature
  bs_signature :: "byte list"
  bs_certificates :: "certificate list"

record endorsement =
  en_client :: string
  en_public_key :: client_public_key
  en_signature :: "byte list"

record machine_proof_rec =
  mp_boot :: boot_statement
  mp_endorsement :: "endorsement option"

definition fields_signed_bytes :: "byte list \<Rightarrow> string list \<Rightarrow> client_public_key \<Rightarrow> byte list" where
  "fields_signed_bytes context fs key =
     context @ concat (map (\<lambda>f. u64_be (of_nat (length f)) @ as_bytes f) fs) @ key"

definition boot_signed_bytes :: "boot_statement \<Rightarrow> byte list" where
  "boot_signed_bytes b =
     fields_signed_bytes (as_bytes ''peppy/boot-statement/v1'')
       [bs_namespace b, bs_core_node b, bs_instance_id b] (bs_public_key b)"

definition endorsement_signed_bytes :: "endorsement \<Rightarrow> boot_statement \<Rightarrow> byte list" where
  "endorsement_signed_bytes e b =
     fields_signed_bytes (as_bytes ''peppy/endorsement/v1'')
       [bs_namespace b, bs_core_node b, bs_instance_id b, en_client e] (en_public_key e)"

section \<open>The encoded proof\<close>

datatype machine_proof_error =
    Decode
  | NamesAnother string string string
  | Chain
  | CommonName string string
  | BootStatement
  | NoEndorsement string
  | EndorsementError

definition machine_proof_encode :: "('m, 'a) pki \<Rightarrow> machine_proof_rec \<Rightarrow> byte list" where
  "machine_proof_encode P p =
     (let b = mp_boot p
      in json_to_vec P
        \<lparr>mj_boot = \<lparr>bj_namespace = bs_namespace b, bj_core_node = bs_core_node b,
            bj_instance_id = bs_instance_id b, bj_public_key = base64_encode P (bs_public_key b),
            bj_algorithm = bs_algorithm b, bj_signature = base64_encode P (bs_signature b),
            bj_certificates = map (base64_encode P) (bs_certificates b)\<rparr>,
         mj_endorsement = map_option (\<lambda>e. \<lparr>ej_client = en_client e,
            ej_public_key = base64_encode P (en_public_key e),
            ej_signature = base64_encode P (en_signature e)\<rparr>) (mp_endorsement p)\<rparr>)"

definition decode_base64 :: "('m, 'a) pki \<Rightarrow> string \<Rightarrow> machine_proof_error + byte list" where
  "decode_base64 P text = ok_or Decode (base64_decode P text)"

definition decode_key :: "('m, 'a) pki \<Rightarrow> string \<Rightarrow> machine_proof_error + client_public_key" where
  "decode_key P text =
     and_then (decode_base64 P text) (\<lambda>bs. ok_or Decode (public_key_from_bytes bs))"

fun decode_all :: "('m, 'a) pki \<Rightarrow> string list \<Rightarrow> machine_proof_error + byte list list" where
  "decode_all P [] = Inr []"
| "decode_all P (t # ts) =
     and_then (decode_base64 P t) (\<lambda>c. and_then (decode_all P ts) (\<lambda>cs. Inr (c # cs)))"

definition machine_proof_decode :: "('m, 'a) pki \<Rightarrow> byte list \<Rightarrow> machine_proof_error + machine_proof_rec" where
  "machine_proof_decode P bytes =
     and_then (ok_or Decode (json_from_slice P bytes)) (\<lambda>j.
     let b = mj_boot j in
     and_then (decode_key P (bj_public_key b)) (\<lambda>key.
     and_then (decode_base64 P (bj_signature b)) (\<lambda>sig.
     and_then (decode_all P (bj_certificates b)) (\<lambda>certs.
     and_then (transpose (map_option (\<lambda>e.
         and_then (decode_key P (ej_public_key e)) (\<lambda>ekey.
         and_then (decode_base64 P (ej_signature e)) (\<lambda>esig.
         Inr \<lparr>en_client = ej_client e, en_public_key = ekey, en_signature = esig\<rparr>)))
       (mj_endorsement j))) (\<lambda>e.
     Inr \<lparr>mp_boot = \<lparr>bs_namespace = bj_namespace b, bs_core_node = bj_core_node b,
            bs_instance_id = bj_instance_id b, bs_public_key = key, bs_algorithm = bj_algorithm b,
            bs_signature = sig, bs_certificates = certs\<rparr>,
          mp_endorsement = e\<rparr>)))))"

section \<open>The credential of a boot\<close>

record ('m, 'a) machine_certificate =
  mc_chain :: "certificate list"
  mc_key :: 'm
  mc_trust_anchors :: 'a
  mc_operator_ca :: bool

definition boot_credential ::
    "('m, 'a) pki \<Rightarrow> ('m, 'a) machine_certificate \<Rightarrow> string \<Rightarrow> string \<Rightarrow> string \<Rightarrow> client_public_key \<Rightarrow> boot_statement" where
  "boot_credential P m namespace core_node instance_id boot_key =
     (let st = \<lparr>bs_namespace = namespace, bs_core_node = core_node, bs_instance_id = instance_id,
                bs_public_key = boot_key, bs_algorithm = machine_key_algorithm P (mc_key m),
                bs_signature = [], bs_certificates = mc_chain m\<rparr>
      in st\<lparr>bs_signature := machine_key_sign P (mc_key m) (boot_signed_bytes st)\<rparr>)"

definition daemon_proof :: "('m, 'a) pki \<Rightarrow> boot_statement \<Rightarrow> byte list" where
  "daemon_proof P st = machine_proof_encode P \<lparr>mp_boot = st, mp_endorsement = None\<rparr>"

definition client_proof ::
    "('m, 'a) pki \<Rightarrow> 'k ed25519_ops \<Rightarrow> boot_statement \<Rightarrow> string \<Rightarrow> client_public_key \<Rightarrow> 'k \<Rightarrow> byte list" where
  "client_proof P R st client client_key boot_key =
     (let e = \<lparr>en_client = client, en_public_key = client_key, en_signature = []\<rparr>
      in machine_proof_encode P \<lparr>mp_boot = st,
           mp_endorsement = Some (e\<lparr>en_signature := ed_sign R boot_key (endorsement_signed_bytes e st)\<rparr>)\<rparr>)"

section \<open>The check\<close>

record proven_key =
  pk_key :: client_public_key
  pk_is_daemon :: bool

definition expect_name :: "string \<Rightarrow> string \<Rightarrow> string \<Rightarrow> machine_proof_error + unit" where
  "expect_name field given expected =
     (if given = expected then Inr () else Inl (NamesAnother field given expected))"

definition unix_nanos :: "system_time \<Rightarrow> nat" where
  "unix_nanos now = nat now"

definition verify_chain ::
    "('m, 'a) pki \<Rightarrow> 'a \<Rightarrow> certificate list \<Rightarrow> system_time \<Rightarrow> machine_proof_error + certificate" where
  "verify_chain P anchors certificates now =
     (case certificates of
        [] \<Rightarrow> Inl Decode
      | leaf # intermediates \<Rightarrow>
          if \<not> end_entity P leaf then Inl Chain
          else if \<not> verify_for_usage P anchors intermediates leaf (unix_nanos now) then Inl Chain
          else Inr leaf)"

definition common_name :: "('m, 'a) pki \<Rightarrow> certificate \<Rightarrow> machine_proof_error + string" where
  "common_name P der =
     and_then (ok_or Decode (x509_common_name P der))
       (\<lambda>name. Inr (case name of None \<Rightarrow> [] | Some n \<Rightarrow> n))"

definition machine_trust_verify ::
    "('m, 'a) pki \<Rightarrow> 'k ed25519_ops \<Rightarrow> 'a \<Rightarrow> bool \<Rightarrow> byte list \<Rightarrow> string \<Rightarrow> string \<Rightarrow> string \<Rightarrow> system_time \<Rightarrow>
     machine_proof_error + proven_key" where
  "machine_trust_verify P R anchors operator_ca bytes namespace core_node instance_id now =
     and_then (machine_proof_decode P bytes) (\<lambda>p.
     let b = mp_boot p in
     and_then (expect_name ''the namespace'' (bs_namespace b) namespace) (\<lambda>_.
     and_then (expect_name ''the core node'' (bs_core_node b) core_node) (\<lambda>_.
     and_then (verify_chain P anchors (bs_certificates b) now) (\<lambda>leaf.
     and_then (if operator_ca
               then and_then (common_name P (hd (bs_certificates b))) (\<lambda>named.
                      if named \<noteq> bs_core_node b then Inl (CommonName named (bs_core_node b)) else Inr ())
               else Inr ()) (\<lambda>_.
     if \<not> leaf_verify_signature P leaf (bs_algorithm b) (boot_signed_bytes b) (bs_signature b)
     then Inl BootStatement
     else if instance_id = bs_instance_id b
     then Inr \<lparr>pk_key = bs_public_key b, pk_is_daemon = True\<rparr>
     else case mp_endorsement p of
            None \<Rightarrow> Inl (NoEndorsement instance_id)
          | Some e \<Rightarrow>
              if en_client e \<noteq> instance_id then Inl (NoEndorsement instance_id)
              else if \<not> key_verifies R (bs_public_key b) (endorsement_signed_bytes e b) (en_signature e)
              then Inl EndorsementError
              else Inr \<lparr>pk_key = en_public_key e, pk_is_daemon = False\<rparr>)))))"

section \<open>What the check proves\<close>

lemma decode_all_encode: "pki_laws P \<Longrightarrow> decode_all P (map (base64_encode P) cs) = Inr cs"
  by (induction cs) (simp_all add: pki_laws_def decode_base64_def)

lemma decode_key_encode:
  "pki_laws P \<Longrightarrow> length k = public_key_len \<Longrightarrow> decode_key P (base64_encode P k) = Inr k"
  by (simp add: decode_key_def decode_base64_def pki_laws_def public_key_from_bytes_def)

lemma machine_proof_roundtrip:
  assumes "pki_laws P" "length (bs_public_key (mp_boot p)) = public_key_len"
    "pred_option (\<lambda>e. length (en_public_key e) = public_key_len) (mp_endorsement p)"
  shows "machine_proof_decode P (machine_proof_encode P p) = Inr p"
proof -
  have b64: "decode_base64 P (base64_encode P b) = Inr b" for b
    using assms(1) by (simp add: decode_base64_def pki_laws_def)
  have json: "json_from_slice P (json_to_vec P j) = Some j" for j
    using assms(1) by (simp add: pki_laws_def)
  show ?thesis
    using assms(2,3)
    by (cases p; cases "mp_endorsement p")
      (auto simp: machine_proof_decode_def machine_proof_encode_def Let_def json b64
         decode_key_encode [OF assms(1)] decode_all_encode [OF assms(1)] boot_statement.splits)
qed

text \<open>
  What a machine proof has to show for a claimed sender: a chain the CA trusts, whose common name
  is the core node for an operator's CA, a boot statement of that namespace and core node signed
  with the key of the certificate, and the sender's key: the key of the boot for the daemon, and
  for any other client a key the boot endorsed for exactly that client.
\<close>

definition machine_vouches ::
    "('m, 'a) pki \<Rightarrow> 'k ed25519_ops \<Rightarrow> 'a \<Rightarrow> bool \<Rightarrow> machine_proof_rec \<Rightarrow> string \<Rightarrow> string \<Rightarrow> string \<Rightarrow>
     system_time \<Rightarrow> proven_key \<Rightarrow> bool" where
  "machine_vouches P R anchors operator_ca p namespace core_node instance_id now k \<longleftrightarrow>
     (let b = mp_boot p in
      bs_namespace b = namespace \<and> bs_core_node b = core_node \<and>
      (\<exists>leaf rest. bs_certificates b = leaf # rest \<and> end_entity P leaf \<and>
         verify_for_usage P anchors rest leaf (unix_nanos now) \<and>
         (operator_ca \<longrightarrow> common_name P leaf = Inr core_node) \<and>
         leaf_verify_signature P leaf (bs_algorithm b) (boot_signed_bytes b) (bs_signature b)) \<and>
      (if instance_id = bs_instance_id b
       then k = \<lparr>pk_key = bs_public_key b, pk_is_daemon = True\<rparr>
       else \<exists>e. mp_endorsement p = Some e \<and> en_client e = instance_id \<and>
              key_verifies R (bs_public_key b) (endorsement_signed_bytes e b) (en_signature e) \<and>
              k = \<lparr>pk_key = en_public_key e, pk_is_daemon = False\<rparr>))"

lemma verify_chain_Inr [result_simps]:
  "verify_chain P anchors cs now = Inr leaf \<longleftrightarrow>
     (\<exists>rest. cs = leaf # rest \<and> end_entity P leaf \<and> verify_for_usage P anchors rest leaf (unix_nanos now))"
  by (auto simp: verify_chain_def split: list.splits)

lemma expect_name_Inr [result_simps]: "expect_name f a b = Inr u \<longleftrightarrow> a = b"
  by (simp add: expect_name_def)

lemma common_name_guard:
  "(if op then and_then (common_name P leaf) (\<lambda>named. if named \<noteq> c then Inl (CommonName named c) else Inr ())
    else Inr ()) = Inr u \<longleftrightarrow> (op \<longrightarrow> common_name P leaf = Inr c)"
  by (auto simp: and_then_Inr)

lemma machine_trust_verify_iff:
  assumes "machine_proof_decode P bytes = Inr p"
  shows "machine_trust_verify P R anchors op bytes ns core inst now = Inr k \<longleftrightarrow>
    machine_vouches P R anchors op p ns core inst now k"
proof -
  let ?b = "mp_boot p"
  have key: "(if \<not> leaf_verify_signature P leaf (bs_algorithm ?b) (boot_signed_bytes ?b) (bs_signature ?b)
       then Inl BootStatement
       else if inst = bs_instance_id ?b then Inr \<lparr>pk_key = bs_public_key ?b, pk_is_daemon = True\<rparr>
       else case mp_endorsement p of None \<Rightarrow> Inl (NoEndorsement inst)
          | Some e \<Rightarrow> if en_client e \<noteq> inst then Inl (NoEndorsement inst)
              else if \<not> key_verifies R (bs_public_key ?b) (endorsement_signed_bytes e ?b) (en_signature e)
              then Inl EndorsementError else Inr \<lparr>pk_key = en_public_key e, pk_is_daemon = False\<rparr>) = Inr k \<longleftrightarrow>
     leaf_verify_signature P leaf (bs_algorithm ?b) (boot_signed_bytes ?b) (bs_signature ?b) \<and>
     (if inst = bs_instance_id ?b then k = \<lparr>pk_key = bs_public_key ?b, pk_is_daemon = True\<rparr>
      else \<exists>e. mp_endorsement p = Some e \<and> en_client e = inst \<and>
             key_verifies R (bs_public_key ?b) (endorsement_signed_bytes e ?b) (en_signature e) \<and>
             k = \<lparr>pk_key = en_public_key e, pk_is_daemon = False\<rparr>)" for leaf
    by (auto split: option.splits)
  show ?thesis
    unfolding machine_trust_verify_def assms and_then_simps Let_def and_then_Inr key expect_name_Inr
      verify_chain_Inr machine_vouches_def
    by (auto simp: and_then_Inr split: if_splits)
qed


text \<open>The machine that holds the certificate proves its clients' keys to the daemons that trust it.\<close>

lemma machine_credential_vouches:
  fixes m :: "('m, 'a) machine_certificate"
  assumes laws: "pki_laws P" "ed25519_laws R"
    and chain: "mc_chain m = leaf # rest" "end_entity P leaf"
      "verify_for_usage P anchors rest leaf (unix_nanos now)" "op \<longrightarrow> common_name P leaf = Inr core"
      "\<And>msg. leaf_verify_signature P leaf (machine_key_algorithm P (mc_key m)) msg (machine_key_sign P (mc_key m) msg)"
    and key: "length client_key = public_key_len" "client \<noteq> boot"
    and st_def: "st = boot_credential P m ns core boot (ed_public R boot_key)"
  shows "machine_trust_verify P R anchors op (daemon_proof P st) ns core boot now =
           Inr \<lparr>pk_key = ed_public R boot_key, pk_is_daemon = True\<rparr> \<and>
         machine_trust_verify P R anchors op (client_proof P R st client client_key boot_key) ns core client now =
           Inr \<lparr>pk_key = client_key, pk_is_daemon = False\<rparr>"
proof -
  have len: "length (ed_public R boot_key) = public_key_len"
    using laws(2) by (simp add: ed25519_laws_def public_key_len_def)
  have st: "bs_namespace st = ns" "bs_core_node st = core" "bs_instance_id st = boot"
    "bs_public_key st = ed_public R boot_key" "bs_certificates st = leaf # rest"
    "leaf_verify_signature P leaf (bs_algorithm st) (boot_signed_bytes st) (bs_signature st)"
    using chain(1,5) by (simp_all add: st_def boot_credential_def Let_def boot_signed_bytes_def)
  define e where "e = \<lparr>en_client = client, en_public_key = client_key,
      en_signature = ed_sign R boot_key (endorsement_signed_bytes
        \<lparr>en_client = client, en_public_key = client_key, en_signature = []\<rparr> st)\<rparr>"
  have e: "key_verifies R (bs_public_key st) (endorsement_signed_bytes e st) (en_signature e)"
    using laws(2) st(4) by (simp add: e_def key_verifies_def ed25519_laws_def endorsement_signed_bytes_def)
  have "daemon_proof P st = machine_proof_encode P \<lparr>mp_boot = st, mp_endorsement = None\<rparr>"
    "client_proof P R st client client_key boot_key = machine_proof_encode P \<lparr>mp_boot = st, mp_endorsement = Some e\<rparr>"
    by (simp_all add: daemon_proof_def client_proof_def Let_def e_def)
  moreover have "machine_proof_decode P (machine_proof_encode P \<lparr>mp_boot = st, mp_endorsement = None\<rparr>) =
      Inr \<lparr>mp_boot = st, mp_endorsement = None\<rparr>"
    "machine_proof_decode P (machine_proof_encode P \<lparr>mp_boot = st, mp_endorsement = Some e\<rparr>) =
      Inr \<lparr>mp_boot = st, mp_endorsement = Some e\<rparr>"
    using machine_proof_roundtrip [OF laws(1)] len key(1) st(4) by (simp_all add: e_def)
  ultimately show ?thesis
    using st e chain key by (simp add: machine_trust_verify_iff machine_vouches_def) (simp add: e_def)
qed

section \<open>The signed bytes determine the statement\<close>

lemma fields_signed_bytes_simps:
  "fields_signed_bytes context [] key = context @ key"
  "fields_signed_bytes context (f # fs) key =
     fields_signed_bytes (context @ sized_field (as_bytes f)) fs key"
  by (simp_all add: fields_signed_bytes_def sized_field_def)

lemma fields_signed_bytes_determine:
  assumes "fields_signed_bytes context fs key = fields_signed_bytes context gs key'"
    "length fs = length gs" "list_all (\<lambda>f. length f < 2 ^ 64) fs" "list_all (\<lambda>f. length f < 2 ^ 64) gs"
  shows "fs = gs \<and> key = key'"
proof -
  have "concat (map (\<lambda>f. sized_field (as_bytes f)) fs) @ key = concat (map (\<lambda>f. sized_field (as_bytes f)) gs) @ key'"
    using assms(1) by (simp add: fields_signed_bytes_def sized_field_def)
  with assms(2-4) show ?thesis
  proof (induction fs gs rule: list_induct2)
    case (Cons f fs g gs)
    from Cons.prems have "as_bytes f = as_bytes g \<and>
        concat (map (\<lambda>f. sized_field (as_bytes f)) fs) @ key = concat (map (\<lambda>f. sized_field (as_bytes f)) gs) @ key'"
      by (intro sized_field_inject) simp_all
    with Cons show ?case by simp
  qed simp
qed

definition statement_in_size :: "boot_statement \<Rightarrow> bool" where
  "statement_in_size b \<longleftrightarrow> length (bs_namespace b) < 2 ^ 64 \<and> length (bs_core_node b) < 2 ^ 64 \<and>
     length (bs_instance_id b) < 2 ^ 64"

lemma contexts_differ:
  "take 7 (signed_bytes c t n) = as_bytes ''peppy/c''"
  "take 7 (boot_signed_bytes b) = as_bytes ''peppy/b''"
  "take 7 (endorsement_signed_bytes e b) = as_bytes ''peppy/e''"
  by (simp_all add: signed_bytes_def signed_call_context_def boot_signed_bytes_def endorsement_signed_bytes_def
        fields_signed_bytes_def as_bytes_def)

text \<open>
  C19: A signature covers one statement: the bytes a key signs determine the whole statement and
  its kind. Two calls give the same bytes only when they agree on namespace, key expression,
  kind, payload, timestamp and nonce, two boot statements only when they agree on namespace, core
  node, instance and key, and two endorsements only when they also agree on the client; and the
  bytes of a call, of a boot statement and of an endorsement are never equal, for fields of a length that
  64 bits count.
\<close>

theorem signed_bytes_determine_statement:
  assumes "call_in_size c" "call_in_size c'" "statement_in_size b" "statement_in_size b'"
    "length (en_client e) < 2 ^ 64" "length (en_client e') < 2 ^ 64"
  shows "(signed_bytes c t n = signed_bytes c' t' n' \<longleftrightarrow> c = c' \<and> t = t' \<and> n = n') \<and>
    (boot_signed_bytes b = boot_signed_bytes b' \<longleftrightarrow>
       bs_namespace b = bs_namespace b' \<and> bs_core_node b = bs_core_node b' \<and>
       bs_instance_id b = bs_instance_id b' \<and> bs_public_key b = bs_public_key b') \<and>
    (endorsement_signed_bytes e b = endorsement_signed_bytes e' b' \<longleftrightarrow>
       bs_namespace b = bs_namespace b' \<and> bs_core_node b = bs_core_node b' \<and>
       bs_instance_id b = bs_instance_id b' \<and> en_client e = en_client e' \<and>
       en_public_key e = en_public_key e') \<and>
    signed_bytes c t n \<noteq> boot_signed_bytes b \<and> signed_bytes c t n \<noteq> endorsement_signed_bytes e b \<and>
    boot_signed_bytes b \<noteq> endorsement_signed_bytes e b"
proof (intro conjI)
  show "signed_bytes c t n = signed_bytes c' t' n' \<longleftrightarrow> c = c' \<and> t = t' \<and> n = n'"
    using signed_bytes_determine [of c t n c' t' n'] assms by blast
  have sizes: "list_all (\<lambda>f. length f < 2 ^ 64) [bs_namespace b, bs_core_node b, bs_instance_id b]"
    "list_all (\<lambda>f. length f < 2 ^ 64) [bs_namespace b', bs_core_node b', bs_instance_id b']"
    "list_all (\<lambda>f. length f < 2 ^ 64) [bs_namespace b, bs_core_node b, bs_instance_id b, en_client e]"
    "list_all (\<lambda>f. length f < 2 ^ 64) [bs_namespace b', bs_core_node b', bs_instance_id b', en_client e']"
    using assms by (simp_all add: statement_in_size_def)
  show "boot_signed_bytes b = boot_signed_bytes b' \<longleftrightarrow>
       bs_namespace b = bs_namespace b' \<and> bs_core_node b = bs_core_node b' \<and>
       bs_instance_id b = bs_instance_id b' \<and> bs_public_key b = bs_public_key b'"
    unfolding boot_signed_bytes_def using fields_signed_bytes_determine [OF _ _ sizes(1,2)] by auto
  show "endorsement_signed_bytes e b = endorsement_signed_bytes e' b' \<longleftrightarrow>
       bs_namespace b = bs_namespace b' \<and> bs_core_node b = bs_core_node b' \<and>
       bs_instance_id b = bs_instance_id b' \<and> en_client e = en_client e' \<and>
       en_public_key e = en_public_key e'"
    unfolding endorsement_signed_bytes_def using fields_signed_bytes_determine [OF _ _ sizes(3,4)] by auto
  have "as_bytes ''peppy/c'' \<noteq> as_bytes ''peppy/b''" "as_bytes ''peppy/c'' \<noteq> as_bytes ''peppy/e''"
    "as_bytes ''peppy/b'' \<noteq> as_bytes ''peppy/e''"
    by simp_all
  then show "signed_bytes c t n \<noteq> boot_signed_bytes b" "signed_bytes c t n \<noteq> endorsement_signed_bytes e b"
    "boot_signed_bytes b \<noteq> endorsement_signed_bytes e b"
    using contexts_differ by metis+
qed

definition sample_call :: signed_call where
  "sample_call = \<lparr>call_namespace = ''lab'', call_key_expr = ''desk/desk/core/cli'',
                  call_kind = UserRequest, call_payload = [1, 2]\<rparr>"

definition sample_boot :: boot_statement where
  "sample_boot = \<lparr>bs_namespace = ''lab'', bs_core_node = ''desk'', bs_instance_id = ''calm-heron'',
     bs_public_key = replicate 32 1, bs_algorithm = Ed25519, bs_signature = [], bs_certificates = []\<rparr>"

definition sample_endorsement :: endorsement where
  "sample_endorsement = \<lparr>en_client = ''cam_1'', en_public_key = replicate 32 2, en_signature = []\<rparr>"

theorem signed_bytes_determine_statement_witness:
  "signed_bytes sample_call 7 [9] \<noteq> signed_bytes (sample_call\<lparr>call_namespace := ''labd''\<rparr>) 7 [9] \<and>
   signed_bytes sample_call 7 [9] \<noteq> endorsement_signed_bytes sample_endorsement sample_boot"
proof -
  have sizes: "call_in_size sample_call" "call_in_size (sample_call\<lparr>call_namespace := ''labd''\<rparr>)"
    "statement_in_size sample_boot" "length (en_client sample_endorsement) < 2 ^ 64"
    by (simp_all add: call_in_size_def sample_call_def statement_in_size_def sample_boot_def sample_endorsement_def)
  have "sample_call \<noteq> sample_call\<lparr>call_namespace := ''labd''\<rparr>" by (simp add: sample_call_def)
  then show ?thesis
    using signed_bytes_determine_statement [OF sizes(1,2) sizes(3,3) sizes(4,4), of 7 "[9]" 7 "[9]"] by blast
qed

end
