(* ===== verification/Wire_Address.thy ===== *)
theory Wire_Address
  imports Call_Proof Runtime_Types
begin

text \<open>
  The transport-neutral addresses of the messaging protocol (peppy-messaging-interface,
  \<open>wire.rs\<close>): validated segments of a key expression, the targets a sender names, and the
  senders and receivers of topics, services and actions with their validating constructors. The
  well-formedness predicates say what the constructors guarantee, and the lemmas that they do.
\<close>

section \<open>Segments\<close>

datatype segment = Segment (as_str: string)

datatype segment_error = EmptySegment | ContainsSlash string | ContainsAt string | ReservedSentinel string

definition default_link_id_literal :: string where
  "default_link_id_literal = ''_''"

definition default_link_id :: segment where
  "default_link_id = Segment default_link_id_literal"

definition validate_segment_chars :: "string \<Rightarrow> segment_error + unit" where
  "validate_segment_chars s =
     (if s = [] then Inl EmptySegment
      else if CHR ''/'' \<in> set s then Inl (ContainsSlash s)
      else if CHR ''@'' \<in> set s then Inl (ContainsAt s)
      else Inr ())"

definition is_reserved_sentinel :: "string \<Rightarrow> bool" where
  "is_reserved_sentinel s \<longleftrightarrow> s \<in> {''*'', ''**''} \<or> s = default_link_id_literal"

definition segment_try_from :: "string \<Rightarrow> segment_error + segment" where
  "segment_try_from s =
     and_then (validate_segment_chars s)
       (\<lambda>_. if is_reserved_sentinel s then Inl (ReservedSentinel s) else Inr (Segment s))"

definition try_link_id :: "string \<Rightarrow> segment_error + segment" where
  "try_link_id s =
     and_then (validate_segment_chars s)
       (\<lambda>_. if s \<in> {''*'', ''**''} then Inl (ReservedSentinel s) else Inr (Segment s))"

definition link_id_or_default :: "string option \<Rightarrow> segment_error + segment" where
  "link_id_or_default value = (case value of Some s \<Rightarrow> try_link_id s | None \<Rightarrow> Inr default_link_id)"

definition segment_is_valid :: "string \<Rightarrow> bool" where
  "segment_is_valid s \<longleftrightarrow> validate_segment_chars s = Inr () \<and> \<not> is_reserved_sentinel s"

section \<open>Targets\<close>

text \<open>
  The three identifiers hold a name and a tag each; the target says which of the three
  identifier spaces they are in.
\<close>

record target_identifier =
  ti_name :: segment
  ti_tag :: segment

datatype sender_target =
    TargetContract target_identifier
  | TargetNode target_identifier
  | TargetPairing target_identifier

text \<open>\<open>config::consts::normalize_tag\<close>.\<close>

definition normalize_tag :: "string \<Rightarrow> string" where
  "normalize_tag tag = map (\<lambda>c. if c = CHR ''-'' then CHR ''_'' else c) tag"

datatype wire_error =
    InvalidSegment segment_error
  | InvalidSenderTarget segment_error
  | PairingPublishNamesNoPeer
  | PeerOnNonPairingPublish
  | PairingSubscriptionNamesNoRecipient
  | RecipientOnNonPairingSubscription

definition validated_name_tag :: "string \<Rightarrow> string \<Rightarrow> segment_error + target_identifier" where
  "validated_name_tag name tag =
     and_then (segment_try_from name) (\<lambda>name_segment.
     and_then (segment_try_from (normalize_tag tag)) (\<lambda>tag_segment.
     Inr \<lparr>ti_name = name_segment, ti_tag = tag_segment\<rparr>))"

definition target_contract :: "string \<Rightarrow> string \<Rightarrow> segment_error + sender_target" where
  "target_contract name tag = map_sum id TargetContract (validated_name_tag name tag)"

definition target_node :: "string \<Rightarrow> string \<Rightarrow> segment_error + sender_target" where
  "target_node name tag = map_sum id TargetNode (validated_name_tag name tag)"

definition target_pairing :: "string \<Rightarrow> string \<Rightarrow> segment_error + sender_target" where
  "target_pairing name tag = map_sum id TargetPairing (validated_name_tag name tag)"

fun target_identifier_of :: "sender_target \<Rightarrow> target_identifier" where
  "target_identifier_of (TargetContract c) = c"
| "target_identifier_of (TargetNode n) = n"
| "target_identifier_of (TargetPairing p) = p"

fun discriminator :: "sender_target \<Rightarrow> string" where
  "discriminator (TargetContract _) = ''contract''"
| "discriminator (TargetNode _) = ''node''"
| "discriminator (TargetPairing _) = ''pairing''"

definition target_name :: "sender_target \<Rightarrow> string" where
  "target_name t = as_str (ti_name (target_identifier_of t))"

definition target_tag :: "sender_target \<Rightarrow> string" where
  "target_tag t = as_str (ti_tag (target_identifier_of t))"

fun is_pairing :: "sender_target \<Rightarrow> bool" where
  "is_pairing (TargetPairing _) = True"
| "is_pairing _ = False"

datatype service_kind = Service | ActionGoal | ActionCancel | ActionResult

definition root_segment :: "service_kind \<Rightarrow> string" where
  "root_segment kind = (if kind = Service then ''service'' else ''action'')"

fun kind_suffix :: "service_kind \<Rightarrow> string option" where
  "kind_suffix Service = None"
| "kind_suffix ActionGoal = Some ''goal''"
| "kind_suffix ActionCancel = Some ''cancel''"
| "kind_suffix ActionResult = Some ''result''"

definition service_root_prefix_of :: "sender_target \<Rightarrow> service_kind \<Rightarrow> string list" where
  "service_root_prefix_of identity kind =
     [root_segment kind, discriminator identity, target_name identity, target_tag identity]"

section \<open>Topics\<close>

record wire_peer =
  wp_core_node :: segment
  wp_instance_id :: segment
  wp_link_id :: segment

definition segment_of :: "string \<Rightarrow> wire_error + segment" where
  "segment_of s = map_err InvalidSegment (segment_try_from s)"

definition link_segment_of :: "string \<Rightarrow> wire_error + segment" where
  "link_segment_of s = map_err InvalidSegment (try_link_id s)"

definition wire_peer_new :: "string \<Rightarrow> string \<Rightarrow> string \<Rightarrow> wire_error + wire_peer" where
  "wire_peer_new core_node instance_id link_id =
     and_then (segment_of core_node) (\<lambda>c.
     and_then (segment_of instance_id) (\<lambda>i.
     and_then (link_segment_of link_id) (\<lambda>l.
     Inr \<lparr>wp_core_node = c, wp_instance_id = i, wp_link_id = l\<rparr>)))"

record topic_wire_sender =
  ts_core_node :: segment
  ts_instance_id :: segment
  ts_target :: sender_target
  ts_link_id :: segment
  ts_topic_name :: segment
  ts_to_peer :: "wire_peer option"

definition topic_sender_new ::
    "string \<Rightarrow> string \<Rightarrow> sender_target \<Rightarrow> string option \<Rightarrow> string \<Rightarrow> wire_error + topic_wire_sender" where
  "topic_sender_new as_core_node as_instance_id as_target link_id as_topic_name =
     (if is_pairing as_target then Inl PairingPublishNamesNoPeer
      else
      and_then (segment_of as_core_node) (\<lambda>c.
      and_then (segment_of as_instance_id) (\<lambda>i.
      and_then (map_err InvalidSegment (link_id_or_default link_id)) (\<lambda>l.
      and_then (segment_of as_topic_name) (\<lambda>t.
      Inr \<lparr>ts_core_node = c, ts_instance_id = i, ts_target = as_target, ts_link_id = l,
           ts_topic_name = t, ts_to_peer = None\<rparr>)))))"

definition topic_sender_to_peer ::
    "string \<Rightarrow> string \<Rightarrow> sender_target \<Rightarrow> string \<Rightarrow> string \<Rightarrow> wire_peer \<Rightarrow> wire_error + topic_wire_sender" where
  "topic_sender_to_peer as_core_node as_instance_id as_target link_id as_topic_name p =
     (if \<not> is_pairing as_target then Inl PeerOnNonPairingPublish
      else
      and_then (segment_of as_core_node) (\<lambda>c.
      and_then (segment_of as_instance_id) (\<lambda>i.
      and_then (link_segment_of link_id) (\<lambda>l.
      and_then (segment_of as_topic_name) (\<lambda>t.
      Inr \<lparr>ts_core_node = c, ts_instance_id = i, ts_target = as_target, ts_link_id = l,
           ts_topic_name = t, ts_to_peer = Some p\<rparr>)))))"

datatype pairing_recipient = RecipientSlot segment | RecipientAny | RecipientPeer wire_peer

record topic_wire_receiver =
  tr_core_node :: segment
  tr_instance_id :: segment
  tr_from_core_node :: "segment option"
  tr_from_instance_id :: "segment option"
  tr_from_target :: "sender_target option"
  tr_from_link_id :: "segment option"
  tr_to_topic :: segment
  tr_recipient :: "pairing_recipient option"

definition names_pairing :: "sender_target option \<Rightarrow> bool" where
  "names_pairing t \<longleftrightarrow> (case t of None \<Rightarrow> False | Some t \<Rightarrow> is_pairing t)"

definition topic_receiver_new ::
    "string \<Rightarrow> string \<Rightarrow> string option \<Rightarrow> string option \<Rightarrow> sender_target option \<Rightarrow> string option \<Rightarrow> string \<Rightarrow>
     wire_error + topic_wire_receiver" where
  "topic_receiver_new as_core_node as_instance_id from_core_node from_instance_id from_target
       from_link_id to_topic =
     (if names_pairing from_target
      then Inl PairingSubscriptionNamesNoRecipient
      else
      and_then (segment_of as_core_node) (\<lambda>c.
      and_then (segment_of as_instance_id) (\<lambda>i.
      and_then (transpose (map_option segment_of from_core_node)) (\<lambda>fc.
      and_then (transpose (map_option segment_of from_instance_id)) (\<lambda>fi.
      and_then (transpose (map_option link_segment_of from_link_id)) (\<lambda>fl.
      and_then (segment_of to_topic) (\<lambda>t.
      Inr \<lparr>tr_core_node = c, tr_instance_id = i, tr_from_core_node = fc, tr_from_instance_id = fi,
           tr_from_target = from_target, tr_from_link_id = fl, tr_to_topic = t,
           tr_recipient = None\<rparr>)))))))"

definition topic_receiver_pairing ::
    "string \<Rightarrow> string \<Rightarrow> sender_target \<Rightarrow> wire_peer \<Rightarrow> pairing_recipient \<Rightarrow> string \<Rightarrow>
     wire_error + topic_wire_receiver" where
  "topic_receiver_pairing as_core_node as_instance_id pairing producer recipient to_topic =
     (if \<not> is_pairing pairing then Inl RecipientOnNonPairingSubscription
      else
      and_then (segment_of as_core_node) (\<lambda>c.
      and_then (segment_of as_instance_id) (\<lambda>i.
      and_then (segment_of to_topic) (\<lambda>t.
      Inr \<lparr>tr_core_node = c, tr_instance_id = i, tr_from_core_node = Some (wp_core_node producer),
           tr_from_instance_id = Some (wp_instance_id producer), tr_from_target = Some pairing,
           tr_from_link_id = Some (wp_link_id producer), tr_to_topic = t,
           tr_recipient = Some recipient\<rparr>))))"

definition topic_receiver_paired ::
    "string \<Rightarrow> string \<Rightarrow> sender_target \<Rightarrow> wire_peer \<Rightarrow> string \<Rightarrow> string \<Rightarrow> wire_error + topic_wire_receiver" where
  "topic_receiver_paired as_core_node as_instance_id pairing p own_link_id to_topic =
     and_then (link_segment_of own_link_id) (\<lambda>own.
       topic_receiver_pairing as_core_node as_instance_id pairing p (RecipientSlot own) to_topic)"

definition topic_receiver_observing ::
    "string \<Rightarrow> string \<Rightarrow> sender_target \<Rightarrow> wire_peer \<Rightarrow> string \<Rightarrow> wire_error + topic_wire_receiver" where
  "topic_receiver_observing as_core_node as_instance_id pairing source to_topic =
     topic_receiver_pairing as_core_node as_instance_id pairing source RecipientAny to_topic"

definition topic_receiver_observing_pair ::
    "string \<Rightarrow> string \<Rightarrow> sender_target \<Rightarrow> wire_peer \<Rightarrow> wire_peer \<Rightarrow> string \<Rightarrow> wire_error + topic_wire_receiver" where
  "topic_receiver_observing_pair as_core_node as_instance_id pairing source p to_topic =
     topic_receiver_pairing as_core_node as_instance_id pairing source (RecipientPeer p) to_topic"

definition drops_secondary_publishes :: "topic_wire_receiver \<Rightarrow> bool" where
  "drops_secondary_publishes r \<longleftrightarrow> tr_from_link_id r = None"

section \<open>Services and actions\<close>

text \<open>\<open>producer_slots\<close>: both slots pinned, or both open.\<close>

definition producer_slots :: "producer_ref option \<Rightarrow> segment_error + segment option \<times> segment option" where
  "producer_slots target =
     (case target of
        None \<Rightarrow> Inr (None, None)
      | Some t \<Rightarrow>
          and_then (segment_try_from (pr_core_node t)) (\<lambda>c.
          and_then (segment_try_from (pr_instance_id t)) (\<lambda>i. Inr (Some c, Some i))))"

record 'k service_wire_sender =
  ss_bound_core_node :: segment
  ss_instance_id :: segment
  ss_target_core_node :: "segment option"
  ss_target_instance_id :: "segment option"
  ss_to_target :: sender_target
  ss_service_name :: segment
  ss_kind :: service_kind
  ss_signing :: "'k call_signing option"

definition service_sender_new ::
    "string \<Rightarrow> string \<Rightarrow> producer_ref option \<Rightarrow> sender_target \<Rightarrow> string \<Rightarrow> service_kind \<Rightarrow>
     wire_error + 'k service_wire_sender" where
  "service_sender_new bound_core_node as_instance_id target to_target to_service_name kind =
     and_then (segment_of bound_core_node) (\<lambda>c.
     and_then (segment_of as_instance_id) (\<lambda>i.
     and_then (map_err InvalidSegment (producer_slots target)) (\<lambda>(tc, ti).
     and_then (segment_of to_service_name) (\<lambda>n.
     Inr \<lparr>ss_bound_core_node = c, ss_instance_id = i, ss_target_core_node = tc,
          ss_target_instance_id = ti, ss_to_target = to_target, ss_service_name = n, ss_kind = kind,
          ss_signing = None\<rparr>))))"

definition service_sender_signed :: "'k call_signing \<Rightarrow> 'k service_wire_sender \<Rightarrow> 'k service_wire_sender" where
  "service_sender_signed signing s = s\<lparr>ss_signing := Some signing\<rparr>"

definition scoped_to_core_node ::
    "string \<Rightarrow> 'k service_wire_sender \<Rightarrow> wire_error + 'k service_wire_sender" where
  "scoped_to_core_node target_core_node s =
     and_then (segment_of target_core_node) (\<lambda>c.
       Inr (s\<lparr>ss_target_core_node := Some c, ss_target_instance_id := None\<rparr>))"

record service_wire_receiver =
  sr_bound_core_node :: segment
  sr_instance_id :: segment
  sr_identity :: sender_target
  sr_service_name :: segment
  sr_kind :: service_kind
  sr_root_prefix :: "string list"

definition service_receiver_new ::
    "string \<Rightarrow> string \<Rightarrow> sender_target \<Rightarrow> string \<Rightarrow> service_kind \<Rightarrow> wire_error + service_wire_receiver" where
  "service_receiver_new bound_core_node as_instance_id as_identity as_service_name kind =
     and_then (segment_of bound_core_node) (\<lambda>c.
     and_then (segment_of as_instance_id) (\<lambda>i.
     and_then (segment_of as_service_name) (\<lambda>n.
     Inr \<lparr>sr_bound_core_node = c, sr_instance_id = i, sr_identity = as_identity,
          sr_service_name = n, sr_kind = kind,
          sr_root_prefix = service_root_prefix_of as_identity kind\<rparr>)))"

record action_wire_sender =
  as_core_node :: segment
  as_instance_id :: segment
  as_target_core_node :: "segment option"
  as_target_instance_id :: "segment option"
  as_to_target :: sender_target
  as_action_name :: segment

definition action_sender_new ::
    "string \<Rightarrow> string \<Rightarrow> producer_ref option \<Rightarrow> sender_target \<Rightarrow> string \<Rightarrow> wire_error + action_wire_sender" where
  "action_sender_new core_node instance_id target to_target to_action_name =
     and_then (segment_of core_node) (\<lambda>c.
     and_then (segment_of instance_id) (\<lambda>i.
     and_then (map_err InvalidSegment (producer_slots target)) (\<lambda>(tc, ti).
     and_then (segment_of to_action_name) (\<lambda>n.
     Inr \<lparr>as_core_node = c, as_instance_id = i, as_target_core_node = tc,
          as_target_instance_id = ti, as_to_target = to_target, as_action_name = n\<rparr>))))"

definition pinned_to :: "string \<Rightarrow> string \<Rightarrow> action_wire_sender \<Rightarrow> wire_error + action_wire_sender" where
  "pinned_to core_node instance_id s =
     and_then (segment_of core_node) (\<lambda>c.
     and_then (segment_of instance_id) (\<lambda>i.
     Inr (s\<lparr>as_target_core_node := Some c, as_target_instance_id := Some i\<rparr>)))"

text \<open>The goal, cancel and result services of an action, on the two sides.\<close>

definition action_service_sender :: "action_wire_sender \<Rightarrow> service_kind \<Rightarrow> 'k service_wire_sender" where
  "action_service_sender s kind =
     \<lparr>ss_bound_core_node = as_core_node s, ss_instance_id = as_instance_id s,
      ss_target_core_node = as_target_core_node s, ss_target_instance_id = as_target_instance_id s,
      ss_to_target = as_to_target s, ss_service_name = as_action_name s, ss_kind = kind,
      ss_signing = None\<rparr>"

record action_wire_receiver =
  ar_bound_core_node :: segment
  ar_instance_id :: segment
  ar_identity :: sender_target
  ar_action_name :: segment

definition action_receiver_new ::
    "string \<Rightarrow> string \<Rightarrow> sender_target \<Rightarrow> string \<Rightarrow> wire_error + action_wire_receiver" where
  "action_receiver_new bound_core_node instance_id identity action_name =
     and_then (segment_of bound_core_node) (\<lambda>c.
     and_then (segment_of instance_id) (\<lambda>i.
     and_then (segment_of action_name) (\<lambda>n.
     Inr \<lparr>ar_bound_core_node = c, ar_instance_id = i, ar_identity = identity,
          ar_action_name = n\<rparr>)))"

definition action_service_receiver :: "action_wire_receiver \<Rightarrow> service_kind \<Rightarrow> service_wire_receiver" where
  "action_service_receiver r kind =
     \<lparr>sr_bound_core_node = ar_bound_core_node r, sr_instance_id = ar_instance_id r,
      sr_identity = ar_identity r, sr_service_name = ar_action_name r, sr_kind = kind,
      sr_root_prefix = service_root_prefix_of (ar_identity r) kind\<rparr>"

text \<open>
  \<open>daemon_receiver\<close> (peppylib, \<open>call_check.rs\<close>): whether a call goes to a daemon, and to the one
  of which machine. \<open>is_daemon_interface\<close> knows the interfaces that daemons serve.
\<close>

definition daemon_interfaces :: "(string \<times> string) list" where
  "daemon_interfaces = [(''robot_membership'', ''v1''), (''robot_leases'', ''v1'')]"

definition is_daemon_interface :: "string \<Rightarrow> string \<Rightarrow> bool" where
  "is_daemon_interface name tag \<longleftrightarrow> (name, tag) \<in> set daemon_interfaces"

definition daemon_receiver :: "'k service_wire_sender \<Rightarrow> call_receiver option" where
  "daemon_receiver s =
     (let to = (\<lambda>core. if core = Some (as_str (ss_bound_core_node s)) then ThisMachine else OtherMachine)
      in case ss_to_target s of
           TargetNode n \<Rightarrow>
             if as_str (ti_tag n) = ''core'' then Some (to (Some (as_str (ti_name n)))) else None
         | TargetContract c \<Rightarrow>
             if is_daemon_interface (as_str (ti_name c)) (as_str (ti_tag c))
             then Some (to (map_option as_str (ss_target_core_node s))) else None
         | TargetPairing _ \<Rightarrow> None)"

section \<open>What the constructors guarantee\<close>

text \<open>
  A valid segment names one chunk of a key and is no wildcard; a valid link id may also be the
  reserved default.
\<close>

definition valid_segment :: "segment \<Rightarrow> bool" where
  "valid_segment s \<longleftrightarrow> as_str s \<notin> {[], ''*'', ''**'', ''_''} \<and> CHR ''/'' \<notin> set (as_str s) \<and> CHR ''@'' \<notin> set (as_str s)"

definition valid_link :: "segment \<Rightarrow> bool" where
  "valid_link s \<longleftrightarrow> as_str s \<notin> {[], ''*'', ''**''} \<and> CHR ''/'' \<notin> set (as_str s) \<and> CHR ''@'' \<notin> set (as_str s)"

definition target_ok :: "sender_target \<Rightarrow> bool" where
  "target_ok t \<longleftrightarrow> valid_segment (ti_name (target_identifier_of t)) \<and>
     valid_segment (ti_tag (target_identifier_of t))"

definition peer_ok :: "wire_peer \<Rightarrow> bool" where
  "peer_ok p \<longleftrightarrow> valid_segment (wp_core_node p) \<and> valid_segment (wp_instance_id p) \<and>
     valid_link (wp_link_id p)"

definition topic_sender_ok :: "topic_wire_sender \<Rightarrow> bool" where
  "topic_sender_ok s \<longleftrightarrow> valid_segment (ts_core_node s) \<and> valid_segment (ts_instance_id s) \<and>
     target_ok (ts_target s) \<and> valid_link (ts_link_id s) \<and> valid_segment (ts_topic_name s) \<and>
     (case ts_to_peer s of None \<Rightarrow> \<not> is_pairing (ts_target s)
                         | Some p \<Rightarrow> is_pairing (ts_target s) \<and> peer_ok p)"

definition recipient_ok :: "pairing_recipient \<Rightarrow> bool" where
  "recipient_ok rc = (case rc of RecipientSlot l \<Rightarrow> valid_link l | RecipientAny \<Rightarrow> True
                               | RecipientPeer p \<Rightarrow> peer_ok p)"

definition topic_receiver_ok :: "topic_wire_receiver \<Rightarrow> bool" where
  "topic_receiver_ok r \<longleftrightarrow> valid_segment (tr_core_node r) \<and> valid_segment (tr_instance_id r) \<and>
     pred_option valid_segment (tr_from_core_node r) \<and>
     pred_option valid_segment (tr_from_instance_id r) \<and>
     pred_option target_ok (tr_from_target r) \<and> pred_option valid_link (tr_from_link_id r) \<and>
     valid_segment (tr_to_topic r) \<and>
     (case tr_recipient r of
        None \<Rightarrow> \<not> names_pairing (tr_from_target r)
      | Some rc \<Rightarrow> recipient_ok rc \<and> names_pairing (tr_from_target r) \<and>
                   tr_from_core_node r \<noteq> None \<and> tr_from_instance_id r \<noteq> None \<and>
                   tr_from_link_id r \<noteq> None)"

definition service_sender_ok :: "'k service_wire_sender \<Rightarrow> bool" where
  "service_sender_ok s \<longleftrightarrow> valid_segment (ss_bound_core_node s) \<and> valid_segment (ss_instance_id s) \<and>
     pred_option valid_segment (ss_target_core_node s) \<and>
     pred_option valid_segment (ss_target_instance_id s) \<and>
     (ss_target_core_node s = None \<longrightarrow> ss_target_instance_id s = None) \<and>
     target_ok (ss_to_target s) \<and> valid_segment (ss_service_name s)"

definition service_receiver_ok :: "service_wire_receiver \<Rightarrow> bool" where
  "service_receiver_ok r \<longleftrightarrow> valid_segment (sr_bound_core_node r) \<and> valid_segment (sr_instance_id r) \<and>
     target_ok (sr_identity r) \<and> valid_segment (sr_service_name r) \<and>
     sr_root_prefix r = service_root_prefix_of (sr_identity r) (sr_kind r)"

definition action_sender_ok :: "action_wire_sender \<Rightarrow> bool" where
  "action_sender_ok s \<longleftrightarrow> valid_segment (as_core_node s) \<and> valid_segment (as_instance_id s) \<and>
     pred_option valid_segment (as_target_core_node s) \<and>
     pred_option valid_segment (as_target_instance_id s) \<and>
     (as_target_core_node s = None \<longleftrightarrow> as_target_instance_id s = None) \<and>
     target_ok (as_to_target s) \<and> valid_segment (as_action_name s)"

definition action_receiver_ok :: "action_wire_receiver \<Rightarrow> bool" where
  "action_receiver_ok r \<longleftrightarrow> valid_segment (ar_bound_core_node r) \<and> valid_segment (ar_instance_id r) \<and>
     target_ok (ar_identity r) \<and> valid_segment (ar_action_name r)"

lemma as_str_inject [simp]: "as_str a = as_str b \<longleftrightarrow> a = b"
  by (cases a; cases b) simp

lemma valid_segment_iff: "valid_segment s \<longleftrightarrow> segment_is_valid (as_str s)"
  by (auto simp: valid_segment_def segment_is_valid_def validate_segment_chars_def is_reserved_sentinel_def
      default_link_id_literal_def split: if_splits)

lemma segment_of_Inr [result_simps]: "segment_of s = Inr x \<longleftrightarrow> x = Segment s \<and> valid_segment x"
  by (auto simp: segment_of_def segment_try_from_def valid_segment_iff segment_is_valid_def result_simps)

lemma segment_try_from_Inr [result_simps]: "segment_try_from s = Inr x \<longleftrightarrow> x = Segment s \<and> valid_segment x"
  by (auto simp: segment_try_from_def valid_segment_iff segment_is_valid_def result_simps)

lemma try_link_id_Inr [result_simps]: "try_link_id s = Inr x \<longleftrightarrow> x = Segment s \<and> valid_link x"
  by (auto simp: try_link_id_def validate_segment_chars_def valid_link_def result_simps split: if_splits)

lemma link_segment_of_Inr [result_simps]: "link_segment_of s = Inr x \<longleftrightarrow> x = Segment s \<and> valid_link x"
  by (simp add: link_segment_of_def result_simps)

lemma valid_default_link [simp]: "valid_link default_link_id" "valid_link (Segment ''_'')"
  by (simp_all add: valid_link_def default_link_id_def default_link_id_literal_def)

lemma link_id_or_default_Inr [result_simps]:
  "link_id_or_default v = Inr x \<longleftrightarrow> x = Segment (case v of None \<Rightarrow> ''_'' | Some l \<Rightarrow> l) \<and> valid_link x"
  by (auto simp: link_id_or_default_def result_simps default_link_id_def default_link_id_literal_def
      valid_link_def split: option.splits)

lemma optional_segment_Inr:
  "transpose (map_option segment_of x) = Inr y \<longleftrightarrow> y = map_option Segment x \<and> pred_option valid_segment y"
  "transpose (map_option link_segment_of x) = Inr y \<longleftrightarrow> y = map_option Segment x \<and> pred_option valid_link y"
  by (cases x; auto simp: result_simps)+

lemma producer_slots_Inr [result_simps]:
  "producer_slots t = Inr (c, i) \<longleftrightarrow>
     c = map_option (\<lambda>p. Segment (pr_core_node p)) t \<and> i = map_option (\<lambda>p. Segment (pr_instance_id p)) t \<and>
     pred_option valid_segment c \<and> pred_option valid_segment i"
  by (auto simp: producer_slots_def result_simps split: option.splits)

text \<open>
  What each constructor accepts: the address made of the texts it is given, exactly when that
  address is well formed.
\<close>

lemma validated_name_tag_Inr [result_simps]:
  "validated_name_tag n t = Inr x \<longleftrightarrow>
     x = \<lparr>ti_name = Segment n, ti_tag = Segment (normalize_tag t)\<rparr> \<and>
     valid_segment (Segment n) \<and> valid_segment (Segment (normalize_tag t))"
  by (auto simp: validated_name_tag_def result_simps)

lemma target_new_iff:
  "target_contract n t = Inr x \<longleftrightarrow>
     target_ok x \<and> x = TargetContract \<lparr>ti_name = Segment n, ti_tag = Segment (normalize_tag t)\<rparr>"
  "target_node n t = Inr x \<longleftrightarrow>
     target_ok x \<and> x = TargetNode \<lparr>ti_name = Segment n, ti_tag = Segment (normalize_tag t)\<rparr>"
  "target_pairing n t = Inr x \<longleftrightarrow>
     target_ok x \<and> x = TargetPairing \<lparr>ti_name = Segment n, ti_tag = Segment (normalize_tag t)\<rparr>"
proof -
  have lift: "map_sum id f (validated_name_tag n t) = Inr x \<longleftrightarrow>
      (\<exists>y. validated_name_tag n t = Inr y \<and> x = f y)" for f :: "target_identifier \<Rightarrow> sender_target"
    by (cases "validated_name_tag n t") auto
  show "target_contract n t = Inr x \<longleftrightarrow>
     target_ok x \<and> x = TargetContract \<lparr>ti_name = Segment n, ti_tag = Segment (normalize_tag t)\<rparr>"
    "target_node n t = Inr x \<longleftrightarrow>
     target_ok x \<and> x = TargetNode \<lparr>ti_name = Segment n, ti_tag = Segment (normalize_tag t)\<rparr>"
    "target_pairing n t = Inr x \<longleftrightarrow>
     target_ok x \<and> x = TargetPairing \<lparr>ti_name = Segment n, ti_tag = Segment (normalize_tag t)\<rparr>"
    unfolding target_contract_def target_node_def target_pairing_def lift validated_name_tag_Inr target_ok_def
    by auto
qed

lemma wire_peer_new_iff:
  "wire_peer_new c i l = Inr p \<longleftrightarrow>
     peer_ok p \<and> p = \<lparr>wp_core_node = Segment c, wp_instance_id = Segment i, wp_link_id = Segment l\<rparr>"
  by (auto simp: wire_peer_new_def result_simps peer_ok_def)

lemma topic_sender_new_iff:
  assumes "target_ok tg"
  shows "topic_sender_new c i tg link n = Inr s \<longleftrightarrow> topic_sender_ok s \<and>
     s = \<lparr>ts_core_node = Segment c, ts_instance_id = Segment i, ts_target = tg,
          ts_link_id = Segment (case link of None \<Rightarrow> ''_'' | Some l \<Rightarrow> l), ts_topic_name = Segment n, ts_to_peer = None\<rparr>"
  using assms by (auto simp: topic_sender_new_def result_simps topic_sender_ok_def)

lemma topic_sender_to_peer_iff:
  assumes "target_ok tg" "peer_ok p"
  shows "topic_sender_to_peer c i tg l n p = Inr s \<longleftrightarrow> topic_sender_ok s \<and>
     s = \<lparr>ts_core_node = Segment c, ts_instance_id = Segment i, ts_target = tg, ts_link_id = Segment l,
          ts_topic_name = Segment n, ts_to_peer = Some p\<rparr>"
  using assms by (auto simp: topic_sender_to_peer_def result_simps topic_sender_ok_def)

lemma topic_receiver_new_iff:
  assumes "pred_option target_ok tg"
  shows "topic_receiver_new c i fc fi tg fl n = Inr r \<longleftrightarrow> topic_receiver_ok r \<and>
     r = \<lparr>tr_core_node = Segment c, tr_instance_id = Segment i, tr_from_core_node = map_option Segment fc,
          tr_from_instance_id = map_option Segment fi, tr_from_target = tg,
          tr_from_link_id = map_option Segment fl, tr_to_topic = Segment n, tr_recipient = None\<rparr>"
  using assms
  by (auto simp: topic_receiver_new_def and_then_Inr segment_of_Inr optional_segment_Inr topic_receiver_ok_def
      simp del: transpose_simps)

lemma topic_receiver_pairing_iff:
  assumes "target_ok tg" "peer_ok p" "recipient_ok rc"
  shows "topic_receiver_pairing c i tg p rc n = Inr r \<longleftrightarrow> topic_receiver_ok r \<and>
     r = \<lparr>tr_core_node = Segment c, tr_instance_id = Segment i, tr_from_core_node = Some (wp_core_node p),
          tr_from_instance_id = Some (wp_instance_id p), tr_from_target = Some tg,
          tr_from_link_id = Some (wp_link_id p), tr_to_topic = Segment n, tr_recipient = Some rc\<rparr>"
  using assms
  by (auto simp: topic_receiver_pairing_def result_simps topic_receiver_ok_def peer_ok_def names_pairing_def)

lemma topic_receiver_paired_iff:
  assumes "target_ok tg" "peer_ok p"
  shows "topic_receiver_paired c i tg p l n = Inr r \<longleftrightarrow> topic_receiver_ok r \<and>
     r = \<lparr>tr_core_node = Segment c, tr_instance_id = Segment i, tr_from_core_node = Some (wp_core_node p),
          tr_from_instance_id = Some (wp_instance_id p), tr_from_target = Some tg,
          tr_from_link_id = Some (wp_link_id p), tr_to_topic = Segment n,
          tr_recipient = Some (RecipientSlot (Segment l))\<rparr>"
proof (cases "valid_link (Segment l)")
  case True
  then have "recipient_ok (RecipientSlot (Segment l))" by (simp add: recipient_ok_def)
  with True topic_receiver_pairing_iff [OF assms] show ?thesis
    by (simp add: topic_receiver_paired_def result_simps)
next
  case False
  then show ?thesis by (auto simp: topic_receiver_paired_def result_simps topic_receiver_ok_def recipient_ok_def)
qed

lemma service_sender_new_iff:
  assumes "target_ok tg"
  shows "service_sender_new c i producer tg n k = Inr s \<longleftrightarrow> service_sender_ok s \<and>
     s = \<lparr>ss_bound_core_node = Segment c, ss_instance_id = Segment i,
          ss_target_core_node = map_option (\<lambda>p. Segment (pr_core_node p)) producer,
          ss_target_instance_id = map_option (\<lambda>p. Segment (pr_instance_id p)) producer,
          ss_to_target = tg, ss_service_name = Segment n, ss_kind = k, ss_signing = None\<rparr>"
  using assms by (auto simp: service_sender_new_def result_simps service_sender_ok_def)

lemma scoped_to_core_node_iff:
  assumes "service_sender_ok s"
  shows "scoped_to_core_node c s = Inr s' \<longleftrightarrow> service_sender_ok s' \<and>
     s' = s\<lparr>ss_target_core_node := Some (Segment c), ss_target_instance_id := None\<rparr>"
  using assms by (auto simp: scoped_to_core_node_def result_simps service_sender_ok_def)

lemma service_receiver_new_iff:
  assumes "target_ok tg"
  shows "service_receiver_new c i tg n k = Inr r \<longleftrightarrow> service_receiver_ok r \<and>
     r = \<lparr>sr_bound_core_node = Segment c, sr_instance_id = Segment i, sr_identity = tg,
          sr_service_name = Segment n, sr_kind = k, sr_root_prefix = service_root_prefix_of tg k\<rparr>"
  using assms by (auto simp: service_receiver_new_def result_simps service_receiver_ok_def)

lemma action_sender_new_iff:
  assumes "target_ok tg"
  shows "action_sender_new c i producer tg n = Inr s \<longleftrightarrow> action_sender_ok s \<and>
     s = \<lparr>as_core_node = Segment c, as_instance_id = Segment i,
          as_target_core_node = map_option (\<lambda>p. Segment (pr_core_node p)) producer,
          as_target_instance_id = map_option (\<lambda>p. Segment (pr_instance_id p)) producer,
          as_to_target = tg, as_action_name = Segment n\<rparr>"
  using assms by (auto simp: action_sender_new_def result_simps action_sender_ok_def)

lemma pinned_to_iff:
  assumes "action_sender_ok s"
  shows "pinned_to c i s = Inr s' \<longleftrightarrow> action_sender_ok s' \<and>
     s' = s\<lparr>as_target_core_node := Some (Segment c), as_target_instance_id := Some (Segment i)\<rparr>"
  using assms by (auto simp: pinned_to_def result_simps action_sender_ok_def)

lemma action_receiver_new_iff:
  assumes "target_ok tg"
  shows "action_receiver_new c i tg n = Inr r \<longleftrightarrow> action_receiver_ok r \<and>
     r = \<lparr>ar_bound_core_node = Segment c, ar_instance_id = Segment i, ar_identity = tg, ar_action_name = Segment n\<rparr>"
  using assms by (auto simp: action_receiver_new_def result_simps action_receiver_ok_def)

lemma action_services_ok:
  "action_sender_ok s \<Longrightarrow> service_sender_ok (action_service_sender s k)"
  "action_receiver_ok r \<Longrightarrow> service_receiver_ok (action_service_receiver r k)"
  by (simp_all add: action_sender_ok_def service_sender_ok_def action_service_sender_def
        action_receiver_ok_def service_receiver_ok_def action_service_receiver_def)

end
