(* ===== verification/Wire_Format.thy ===== *)
theory Wire_Format
  imports Wire_Address
begin

text \<open>
  The key expressions of the messaging protocol: their builders and parsers
  (peppy-messaging-interface, \<open>wire/zenoh_format.rs\<close>), the public templates of the same grammar
  (\<open>wire/templates.rs\<close>), and the matcher of key expressions of the in-process adapter
  (\<open>adapters/mock.rs\<close>), which follows the matcher of the transport.
\<close>

section \<open>Shared parts of the keys\<close>

definition single_chunk_wildcard :: string where
  "single_chunk_wildcard = ''*''"

definition pinned_or_wildcard :: "segment option \<Rightarrow> string" where
  "pinned_or_wildcard slot = (case slot of None \<Rightarrow> single_chunk_wildcard | Some s \<Rightarrow> as_str s)"

definition target_segments :: "sender_target option \<Rightarrow> string list" where
  "target_segments target =
     (case target of
        Some t \<Rightarrow> [discriminator t, target_name t, target_tag t]
      | None \<Rightarrow> [single_chunk_wildcard, single_chunk_wildcard, single_chunk_wildcard])"

definition service_root :: "sender_target \<Rightarrow> string \<Rightarrow> string \<Rightarrow> service_kind \<Rightarrow> string" where
  "service_root target link_id name kind =
     slashed [root_segment kind, discriminator target, target_name target, target_tag target,
              link_id, name]
     @ (case kind_suffix kind of None \<Rightarrow> [] | Some s \<Rightarrow> CHR ''/'' # s)"

definition action_root :: "sender_target \<Rightarrow> string \<Rightarrow> string \<Rightarrow> string" where
  "action_root target link_id action =
     slashed [''action'', discriminator target, target_name target, target_tag target, link_id, action]"

section \<open>Topics\<close>

record parsed_topic_key =
  ptk_core_node :: string
  ptk_instance_id :: string
  ptk_link_id :: string

definition get :: "'a list \<Rightarrow> nat \<Rightarrow> 'a option" where
  "get xs i = (if i < length xs then Some (xs ! i) else None)"

definition extract_caller_segment :: "string option \<Rightarrow> string \<Rightarrow> wire_parse_error + string" where
  "extract_caller_segment seg field =
     and_then (ok_or (MissingSegment field) (case seg of None \<Rightarrow> None | Some s \<Rightarrow> if s = [] then None else Some s))
       (\<lambda>value. if value = single_chunk_wildcard then Inl (WildcardInCallerSegment field) else Inr value)"

definition parse_topic_keyexpr :: "string \<Rightarrow> wire_parse_error + parsed_topic_key" where
  "parse_topic_keyexpr keyexpr =
     (let segments = chunks keyexpr
      in and_then (extract_caller_segment (get segments 1) ''caller_core_node'') (\<lambda>core_node.
         and_then (extract_caller_segment (get segments 3) ''caller_instance_id'') (\<lambda>instance_id.
         Inr \<lparr>ptk_core_node = core_node, ptk_instance_id = instance_id,
              ptk_link_id = (case get segments 8 of None \<Rightarrow> [] | Some l \<Rightarrow> l)\<rparr>)))"

definition topic_publish :: "topic_wire_sender \<Rightarrow> string" where
  "topic_publish s =
     (let (to_core, to_inst) = (case ts_to_peer s of
            Some p \<Rightarrow> (as_str (wp_core_node p), as_str (wp_instance_id p))
          | None \<Rightarrow> (single_chunk_wildcard, single_chunk_wildcard));
          key = slashed ([to_core, as_str (ts_core_node s), to_inst, as_str (ts_instance_id s), ''topic'']
                 @ target_segments (Some (ts_target s))
                 @ [as_str (ts_link_id s), as_str (ts_topic_name s)])
      in case ts_to_peer s of
           Some p \<Rightarrow> slashed [key, as_str (wp_link_id p)]
         | None \<Rightarrow> key)"

definition topic_subscribe :: "topic_wire_receiver \<Rightarrow> string" where
  "topic_subscribe r =
     (let (as_core, as_inst) = (case tr_recipient r of
            Some RecipientAny \<Rightarrow> (single_chunk_wildcard, single_chunk_wildcard)
          | Some (RecipientPeer p) \<Rightarrow> (as_str (wp_core_node p), as_str (wp_instance_id p))
          | _ \<Rightarrow> (as_str (tr_core_node r), as_str (tr_instance_id r)));
          key = slashed ([as_core, pinned_or_wildcard (tr_from_core_node r), as_inst,
                   pinned_or_wildcard (tr_from_instance_id r), ''topic'']
                 @ target_segments (tr_from_target r)
                 @ [pinned_or_wildcard (tr_from_link_id r), as_str (tr_to_topic r)])
      in case tr_recipient r of
           Some (RecipientSlot own_link_id) \<Rightarrow> slashed [key, as_str own_link_id]
         | Some (RecipientPeer p) \<Rightarrow> slashed [key, as_str (wp_link_id p)]
         | Some RecipientAny \<Rightarrow> slashed [key, single_chunk_wildcard]
         | None \<Rightarrow> key)"

section \<open>Services\<close>

definition service_queryable_declare :: "service_wire_receiver \<Rightarrow> string" where
  "service_queryable_declare r =
     slashed [as_str (sr_bound_core_node r), single_chunk_wildcard, as_str (sr_instance_id r),
       single_chunk_wildcard,
       service_root (sr_identity r) single_chunk_wildcard (as_str (sr_service_name r)) (sr_kind r)]"

definition service_get_selector :: "'k service_wire_sender \<Rightarrow> string" where
  "service_get_selector s =
     slashed [pinned_or_wildcard (ss_target_core_node s), as_str (ss_bound_core_node s),
       pinned_or_wildcard (ss_target_instance_id s), as_str (ss_instance_id s),
       service_root (ss_to_target s) single_chunk_wildcard (as_str (ss_service_name s)) (ss_kind s)]"

definition service_reply_keyexpr :: "service_wire_receiver \<Rightarrow> string \<Rightarrow> string \<Rightarrow> string \<Rightarrow> string" where
  "service_reply_keyexpr r link_id_literal caller_core caller_inst =
     slashed [caller_core, as_str (sr_bound_core_node r), caller_inst, as_str (sr_instance_id r),
       service_root (sr_identity r) link_id_literal (as_str (sr_service_name r)) (sr_kind r)]"

definition reject_target_mismatch :: "string \<Rightarrow> string \<Rightarrow> string \<Rightarrow> wire_parse_error + unit" where
  "reject_target_mismatch field got expected =
     (if got = single_chunk_wildcard \<or> got = expected then Inr ()
      else Inl (TargetSlotMismatch field expected got))"

record parsed_inbound_query =
  piq_caller_core :: string
  piq_caller_inst :: string
  piq_link_id :: string
  piq_kind :: service_query_kind
  piq_proof :: "call_proof option"

text \<open>The iterator over the chunks is the list of those left.\<close>

definition next_part :: "string \<Rightarrow> string list \<Rightarrow> wire_parse_error + string \<times> string list" where
  "next_part field parts = (case parts of [] \<Rightarrow> Inl (MissingSegment field) | p # ps \<Rightarrow> Inr (p, ps))"

fun match_root_prefix :: "string list \<Rightarrow> string list \<Rightarrow> wire_parse_error + string list" where
  "match_root_prefix [] parts = Inr parts"
| "match_root_prefix (expected # es) parts =
     and_then (next_part ''service_root'' parts) (\<lambda>(got, ps).
       if got \<noteq> expected then Inl (ServiceRootMismatch expected got) else match_root_prefix es ps)"

definition parse_inbound_query ::
    "service_wire_receiver \<Rightarrow> string \<Rightarrow> byte list \<Rightarrow> wire_parse_error + parsed_inbound_query" where
  "parse_inbound_query r query_keyexpr attachment_bytes =
     (let parts = filter (\<lambda>s. s \<noteq> []) (chunks query_keyexpr)
      in and_then (next_part ''target_core_node'' parts) (\<lambda>(to_core, p1).
         and_then (reject_target_mismatch ''target_core_node'' to_core (as_str (sr_bound_core_node r))) (\<lambda>_.
         and_then (next_part ''caller_core_node'' p1) (\<lambda>(caller_core, p2).
         and_then (next_part ''to_instance'' p2) (\<lambda>(to_inst, p3).
         and_then (reject_target_mismatch ''target_instance_id'' to_inst (as_str (sr_instance_id r))) (\<lambda>_.
         and_then (next_part ''caller_instance'' p3) (\<lambda>(caller_inst, p4).
         and_then (match_root_prefix (sr_root_prefix r) p4) (\<lambda>p5.
         and_then (next_part ''link_id'' p5) (\<lambda>(link_id, _).
         and_then (query_attachment_decode attachment_bytes) (\<lambda>a.
         Inr \<lparr>piq_caller_core = caller_core, piq_caller_inst = caller_inst, piq_link_id = link_id,
              piq_kind = qa_kind a, piq_proof = qa_proof a\<rparr>))))))))))"

definition claim :: "parsed_inbound_query \<Rightarrow> string option" where
  "claim q =
     (if piq_link_id q = single_chunk_wildcard \<or> piq_link_id q = default_link_id_literal
      then Some default_link_id_literal else None)"

text \<open>The attachment of a call: its kind, and its proof when the sender signs it.\<close>

definition service_get_selector_attachment ::
    "'k ed25519_ops \<Rightarrow> 'k service_wire_sender \<Rightarrow> string \<Rightarrow> string \<Rightarrow> service_query_kind \<Rightarrow> byte list \<Rightarrow>
     byte list \<Rightarrow> system_time \<Rightarrow> byte list" where
  "service_get_selector_attachment R s namespace selector kind payload nonce now =
     query_attachment_encode
       \<lparr>qa_kind = kind,
        qa_proof = map_option (\<lambda>signing. signing_prove R signing
           \<lparr>call_namespace = namespace, call_key_expr = selector, call_kind = kind,
            call_payload = payload\<rparr> nonce now) (ss_signing s)\<rparr>"

section \<open>Action feedback, liveliness and presence\<close>

definition action_feedback_publish :: "action_wire_receiver \<Rightarrow> string \<Rightarrow> string \<Rightarrow> string" where
  "action_feedback_publish r link_id goal_id =
     slashed [single_chunk_wildcard, as_str (ar_bound_core_node r), single_chunk_wildcard,
       as_str (ar_instance_id r), action_root (ar_identity r) link_id (as_str (ar_action_name r)),
       ''feedback'', as_str (ar_instance_id r), goal_id]"

definition action_feedback_subscribe :: "action_wire_sender \<Rightarrow> string \<Rightarrow> string" where
  "action_feedback_subscribe s goal_id =
     slashed [as_str (as_core_node s), pinned_or_wildcard (as_target_core_node s),
       as_str (as_instance_id s), pinned_or_wildcard (as_target_instance_id s),
       action_root (as_to_target s) single_chunk_wildcard (as_str (as_action_name s)),
       ''feedback'', pinned_or_wildcard (as_target_instance_id s), goal_id]"

definition action_liveliness_token :: "action_wire_receiver \<Rightarrow> string" where
  "action_liveliness_token r =
     slashed ([''action_liveliness'', as_str (ar_bound_core_node r), as_str (ar_instance_id r)]
       @ target_segments (Some (ar_identity r)) @ [as_str (ar_action_name r)])"

definition action_liveliness_watch :: "action_wire_sender \<Rightarrow> string" where
  "action_liveliness_watch s =
     slashed ([''action_liveliness'', pinned_or_wildcard (as_target_core_node s),
         pinned_or_wildcard (as_target_instance_id s)]
       @ target_segments (Some (as_to_target s)) @ [as_str (as_action_name s)])"

record client_presence =
  cp_core_node :: segment
  cp_instance_id :: segment
  cp_generation :: segment

definition client_presence_token :: "client_presence \<Rightarrow> string" where
  "client_presence_token c =
     slashed [''client_presence'', as_str (cp_core_node c), as_str (cp_instance_id c),
              as_str (cp_generation c)]"

record core_node_presence =
  cnp_core_node :: string
  cnp_instance_id :: string

text \<open>
  \<open>Namespace::parse\<close> (peppy-config-model, \<open>namespace.rs\<close>): one chunk that the transport takes as a
  key expression without wildcards (\<open>nonwild\<close>, the \<open>nonwild_keyexpr::new\<close> of zenoh).
\<close>

datatype invalid_namespace = NamespaceHasSlash string | NamespaceIsWild string

definition namespace_parse :: "(string \<Rightarrow> bool) \<Rightarrow> string \<Rightarrow> invalid_namespace + string" where
  "namespace_parse nonwild s =
     (if CHR ''/'' \<in> set s then Inl (NamespaceHasSlash s)
      else if \<not> nonwild s then Inl (NamespaceIsWild s)
      else Inr s)"

definition nonwild_keyexpr :: "(string \<Rightarrow> bool) \<Rightarrow> bool" where
  "nonwild_keyexpr nonwild \<longleftrightarrow> (\<forall>s. nonwild s \<longrightarrow> s \<notin> {[], ''*'', ''**''})"

datatype presence_scope = Session | Namespace string

definition core_node_presence_token :: "segment \<Rightarrow> segment \<Rightarrow> string" where
  "core_node_presence_token core_node instance_id =
     slashed [''core_node_presence'', as_str core_node, as_str instance_id]"

definition namespace_prefix :: "presence_scope \<Rightarrow> string" where
  "namespace_prefix scope = (case scope of Session \<Rightarrow> [] | Namespace ns \<Rightarrow> ns @ ''/'')"

definition core_node_presence_filter :: "presence_scope \<Rightarrow> segment option \<Rightarrow> string" where
  "core_node_presence_filter scope core_node =
     namespace_prefix scope
     @ slashed [''core_node_presence'', pinned_or_wildcard core_node, single_chunk_wildcard]"

definition parse_core_node_presence :: "presence_scope \<Rightarrow> string \<Rightarrow> wire_parse_error + core_node_presence" where
  "parse_core_node_presence scope keyexpr =
     (let invalid = InvalidCoreNodePresenceKey keyexpr
      in and_then (case scope of
              Session \<Rightarrow> Inr keyexpr
            | Namespace ns \<Rightarrow> ok_or invalid (Option.bind (strip_prefix ns keyexpr) (strip_prefix ''/'')))
         (\<lambda>rest. case chunks rest of
              [head, core_node, instance_id] \<Rightarrow>
                if head \<noteq> ''core_node_presence'' \<or>
                   \<not> segment_is_valid core_node \<or> \<not> segment_is_valid instance_id
                then Inl invalid
                else Inr \<lparr>cnp_core_node = core_node, cnp_instance_id = instance_id\<rparr>
            | _ \<Rightarrow> Inl invalid))"

section \<open>The public templates\<close>

definition service_channel_address ::
    "string \<Rightarrow> string \<Rightarrow> string \<Rightarrow> string \<Rightarrow> sender_target \<Rightarrow> string \<Rightarrow> string \<Rightarrow> service_kind \<Rightarrow> string" where
  "service_channel_address to_core from_core to_instance from_instance target link_id service_name kind =
     slashed [to_core, from_core, to_instance, from_instance,
              service_root target link_id service_name kind]"

definition topic_channel_address :: "string \<Rightarrow> string \<Rightarrow> sender_target \<Rightarrow> string \<Rightarrow> string \<Rightarrow> string" where
  "topic_channel_address as_core as_instance target link_id topic_name =
     slashed [single_chunk_wildcard, as_core, single_chunk_wildcard, as_instance, ''topic'',
       discriminator target, target_name target, target_tag target, link_id, topic_name]"

definition action_feedback_channel_address ::
    "string \<Rightarrow> string \<Rightarrow> sender_target \<Rightarrow> string \<Rightarrow> string \<Rightarrow> string \<Rightarrow> string" where
  "action_feedback_channel_address bound_core as_instance target link_id action_name goal_id =
     slashed [single_chunk_wildcard, bound_core, single_chunk_wildcard, as_instance,
       action_root target link_id action_name, ''feedback'', as_instance, goal_id]"

section \<open>The matcher of key expressions\<close>

definition single_chunk_intersect :: "string \<Rightarrow> string \<Rightarrow> bool" where
  "single_chunk_intersect a b =
     (if a = ''*'' then b \<noteq> [] else if b = ''*'' then a \<noteq> [] else a = b)"

function (sequential) intersect_chunks :: "string list \<Rightarrow> string list \<Rightarrow> bool" where
  "intersect_chunks [] [] = True"
| "intersect_chunks [] (b # bs) = list_all (\<lambda>c. c = ''**'') (b # bs)"
| "intersect_chunks (a # as) [] = list_all (\<lambda>c. c = ''**'') (a # as)"
| "intersect_chunks (a # as) (b # bs) =
     (if a = ''**'' then intersect_chunks as (b # bs) \<or> intersect_chunks (a # as) bs
      else if b = ''**'' then intersect_chunks (a # as) bs \<or> intersect_chunks as (b # bs)
      else single_chunk_intersect a b \<and> intersect_chunks as bs)"
  by pat_completeness auto
termination by (relation "measure (\<lambda>(a, b). length a + length b)") simp_all

definition key_exprs_intersect :: "string \<Rightarrow> string \<Rightarrow> bool" where
  "key_exprs_intersect a b = intersect_chunks (chunks a) (chunks b)"

end
