(* ===== verification/Wire_Routing.thy ===== *)
theory Wire_Routing
  imports Wire_Format
begin

text \<open>
  Who receives what: the matcher of key expressions decides whether two of them share a concrete
  key, and the keys of the wire format then route exactly as the addresses say. The theory holds
  the chunks of every key that a well-formed address builds, and the properties of topics,
  services, action feedback and presence that follow from them.
\<close>

section \<open>The matcher is exact\<close>

text \<open>
  The meaning of a key expression: the concrete keys it matches. A concrete key is a list of
  non-empty chunks without wildcards; \<open>*\<close> matches one chunk and \<open>**\<close> any number of them.
\<close>

fun key_matches :: "string list \<Rightarrow> string list \<Rightarrow> bool" where
  "key_matches [] key = (key = [])"
| "key_matches (p # ps) [] = (p = ''**'' \<and> key_matches ps [])"
| "key_matches (p # ps) (k # ks) =
     (if p = ''**'' then key_matches ps (k # ks) \<or> key_matches (p # ps) ks
      else (p = ''*'' \<or> p = k) \<and> key_matches ps ks)"

definition concrete_key :: "string list \<Rightarrow> bool" where
  "concrete_key key = list_all (\<lambda>k. k \<notin> {[], ''*'', ''**''}) key"

lemma key_matches_stars: "list_all (\<lambda>c. c = ''**'') ps \<Longrightarrow> key_matches ps []"
  by (induction ps) simp_all

lemma key_matches_Nil: "key_matches ps [] \<longleftrightarrow> list_all (\<lambda>c. c = ''**'') ps"
  by (induction ps) simp_all

lemma key_matches_skip: "key_matches ps key \<Longrightarrow> key_matches (''**'' # ps) key"
  by (cases key) simp_all

lemma key_matches_literal:
  "p \<noteq> ''**'' \<Longrightarrow> key_matches (p # ps) key \<longleftrightarrow>
     (\<exists>k ks. key = k # ks \<and> (p = ''*'' \<or> p = k) \<and> key_matches ps ks)"
  by (cases key) auto

definition chunk_for :: "string \<Rightarrow> string \<Rightarrow> string" where
  "chunk_for a b = (if a \<noteq> ''*'' then a else if b \<noteq> ''*'' then b else ''x'')"

lemma chunk_for_concrete:
  "single_chunk_intersect a b \<Longrightarrow> a \<notin> {[], ''**''} \<Longrightarrow> b \<notin> {[], ''**''} \<Longrightarrow>
     chunk_for a b \<notin> {[], ''*'', ''**''} \<and> (a = ''*'' \<or> a = chunk_for a b) \<and> (b = ''*'' \<or> b = chunk_for a b)"
  by (auto simp: chunk_for_def single_chunk_intersect_def split: if_splits)

lemma star_absorbs:
  assumes "key_matches bs key" "concrete_key key" "b \<noteq> []" "key_matches (''**'' # as) key"
  shows "\<exists>key. concrete_key key \<and> key_matches (''**'' # as) key \<and> key_matches (b # bs) key"
proof (cases "b = ''**''")
  case True
  with assms show ?thesis by (blast intro: key_matches_skip)
next
  case False
  define k where "k = (if b = ''*'' then ''x'' else b)"
  have "concrete_key (k # key)" "key_matches (''**'' # as) (k # key)" "key_matches (b # bs) (k # key)"
    using assms False by (auto simp: concrete_key_def k_def)
  then show ?thesis by blast
qed

lemma intersect_chunks_sound:
  assumes "intersect_chunks a b" "list_all (\<lambda>c. c \<noteq> []) a" "list_all (\<lambda>c. c \<noteq> []) b"
  shows "\<exists>key. concrete_key key \<and> key_matches a key \<and> key_matches b key"
  using assms
proof (induction a b rule: intersect_chunks.induct)
  case 1
  then show ?case by (auto simp: concrete_key_def)
next
  case (2 b bs)
  then show ?case by (intro exI [of _ "[]"]) (simp add: concrete_key_def key_matches_Nil)
next
  case (3 a as)
  then show ?case by (intro exI [of _ "[]"]) (simp add: concrete_key_def key_matches_Nil)
next
  case (4 a as b bs)
  consider "a = ''**''" | "a \<noteq> ''**''" "b = ''**''" | "a \<noteq> ''**''" "b \<noteq> ''**''" by blast
  then show ?case
  proof cases
    case 1
    with 4(6) consider "intersect_chunks as (b # bs)" | "intersect_chunks (a # as) bs" by auto
    then show ?thesis
    proof cases
      case 1
      with \<open>a = ''**''\<close> 4(1) 4(7,8) show ?thesis by (auto intro: key_matches_skip)
    next
      case 2
      with \<open>a = ''**''\<close> 4(2) 4(7,8) obtain key where
        "concrete_key key" "key_matches (''**'' # as) key" "key_matches bs key" by auto
      with 4(8) \<open>a = ''**''\<close> show ?thesis using star_absorbs [of bs key b as] by simp
    qed
  next
    case 2
    with 4(6) consider "intersect_chunks (a # as) bs" | "intersect_chunks as (b # bs)" by auto
    then show ?thesis
    proof cases
      case 1
      with 2 4(3) 4(7,8) show ?thesis by (auto intro: key_matches_skip)
    next
      case B: 2
      with 2 4(4) 4(7,8) obtain key where
        "concrete_key key" "key_matches as key" "key_matches (''**'' # bs) key" by auto
      with 4(7) 2 show ?thesis using star_absorbs [of as key a bs] by auto
    qed
  next
    case 3
    with 4(6) have ab: "single_chunk_intersect a b" "intersect_chunks as bs" by auto
    with 3 4(5) 4(7,8) obtain key where key:
      "concrete_key key" "key_matches as key" "key_matches bs key" by auto
    from ab(1) 3 4(7,8) have "chunk_for a b \<notin> {[], ''*'', ''**''}"
      "a = ''*'' \<or> a = chunk_for a b" "b = ''*'' \<or> b = chunk_for a b"
      using chunk_for_concrete [of a b] by auto
    with key 3 show ?thesis
      by (intro exI [of _ "chunk_for a b # key"]) (auto simp: concrete_key_def)
  qed
qed

lemma intersect_chunks_complete:
  "concrete_key key \<Longrightarrow> key_matches a key \<Longrightarrow> key_matches b key \<Longrightarrow> intersect_chunks a b"
proof (induction a b arbitrary: key rule: intersect_chunks.induct)
  case 1
  then show ?case by simp
next
  case (2 b bs)
  then have "key_matches (b # bs) []" by simp
  then show ?case by (simp only: key_matches_Nil intersect_chunks.simps)
next
  case (3 a as)
  then have "key_matches (a # as) []" by simp
  then show ?case by (simp only: key_matches_Nil intersect_chunks.simps)
next
  case (4 a as b bs)
  from 4(6-8) show ?case
  proof (induction key)
    case Nil
    then show ?case using "4.IH" [of "[]"] by (auto simp: concrete_key_def split: if_splits)
  next
    case (Cons k ks)
    have ks: "concrete_key ks" and kc: "k \<notin> {[], ''*'', ''**''}"
      using Cons.prems(1) by (simp_all add: concrete_key_def)
    show ?case
    proof (cases "a = ''**'' \<or> b = ''**''")
      case False
      with Cons.prems(2,3) ks have "intersect_chunks as bs" using "4.IH"(5) [of ks] by auto
      moreover have "single_chunk_intersect a b"
        using False Cons.prems(2,3) kc by (auto simp: single_chunk_intersect_def)
      ultimately show ?thesis using False by simp
    next
      case True
      then show ?thesis
        using Cons.prems Cons.IH ks "4.IH"(1,2,3,4) [of "k # ks"] "4.IH"(1,2,3,4) [of ks]
        by (auto split: if_splits)
    qed
  qed
qed


text \<open>Without \<open>**\<close> the chunks are compared one by one.\<close>

lemma intersect_chunks_plain:
  "list_all (\<lambda>c. c \<noteq> ''**'') a \<Longrightarrow> list_all (\<lambda>c. c \<noteq> ''**'') b \<Longrightarrow>
     intersect_chunks a b \<longleftrightarrow> list_all2 single_chunk_intersect a b"
  by (induction a b rule: intersect_chunks.induct) auto

section \<open>The chunks of the keys\<close>

text \<open>A chunk of a key the builders make: non-empty, without a slash, and not \<open>**\<close>.\<close>

definition plain_chunk :: "string \<Rightarrow> bool" where
  "plain_chunk c \<longleftrightarrow> c \<noteq> [] \<and> CHR ''/'' \<notin> set c \<and> c \<noteq> ''**''"

text \<open>Two chunks meet when one of them is the wildcard or they are equal.\<close>

definition slots_meet :: "string \<Rightarrow> string \<Rightarrow> bool" where
  "slots_meet a b \<longleftrightarrow> a = ''*'' \<or> b = ''*'' \<or> a = b"

named_theorems chunk_simps \<open>plain chunks and the chunks of the keys\<close>

lemma valid_segment_plain: "valid_segment s \<Longrightarrow> plain_chunk (as_str s) \<and> as_str s \<noteq> ''*'' \<and> as_str s \<noteq> ''_''"
  by (auto simp: valid_segment_def plain_chunk_def)

lemma valid_link_plain: "valid_link s \<Longrightarrow> plain_chunk (as_str s) \<and> as_str s \<noteq> ''*''"
  by (auto simp: valid_link_def plain_chunk_def)

lemmas valid_plain [chunk_simps] =
  valid_segment_plain [THEN conjunct1] valid_segment_plain [THEN conjunct2, THEN conjunct1]
  valid_link_plain [THEN conjunct1] valid_link_plain [THEN conjunct2]

lemma plain_literals [chunk_simps]:
  "plain_chunk ''*''" "plain_chunk ''topic''" "plain_chunk ''feedback''" "plain_chunk ''action''"
  "plain_chunk ''action_liveliness''" "plain_chunk ''client_presence''" "plain_chunk ''core_node_presence''"
  "plain_chunk ''_''" "plain_chunk (discriminator t)" "plain_chunk (root_segment k)"
  "discriminator t \<noteq> ''*''" "root_segment k \<noteq> ''*''"
  by (cases t; simp add: plain_chunk_def root_segment_def)+

lemma plain_pinned [chunk_simps]:
  "pred_option valid_segment x \<Longrightarrow> plain_chunk (pinned_or_wildcard x)"
  "pred_option valid_link x \<Longrightarrow> plain_chunk (pinned_or_wildcard x)"
  by (cases x; simp add: pinned_or_wildcard_def single_chunk_wildcard_def chunk_simps)+

lemma target_ok_plain [chunk_simps]:
  "target_ok t \<Longrightarrow> plain_chunk (target_name t)" "target_ok t \<Longrightarrow> plain_chunk (target_tag t)"
  "target_ok t \<Longrightarrow> target_name t \<noteq> ''*''" "target_ok t \<Longrightarrow> target_tag t \<noteq> ''*''"
  by (simp_all add: target_ok_def target_name_def target_tag_def chunk_simps)

lemma length_target_segments [simp]: "length (target_segments t) = 3"
  by (cases t) (simp_all add: target_segments_def)

lemma plain_target_segments [chunk_simps]:
  "pred_option target_ok t \<Longrightarrow> list_all plain_chunk (target_segments t)"
  by (cases t) (simp_all add: target_segments_def single_chunk_wildcard_def chunk_simps)

lemma chunks_slashed: "ss \<noteq> [] \<Longrightarrow> list_all plain_chunk ss \<Longrightarrow> chunks (slashed ss) = ss"
  by (rule split_join) (auto simp: list_all_iff plain_chunk_def)

lemma single_chunk_slots: "plain_chunk a \<Longrightarrow> plain_chunk b \<Longrightarrow> single_chunk_intersect a b = slots_meet a b"
  by (auto simp: single_chunk_intersect_def slots_meet_def plain_chunk_def)

lemma list_all2_slots:
  "list_all plain_chunk a \<Longrightarrow> list_all plain_chunk b \<Longrightarrow>
     list_all2 single_chunk_intersect a b = list_all2 slots_meet a b"
  by (induction a arbitrary: b) (auto simp: list_all2_Cons1 single_chunk_slots)

text \<open>Two keys of plain chunks intersect when their slots meet one by one.\<close>

lemma keys_intersect:
  assumes "a \<noteq> []" "b \<noteq> []" "list_all plain_chunk a" "list_all plain_chunk b"
  shows "key_exprs_intersect (slashed a) (slashed b) \<longleftrightarrow> list_all2 slots_meet a b"
proof -
  have "list_all (\<lambda>c. c \<noteq> ''**'') a" "list_all (\<lambda>c. c \<noteq> ''**'') b"
    using assms(3,4) by (auto simp: list_all_iff plain_chunk_def)
  then show ?thesis
    using assms by (simp add: key_exprs_intersect_def chunks_slashed intersect_chunks_plain list_all2_slots)
qed

lemma slots_meet_simps [simp]:
  "slots_meet ''*'' b" "slots_meet a ''*''" "slots_meet a a"
  by (simp_all add: slots_meet_def)

lemma slots_meet_literal: "a \<noteq> ''*'' \<Longrightarrow> b \<noteq> ''*'' \<Longrightarrow> slots_meet a b \<longleftrightarrow> a = b"
  by (simp add: slots_meet_def)

definition pin_allows :: "'a option \<Rightarrow> 'a \<Rightarrow> bool" where
  "pin_allows pin v \<longleftrightarrow> (case pin of None \<Rightarrow> True | Some p \<Rightarrow> p = v)"

lemma slots_meet_pinned:
  "pred_option valid_segment x \<Longrightarrow> valid_segment s \<Longrightarrow>
     slots_meet (pinned_or_wildcard x) (as_str s) \<longleftrightarrow> pin_allows x s"
  "pred_option valid_link x \<Longrightarrow> valid_link s \<Longrightarrow>
     slots_meet (pinned_or_wildcard x) (as_str s) \<longleftrightarrow> pin_allows x s"
  by (cases x; auto simp: pinned_or_wildcard_def single_chunk_wildcard_def pin_allows_def
        slots_meet_literal chunk_simps segment.expand)+

lemma discriminator_spaces:
  "discriminator t = discriminator u \<and> target_name t = target_name u \<and> target_tag t = target_tag u \<longleftrightarrow> t = u"
  by (cases t; cases u)
    (auto simp: target_name_def target_tag_def segment.expand intro: target_identifier.equality)

lemma slots_meet_target:
  assumes "pred_option target_ok x" "target_ok t"
  shows "list_all2 slots_meet (target_segments x) (target_segments (Some t)) \<longleftrightarrow> pin_allows x t"
proof (cases x)
  case None
  then show ?thesis by (simp add: target_segments_def single_chunk_wildcard_def pin_allows_def)
next
  case (Some u)
  with assms have "list_all2 slots_meet (target_segments x) (target_segments (Some t)) \<longleftrightarrow>
      discriminator u = discriminator t \<and> target_name u = target_name t \<and> target_tag u = target_tag t"
    by (simp add: target_segments_def slots_meet_literal chunk_simps)
  with Some show ?thesis by (simp only: discriminator_spaces pin_allows_def option.case)
qed


section \<open>Topics\<close>

definition recipient_slots :: "topic_wire_sender \<Rightarrow> string \<times> string" where
  "recipient_slots s = (case ts_to_peer s of
     Some p \<Rightarrow> (as_str (wp_core_node p), as_str (wp_instance_id p)) | None \<Rightarrow> (''*'', ''*''))"

definition publish_chunks :: "topic_wire_sender \<Rightarrow> string list" where
  "publish_chunks s =
     [fst (recipient_slots s), as_str (ts_core_node s), snd (recipient_slots s),
      as_str (ts_instance_id s), ''topic''] @ target_segments (Some (ts_target s))
     @ [as_str (ts_link_id s), as_str (ts_topic_name s)]
     @ (case ts_to_peer s of None \<Rightarrow> [] | Some p \<Rightarrow> [as_str (wp_link_id p)])"

definition subscriber_slots :: "topic_wire_receiver \<Rightarrow> string \<times> string" where
  "subscriber_slots r = (case tr_recipient r of
     Some RecipientAny \<Rightarrow> (''*'', ''*'')
   | Some (RecipientPeer p) \<Rightarrow> (as_str (wp_core_node p), as_str (wp_instance_id p))
   | _ \<Rightarrow> (as_str (tr_core_node r), as_str (tr_instance_id r)))"

definition subscribe_chunks :: "topic_wire_receiver \<Rightarrow> string list" where
  "subscribe_chunks r =
     [fst (subscriber_slots r), pinned_or_wildcard (tr_from_core_node r), snd (subscriber_slots r),
      pinned_or_wildcard (tr_from_instance_id r), ''topic''] @ target_segments (tr_from_target r)
     @ [pinned_or_wildcard (tr_from_link_id r), as_str (tr_to_topic r)]
     @ (case tr_recipient r of None \<Rightarrow> []
          | Some (RecipientSlot l) \<Rightarrow> [as_str l]
          | Some RecipientAny \<Rightarrow> [''*'']
          | Some (RecipientPeer p) \<Rightarrow> [as_str (wp_link_id p)])"

lemma slashed_extended: "xs \<noteq> [] \<Longrightarrow> slashed [slashed xs, y] = slashed (xs @ [y])"
  using slashed_nested_front [of xs "CHR ''/''" "[y]"] by simp

lemma topic_publish_slashed: "topic_publish s = slashed (publish_chunks s)"
  by (cases "ts_to_peer s")
    (simp_all add: topic_publish_def publish_chunks_def recipient_slots_def single_chunk_wildcard_def
       Let_def slashed_extended del: join_with.simps)

lemma topic_subscribe_slashed: "topic_subscribe r = slashed (subscribe_chunks r)"
proof (cases "tr_recipient r")
  case None
  then show ?thesis
    by (simp add: topic_subscribe_def subscribe_chunks_def subscriber_slots_def del: join_with.simps)
next
  case (Some rc)
  then show ?thesis
    by (cases rc) (simp_all add: topic_subscribe_def subscribe_chunks_def subscriber_slots_def
       single_chunk_wildcard_def slashed_extended del: join_with.simps)
qed

lemma publish_chunks_plain: "topic_sender_ok s \<Longrightarrow> list_all plain_chunk (publish_chunks s)"
  using plain_target_segments [of "Some (ts_target s)"]
  by (auto simp: publish_chunks_def recipient_slots_def topic_sender_ok_def peer_ok_def chunk_simps
       split: option.splits)

lemma subscribe_chunks_plain: "topic_receiver_ok r \<Longrightarrow> list_all plain_chunk (subscribe_chunks r)"
  using plain_target_segments [of "tr_from_target r"]
  by (auto simp: subscribe_chunks_def subscriber_slots_def topic_receiver_ok_def peer_ok_def
       recipient_ok_def chunk_simps split: option.splits pairing_recipient.splits)

lemma chunks_neq_Nil: "publish_chunks s \<noteq> []" "subscribe_chunks r \<noteq> []"
  by (simp_all add: publish_chunks_def subscribe_chunks_def)

text \<open>
  What the addresses say: every pin of the subscription allows the publisher, and the recipient of
  a pairing publish is the slot the subscription stands for. Only a pairing subscription hears a
  pairing publish, and it hears no other.
\<close>

definition recipient_matches :: "topic_wire_sender \<Rightarrow> topic_wire_receiver \<Rightarrow> bool" where
  "recipient_matches s r =
     (case (ts_to_peer s, tr_recipient r) of
        (None, None) \<Rightarrow> True
      | (Some p, Some (RecipientSlot own)) \<Rightarrow>
          p = \<lparr>wp_core_node = tr_core_node r, wp_instance_id = tr_instance_id r, wp_link_id = own\<rparr>
      | (Some p, Some RecipientAny) \<Rightarrow> True
      | (Some p, Some (RecipientPeer q)) \<Rightarrow> p = q
      | _ \<Rightarrow> False)"

definition topic_reaches :: "topic_wire_sender \<Rightarrow> topic_wire_receiver \<Rightarrow> bool" where
  "topic_reaches s r \<longleftrightarrow>
     ts_topic_name s = tr_to_topic r \<and> pin_allows (tr_from_core_node r) (ts_core_node s) \<and>
     pin_allows (tr_from_instance_id r) (ts_instance_id s) \<and>
     pin_allows (tr_from_target r) (ts_target s) \<and> pin_allows (tr_from_link_id r) (ts_link_id s) \<and>
     recipient_matches s r"

lemma slots_meet_segments:
  "valid_segment a \<Longrightarrow> valid_segment b \<Longrightarrow> slots_meet (as_str a) (as_str b) \<longleftrightarrow> a = b"
  "valid_link a \<Longrightarrow> valid_link b \<Longrightarrow> slots_meet (as_str a) (as_str b) \<longleftrightarrow> a = b"
  by (auto simp: slots_meet_literal chunk_simps segment.expand)

lemma list_all2_middle:
  "length as = length bs \<Longrightarrow>
     list_all2 P (as @ xs) (bs @ ys) \<longleftrightarrow> list_all2 P as bs \<and> list_all2 P xs ys"
  by (rule list_all2_append)

lemma recipient_slots_meet:
  assumes "topic_sender_ok s" "topic_receiver_ok r"
  shows "slots_meet (fst (subscriber_slots r)) (fst (recipient_slots s)) \<and>
         slots_meet (snd (subscriber_slots r)) (snd (recipient_slots s)) \<and>
         list_all2 slots_meet
           (case tr_recipient r of None \<Rightarrow> [] | Some (RecipientSlot l) \<Rightarrow> [as_str l]
              | Some RecipientAny \<Rightarrow> [''*''] | Some (RecipientPeer p) \<Rightarrow> [as_str (wp_link_id p)])
           (case ts_to_peer s of None \<Rightarrow> [] | Some p \<Rightarrow> [as_str (wp_link_id p)]) \<longleftrightarrow>
         recipient_matches s r"
proof -
  have s: "valid_segment (tr_core_node r)" "valid_segment (tr_instance_id r)"
    "\<And>p. ts_to_peer s = Some p \<Longrightarrow> peer_ok p"
    "\<And>rc. tr_recipient r = Some rc \<Longrightarrow> recipient_ok rc"
    using assms by (auto simp: topic_sender_ok_def topic_receiver_ok_def split: option.splits)
  show ?thesis
  proof (cases "ts_to_peer s")
    case None
    then show ?thesis
      by (cases "tr_recipient r")
        (auto simp: recipient_slots_def recipient_matches_def split: pairing_recipient.splits)
  next
    case (Some p)
    show ?thesis
    proof (cases "tr_recipient r")
      case None
      with Some show ?thesis by (simp add: recipient_matches_def)
    next
      case (Some rc)
      show ?thesis
        using s(1,2) s(3) [OF \<open>ts_to_peer s = Some p\<close>] s(4) [OF Some] Some \<open>ts_to_peer s = Some p\<close>
        by (cases rc)
          (auto simp: recipient_slots_def subscriber_slots_def recipient_matches_def recipient_ok_def
             peer_ok_def slots_meet_segments intro: wire_peer.equality)
    qed
  qed
qed


lemma topic_routes:
  assumes "topic_sender_ok s" "topic_receiver_ok r"
  shows "key_exprs_intersect (topic_subscribe r) (topic_publish s) \<longleftrightarrow> topic_reaches s r"
proof -
  have ok: "valid_segment (ts_core_node s)" "valid_segment (ts_instance_id s)" "target_ok (ts_target s)"
    "valid_link (ts_link_id s)" "valid_segment (ts_topic_name s)"
    "pred_option valid_segment (tr_from_core_node r)" "pred_option valid_segment (tr_from_instance_id r)"
    "pred_option target_ok (tr_from_target r)" "pred_option valid_link (tr_from_link_id r)"
    "valid_segment (tr_to_topic r)"
    using assms by (simp_all add: topic_sender_ok_def topic_receiver_ok_def)
  have "key_exprs_intersect (topic_subscribe r) (topic_publish s) \<longleftrightarrow>
      list_all2 slots_meet (subscribe_chunks r) (publish_chunks s)"
    unfolding topic_publish_slashed topic_subscribe_slashed
    by (rule keys_intersect) (simp_all add: publish_chunks_plain subscribe_chunks_plain assms chunks_neq_Nil)
  also have "\<dots> \<longleftrightarrow> topic_reaches s r"
    using recipient_slots_meet [OF assms]
    by (auto simp: publish_chunks_def subscribe_chunks_def topic_reaches_def list_all2_middle
          slots_meet_pinned ok slots_meet_target slots_meet_segments)
  finally show ?thesis .
qed

lemma parse_published_key:
  assumes "topic_sender_ok s"
  shows "parse_topic_keyexpr (topic_publish s) =
    Inr \<lparr>ptk_core_node = as_str (ts_core_node s), ptk_instance_id = as_str (ts_instance_id s),
         ptk_link_id = as_str (ts_link_id s)\<rparr>"
proof -
  have "chunks (topic_publish s) = publish_chunks s"
    unfolding topic_publish_slashed
    by (rule chunks_slashed) (simp_all add: publish_chunks_plain assms chunks_neq_Nil)
  moreover have "valid_segment (ts_core_node s)" "valid_segment (ts_instance_id s)"
    using assms by (simp_all add: topic_sender_ok_def)
  then have "plain_chunk (as_str (ts_core_node s))" "plain_chunk (as_str (ts_instance_id s))"
    "as_str (ts_core_node s) \<noteq> ''*''" "as_str (ts_instance_id s) \<noteq> ''*''"
    by (simp_all add: chunk_simps)
  ultimately show ?thesis
    by (simp add: parse_topic_keyexpr_def publish_chunks_def get_def extract_caller_segment_def
          target_segments_def nth_append plain_chunk_def single_chunk_wildcard_def)
qed


text \<open>
  C16: Topic routing is exact: for a publisher and a subscription that the constructors built, the
  published key matches the subscribed key exactly when the addresses say so: same topic, every
  pinned slot of the subscription names the publisher, and a pairing publish is heard by the slot
  of its one peer and by the observers of the pairing, and by nobody else. The receiver reads the
  publisher's core node, instance and link id back off the key.
\<close>

theorem topic_routing_exact:
  assumes "topic_sender_ok s" "topic_receiver_ok r"
  shows "(key_exprs_intersect (topic_subscribe r) (topic_publish s) \<longleftrightarrow> topic_reaches s r) \<and>
    parse_topic_keyexpr (topic_publish s) =
      Inr \<lparr>ptk_core_node = as_str (ts_core_node s), ptk_instance_id = as_str (ts_instance_id s),
           ptk_link_id = as_str (ts_link_id s)\<rparr>"
  using topic_routes [OF assms] parse_published_key [OF assms(1)] by (rule conjI)

definition sample_pairing :: sender_target where
  "sample_pairing = TargetPairing \<lparr>ti_name = Segment ''arm_link'', ti_tag = Segment ''v1''\<rparr>"

definition sample_leader :: wire_peer where
  "sample_leader = \<lparr>wp_core_node = Segment ''desk'', wp_instance_id = Segment ''leader'', wp_link_id = Segment ''out''\<rparr>"

definition sample_follower :: wire_peer where
  "sample_follower = \<lparr>wp_core_node = Segment ''arm'', wp_instance_id = Segment ''follower'', wp_link_id = Segment ''in''\<rparr>"

definition sample_pair_publish :: topic_wire_sender where
  "sample_pair_publish = \<lparr>ts_core_node = Segment ''desk'', ts_instance_id = Segment ''leader'',
     ts_target = sample_pairing, ts_link_id = Segment ''out'', ts_topic_name = Segment ''joints'',
     ts_to_peer = Some sample_follower\<rparr>"

definition sample_paired_receiver :: "string \<Rightarrow> topic_wire_receiver" where
  "sample_paired_receiver own = \<lparr>tr_core_node = Segment ''arm'', tr_instance_id = Segment ''follower'',
     tr_from_core_node = Some (Segment ''desk''), tr_from_instance_id = Some (Segment ''leader''),
     tr_from_target = Some sample_pairing, tr_from_link_id = Some (Segment ''out''),
     tr_to_topic = Segment ''joints'', tr_recipient = Some (RecipientSlot (Segment own))\<rparr>"

lemmas sample_wire_defs = sample_pairing_def sample_leader_def sample_follower_def
  sample_pair_publish_def sample_paired_receiver_def

lemmas wire_ok_defs = valid_segment_def valid_link_def target_ok_def recipient_ok_def names_pairing_def

theorem topic_routing_exact_witness:
  "topic_sender_ok sample_pair_publish \<and>
   topic_receiver_ok (sample_paired_receiver ''in'') \<and> topic_receiver_ok (sample_paired_receiver ''aux'') \<and>
   topic_sender_to_peer ''desk'' ''leader'' sample_pairing ''out'' ''joints'' sample_follower = Inr sample_pair_publish \<and>
   key_exprs_intersect (topic_subscribe (sample_paired_receiver ''in'')) (topic_publish sample_pair_publish) \<and>
   \<not> key_exprs_intersect (topic_subscribe (sample_paired_receiver ''aux'')) (topic_publish sample_pair_publish)"
proof -
  have s: "topic_sender_ok sample_pair_publish" by code_simp
  have r: "topic_receiver_ok (sample_paired_receiver ''in'')" "topic_receiver_ok (sample_paired_receiver ''aux'')"
    by (simp_all add: sample_wire_defs topic_receiver_ok_def wire_ok_defs)
  have "topic_reaches sample_pair_publish (sample_paired_receiver ''in'')"
    "\<not> topic_reaches sample_pair_publish (sample_paired_receiver ''aux'')"
    by code_simp+
  moreover have "topic_sender_to_peer ''desk'' ''leader'' sample_pairing ''out'' ''joints'' sample_follower
      = Inr sample_pair_publish"
    by code_simp
  ultimately show ?thesis
    using s r topic_routing_exact [OF s r(1), THEN conjunct1] topic_routing_exact [OF s r(2), THEN conjunct1] by blast
qed

section \<open>Services\<close>

definition suffix_chunks :: "service_kind \<Rightarrow> string list" where
  "suffix_chunks kind = (case kind_suffix kind of None \<Rightarrow> [] | Some s \<Rightarrow> [s])"

definition root_chunks :: "sender_target \<Rightarrow> string \<Rightarrow> string \<Rightarrow> service_kind \<Rightarrow> string list" where
  "root_chunks target link_id name kind =
     [root_segment kind] @ target_segments (Some target) @ [link_id, name] @ suffix_chunks kind"

lemma service_root_slashed: "service_root target link_id name kind = slashed (root_chunks target link_id name kind)"
  by (cases kind) (simp_all add: service_root_def root_chunks_def suffix_chunks_def target_segments_def)

lemma action_root_slashed:
  "action_root target link_id action =
     slashed ([''action''] @ target_segments (Some target) @ [link_id, action])"
  by (simp add: action_root_def target_segments_def)

lemma plain_suffix [chunk_simps]: "list_all plain_chunk (suffix_chunks kind)"
  by (cases kind) (simp_all add: suffix_chunks_def plain_chunk_def)

lemma plain_root [chunk_simps]:
  "target_ok t \<Longrightarrow> plain_chunk l \<Longrightarrow> plain_chunk n \<Longrightarrow> list_all plain_chunk (root_chunks t l n k)"
  using plain_target_segments [of "Some t"] by (simp add: root_chunks_def chunk_simps)

lemma slashed_root:
  "slashed [a, b, c, d, service_root t l n k] = slashed ([a, b, c, d] @ root_chunks t l n k)"
  using slashed_nested [of "root_chunks t l n k" "CHR ''/''" "[a, b, c, d]"]
  by (simp only: service_root_slashed append.simps) (simp add: root_chunks_def)

lemma suffix_determines_kind:
  "root_segment k = root_segment k' \<Longrightarrow> list_all2 slots_meet (suffix_chunks k) (suffix_chunks k') \<longleftrightarrow> k = k'"
  by (cases k; cases k') (simp_all add: root_segment_def suffix_chunks_def slots_meet_def)

lemma roots_meet:
  assumes "target_ok t" "target_ok t'" "valid_segment n" "valid_segment n'"
  shows "list_all2 slots_meet (root_chunks t ''*'' (as_str n) k) (root_chunks t' ''*'' (as_str n') k') \<longleftrightarrow>
     t = t' \<and> n = n' \<and> k = k'"
proof -
  have "list_all2 slots_meet (root_chunks t ''*'' (as_str n) k) (root_chunks t' ''*'' (as_str n') k') \<longleftrightarrow>
      root_segment k = root_segment k' \<and> t = t' \<and> n = n' \<and>
      list_all2 slots_meet (suffix_chunks k) (suffix_chunks k')"
    using slots_meet_target [of "Some t" t'] assms
    by (auto simp: root_chunks_def list_all2_middle slots_meet_literal chunk_simps slots_meet_segments
          pin_allows_def)
  then show ?thesis using suffix_determines_kind by blast
qed

text \<open>The producers a caller addresses: those its pins allow, that serve its target and name.\<close>

definition call_reaches :: "'k service_wire_sender \<Rightarrow> service_wire_receiver \<Rightarrow> bool" where
  "call_reaches s r \<longleftrightarrow>
     pin_allows (ss_target_core_node s) (sr_bound_core_node r) \<and>
     pin_allows (ss_target_instance_id s) (sr_instance_id r) \<and>
     ss_to_target s = sr_identity r \<and> ss_service_name s = sr_service_name r \<and> ss_kind s = sr_kind r"

definition selector_chunks :: "'k service_wire_sender \<Rightarrow> string list" where
  "selector_chunks s =
     [pinned_or_wildcard (ss_target_core_node s), as_str (ss_bound_core_node s),
      pinned_or_wildcard (ss_target_instance_id s), as_str (ss_instance_id s)]
     @ root_chunks (ss_to_target s) ''*'' (as_str (ss_service_name s)) (ss_kind s)"

lemma selector_slashed: "service_get_selector s = slashed (selector_chunks s)"
  by (simp only: service_get_selector_def slashed_root selector_chunks_def single_chunk_wildcard_def)

lemma selector_plain: "service_sender_ok s \<Longrightarrow> list_all plain_chunk (selector_chunks s)"
  by (simp add: selector_chunks_def service_sender_ok_def chunk_simps)

lemma selector_chunks_neq_Nil: "selector_chunks s \<noteq> []"
  by (simp add: selector_chunks_def)

lemma slots_meet_commute: "slots_meet a b = slots_meet b a"
  by (auto simp: slots_meet_def)

lemma call_routes:
  assumes "service_sender_ok s" "service_receiver_ok r"
  shows "key_exprs_intersect (service_queryable_declare r) (service_get_selector s) \<longleftrightarrow> call_reaches s r"
proof -
  let ?d = "[as_str (sr_bound_core_node r), ''*'', as_str (sr_instance_id r), ''*'']
      @ root_chunks (sr_identity r) ''*'' (as_str (sr_service_name r)) (sr_kind r)"
  have ok: "pred_option valid_segment (ss_target_core_node s)" "valid_segment (sr_bound_core_node r)"
    "pred_option valid_segment (ss_target_instance_id s)" "valid_segment (sr_instance_id r)"
    "target_ok (ss_to_target s)" "target_ok (sr_identity r)" "valid_segment (ss_service_name s)"
    "valid_segment (sr_service_name r)"
    using assms by (simp_all add: service_sender_ok_def service_receiver_ok_def)
  have "service_queryable_declare r = slashed ?d"
    by (simp only: service_queryable_declare_def slashed_root single_chunk_wildcard_def)
  then have "key_exprs_intersect (service_queryable_declare r) (service_get_selector s) \<longleftrightarrow>
      list_all2 slots_meet ?d (selector_chunks s)"
    by (simp only: selector_slashed)
      (rule keys_intersect, simp_all add: selector_plain assms selector_chunks_neq_Nil ok chunk_simps)
  also have "\<dots> \<longleftrightarrow> call_reaches s r"
    using slots_meet_pinned(1) [OF ok(1,2)] slots_meet_pinned(1) [OF ok(3,4)]
    by (auto simp: selector_chunks_def roots_meet ok call_reaches_def
          slots_meet_commute [of "as_str (sr_bound_core_node r)"]
          slots_meet_commute [of "as_str (sr_instance_id r)"])
  finally show ?thesis .
qed


lemma match_root_prefix_Inr:
  "match_root_prefix es parts = Inr rest \<longleftrightarrow> parts = es @ rest"
proof (induction es arbitrary: parts)
  case (Cons e es)
  then show ?case by (cases parts) (auto simp: next_part_def)
qed auto

lemma reject_mismatch_pinned:
  assumes "pred_option valid_segment x" "valid_segment s"
  shows "reject_target_mismatch field (pinned_or_wildcard x) (as_str s) = Inr () \<longleftrightarrow> pin_allows x s"
  using assms
  by (cases x) (auto simp: reject_target_mismatch_def pinned_or_wildcard_def single_chunk_wildcard_def
       pin_allows_def chunk_simps)

lemma filter_plain: "list_all plain_chunk cs \<Longrightarrow> filter (\<lambda>c. c \<noteq> []) cs = cs"
  by (induction cs) (auto simp: plain_chunk_def)

text \<open>
  What the producer reads of a caller's selector. It checks the pinned slots and the target again,
  so a selector delivered to another producer is refused.
\<close>

lemma parse_selector:
  assumes "service_sender_ok s" "service_receiver_ok r" "query_attachment_decode att = Inr a"
  shows "parse_inbound_query r (service_get_selector s) att = Inr q \<longleftrightarrow>
     pin_allows (ss_target_core_node s) (sr_bound_core_node r) \<and>
     pin_allows (ss_target_instance_id s) (sr_instance_id r) \<and>
     ss_to_target s = sr_identity r \<and> root_segment (ss_kind s) = root_segment (sr_kind r) \<and>
     q = \<lparr>piq_caller_core = as_str (ss_bound_core_node s), piq_caller_inst = as_str (ss_instance_id s),
          piq_link_id = ''*'', piq_kind = qa_kind a, piq_proof = qa_proof a\<rparr>"
proof -
  have parts: "filter (\<lambda>c. c \<noteq> []) (chunks (service_get_selector s)) = selector_chunks s"
    by (simp only: selector_slashed chunks_slashed [OF selector_chunks_neq_Nil selector_plain [OF assms(1)]]
          filter_plain [OF selector_plain [OF assms(1)]])
  have ok: "pred_option valid_segment (ss_target_core_node s)" "valid_segment (sr_bound_core_node r)"
    "pred_option valid_segment (ss_target_instance_id s)" "valid_segment (sr_instance_id r)"
    using assms by (simp_all add: service_sender_ok_def service_receiver_ok_def)
  let ?t = "ss_to_target s" and ?i = "sr_identity r"
  have root: "match_root_prefix (sr_root_prefix r)
       (root_chunks ?t ''*'' (as_str (ss_service_name s)) (ss_kind s)) = Inr p5 \<longleftrightarrow>
     root_segment (ss_kind s) = root_segment (sr_kind r) \<and> ?t = ?i \<and>
     p5 = [''*'', as_str (ss_service_name s)] @ suffix_chunks (ss_kind s)" for p5
    using assms(2) discriminator_spaces [of ?t ?i]
    unfolding match_root_prefix_Inr
    by (auto simp: service_receiver_ok_def service_root_prefix_of_def root_chunks_def target_segments_def)
  show ?thesis
    unfolding parse_inbound_query_def Let_def parts
    by (auto simp: selector_chunks_def next_part_def assms(3) and_then_Inr root
          reject_mismatch_pinned ok)
qed

lemma reply_key_names_both:
  assumes "service_receiver_ok r" "valid_segment c" "valid_segment i"
  shows "take 4 (chunks (service_reply_keyexpr r ''_'' (as_str c) (as_str i))) =
      [as_str c, as_str (sr_bound_core_node r), as_str i, as_str (sr_instance_id r)]"
    "parse_topic_keyexpr (service_reply_keyexpr r ''_'' (as_str c) (as_str i)) =
      Inr \<lparr>ptk_core_node = as_str (sr_bound_core_node r), ptk_instance_id = as_str (sr_instance_id r),
           ptk_link_id = ''_''\<rparr>"
proof -
  let ?k = "[as_str c, as_str (sr_bound_core_node r), as_str i, as_str (sr_instance_id r)]
      @ root_chunks (sr_identity r) ''_'' (as_str (sr_service_name r)) (sr_kind r)"
  have ok: "valid_segment (sr_bound_core_node r)" "valid_segment (sr_instance_id r)"
    "target_ok (sr_identity r)" "valid_segment (sr_service_name r)"
    using assms by (simp_all add: service_receiver_ok_def)
  have key: "chunks (service_reply_keyexpr r ''_'' (as_str c) (as_str i)) = ?k"
    unfolding service_reply_keyexpr_def slashed_root
    by (rule chunks_slashed) (simp_all add: assms ok chunk_simps)
  then show "take 4 (chunks (service_reply_keyexpr r ''_'' (as_str c) (as_str i))) =
      [as_str c, as_str (sr_bound_core_node r), as_str i, as_str (sr_instance_id r)]"
    by simp
  have "as_str (sr_bound_core_node r) \<noteq> []" "as_str (sr_instance_id r) \<noteq> []"
    "as_str (sr_bound_core_node r) \<noteq> ''*''" "as_str (sr_instance_id r) \<noteq> ''*''"
    using ok valid_segment_plain by (auto simp: plain_chunk_def)
  with key show "parse_topic_keyexpr (service_reply_keyexpr r ''_'' (as_str c) (as_str i)) =
      Inr \<lparr>ptk_core_node = as_str (sr_bound_core_node r), ptk_instance_id = as_str (sr_instance_id r),
           ptk_link_id = ''_''\<rparr>"
    by (simp add: parse_topic_keyexpr_def get_def extract_caller_segment_def root_chunks_def
          target_segments_def nth_append single_chunk_wildcard_def)
qed

text \<open>A machine proof that its length field can carry; an empty one is read back as none.\<close>

definition machine_proof_fits :: "'k call_signing \<Rightarrow> bool" where
  "machine_proof_fits signing =
     (case signer_machine_proof (signing_signer signing) of None \<Rightarrow> True | Some b \<Rightarrow> b \<noteq> [] \<and> length b < 2 ^ 32)"

lemma sent_attachment_decodes:
  assumes "ed25519_laws R" "length nonce = nonce_len" "pred_option machine_proof_fits (ss_signing s)"
  shows "query_attachment_decode (service_get_selector_attachment R s ns selector kd payload nonce now) =
    Inr \<lparr>qa_kind = kd, qa_proof = map_option (\<lambda>signing. signing_prove R signing
      \<lparr>call_namespace = ns, call_key_expr = selector, call_kind = kd, call_payload = payload\<rparr> nonce now)
      (ss_signing s)\<rparr>"
  unfolding service_get_selector_attachment_def
  by (rule query_attachment_decode_encode)
    (use assms in \<open>auto simp: attachment_ok_def proof_ok_def signing_prove_def signer_prove_def Let_def
       ed25519_laws_def machine_proof_fits_def signature_len_def split: option.splits call_receiver.splits\<close>)


definition sample_service :: sender_target where
  "sample_service = TargetNode \<lparr>ti_name = Segment ''camera'', ti_tag = Segment ''v1''\<rparr>"

definition sample_caller :: "nat service_wire_sender" where
  "sample_caller = \<lparr>ss_bound_core_node = Segment ''desk'', ss_instance_id = Segment ''viewer'',
     ss_target_core_node = Some (Segment ''arm''), ss_target_instance_id = None,
     ss_to_target = sample_service, ss_service_name = Segment ''snapshot'', ss_kind = Service,
     ss_signing = Some \<lparr>signing_signer = \<lparr>signer_key = 5, signer_machine_proof = Some [7]\<rparr>,
       signing_receiver = OtherMachine\<rparr>\<rparr>"

text \<open>A signature scheme that keeps the laws.\<close>

definition length_ed25519 :: "nat ed25519_ops" where
  "length_ed25519 =
     \<lparr>ed_public = (\<lambda>k. be_bytes 32 k), ed_sign = (\<lambda>k m. be_bytes 32 k @ be_bytes 32 (length m)),
      ed_verify = (\<lambda>pk m sig. sig = pk @ be_bytes 32 (length m))\<rparr>"

lemma length_ed25519_laws: "ed25519_laws length_ed25519"
  by (simp add: ed25519_laws_def length_ed25519_def)

definition sample_provider :: service_wire_receiver where
  "sample_provider = \<lparr>sr_bound_core_node = Segment ''arm'', sr_instance_id = Segment ''cam_1'',
     sr_identity = sample_service, sr_service_name = Segment ''snapshot'', sr_kind = Service,
     sr_root_prefix = service_root_prefix_of sample_service Service\<rparr>"


section \<open>Presence\<close>

lemma chunks_namespaced: "chunks (namespace_prefix (Namespace ns) @ t) = chunks ns @ chunks t"
  using split_on_append_any [of "CHR ''/''" ns t] by (simp add: namespace_prefix_def)

lemma segment_is_valid_free: "segment_is_valid s \<Longrightarrow> CHR ''/'' \<notin> set s"
  by (auto simp: segment_is_valid_def validate_segment_chars_def split: if_splits)

lemma presence_of_chunks:
  "(case cs of
      [head, c, i] \<Rightarrow>
        if head \<noteq> lit \<or> \<not> segment_is_valid c \<or> \<not> segment_is_valid i then Inl e
        else Inr \<lparr>cnp_core_node = c, cnp_instance_id = i\<rparr>
    | _ \<Rightarrow> Inl e) = Inr p \<longleftrightarrow>
   segment_is_valid (cnp_core_node p) \<and> segment_is_valid (cnp_instance_id p) \<and>
   cs = [lit, cnp_core_node p, cnp_instance_id p]"
  by (cases p) (auto split: list.splits if_splits)

lemma chunks_three:
  assumes "segment_is_valid c" "segment_is_valid i" "CHR ''/'' \<notin> set lit"
  shows "chunks key = [lit, c, i] \<longleftrightarrow> key = slashed [lit, c, i]"
proof
  assume "chunks key = [lit, c, i]"
  then show "key = slashed [lit, c, i]" using join_split [of "CHR ''/''" key] by simp
next
  assume key: "key = slashed [lit, c, i]"
  show "chunks key = [lit, c, i]"
    unfolding key by (rule split_join) (simp_all add: assms segment_is_valid_free)
qed

lemma parse_session_presence:
  "parse_core_node_presence Session key = Inr p \<longleftrightarrow>
     segment_is_valid (cnp_core_node p) \<and> segment_is_valid (cnp_instance_id p) \<and>
     key = slashed [''core_node_presence'', cnp_core_node p, cnp_instance_id p]"
proof -
  have "CHR ''/'' \<notin> set ''core_node_presence''" by simp
  note three = chunks_three [OF _ _ this]
  show ?thesis
    unfolding parse_core_node_presence_def Let_def presence_scope.case and_then_simps presence_of_chunks
    using three by blast
qed

lemma parse_namespace_presence:
  "parse_core_node_presence (Namespace ns) key = Inr p \<longleftrightarrow>
     (\<exists>rest. key = ns @ CHR ''/'' # rest \<and> parse_core_node_presence Session rest = Inr p)"
  unfolding parse_core_node_presence_def Let_def presence_scope.case and_then_simps presence_of_chunks
    and_then_Inr ok_or_Inr bind_eq_Some_conv strip_prefix_Some
  by auto

lemma parse_presence_iff:
  "parse_core_node_presence scope key = Inr p \<longleftrightarrow>
     segment_is_valid (cnp_core_node p) \<and> segment_is_valid (cnp_instance_id p) \<and>
     key = namespace_prefix scope @ slashed [''core_node_presence'', cnp_core_node p, cnp_instance_id p]"
proof (cases scope)
  case Session
  then show ?thesis by (simp add: parse_session_presence namespace_prefix_def del: join_with.simps)
next
  case (Namespace ns)
  then show ?thesis
    by (simp add: parse_namespace_presence parse_session_presence namespace_prefix_def del: join_with.simps)
      blast
qed


definition scope_chunks :: "presence_scope \<Rightarrow> string list" where
  "scope_chunks scope = (case scope of Session \<Rightarrow> [] | Namespace ns \<Rightarrow> [ns])"

text \<open>A scope whose namespace was parsed.\<close>

definition scope_ok :: "presence_scope \<Rightarrow> bool" where
  "scope_ok scope = list_all (\<lambda>ns. plain_chunk ns \<and> ns \<noteq> ''*'') (scope_chunks scope)"

lemma parsed_namespace_ok:
  "nonwild_keyexpr nonwild \<Longrightarrow> namespace_parse nonwild s = Inr ns \<Longrightarrow> scope_ok (Namespace ns)"
  by (auto simp: namespace_parse_def nonwild_keyexpr_def scope_ok_def scope_chunks_def plain_chunk_def
        split: if_splits)

lemma namespaced_slashed: "xs \<noteq> [] \<Longrightarrow> namespace_prefix scope @ slashed xs = slashed (scope_chunks scope @ xs)"
  by (cases scope) (simp_all add: namespace_prefix_def scope_chunks_def join_with_Cons)

lemma scope_chunks_inject: "scope_chunks a = scope_chunks b \<longleftrightarrow> a = b"
  by (cases a; cases b) (simp_all add: scope_chunks_def)

lemma scopes_meet:
  assumes "scope_ok a" "scope_ok b" "length xs = length ys"
  shows "list_all2 slots_meet (scope_chunks a @ xs) (scope_chunks b @ ys) \<longleftrightarrow>
     a = b \<and> list_all2 slots_meet xs ys"
proof (cases "length (scope_chunks a) = length (scope_chunks b)")
  case True
  then show ?thesis
    using assms(1,2) by (cases a; cases b) (auto simp: scope_ok_def scope_chunks_def slots_meet_literal)
next
  case False
  with assms(3) show ?thesis by (auto dest: list_all2_lengthD)
qed

lemma presence_filter_selects:
  assumes "scope_ok scope" "scope_ok scope'" "pred_option valid_segment core"
    "valid_segment c" "valid_segment i"
  shows "key_exprs_intersect (core_node_presence_filter scope core)
       (namespace_prefix scope' @ core_node_presence_token c i) \<longleftrightarrow> scope = scope' \<and> pin_allows core c"
proof -
  let ?f = "[''core_node_presence'', pinned_or_wildcard core, ''*'']"
    and ?t = "[''core_node_presence'', as_str c, as_str i]"
  have plain: "list_all plain_chunk (scope_chunks scope @ ?f)" "list_all plain_chunk (scope_chunks scope' @ ?t)"
    using assms by (auto simp: scope_ok_def chunk_simps list_all_iff)
  have "key_exprs_intersect (core_node_presence_filter scope core)
      (namespace_prefix scope' @ core_node_presence_token c i) \<longleftrightarrow>
      list_all2 slots_meet (scope_chunks scope @ ?f) (scope_chunks scope' @ ?t)"
    unfolding core_node_presence_filter_def core_node_presence_token_def single_chunk_wildcard_def
      namespaced_slashed [OF list.distinct(2)]
    by (rule keys_intersect) (use plain in simp_all)
  also have "\<dots> \<longleftrightarrow> scope = scope' \<and> pin_allows core c"
    using assms by (simp add: scopes_meet slots_meet_pinned)
  finally show ?thesis .
qed

lemma presence_token_parses:
  assumes "scope_ok scope" "scope_ok scope'" "valid_segment c" "valid_segment i"
  shows "parse_core_node_presence scope (namespace_prefix scope' @ core_node_presence_token c i) = Inr p \<longleftrightarrow>
     scope = scope' \<and> p = \<lparr>cnp_core_node = as_str c, cnp_instance_id = as_str i\<rparr>"
proof -
  let ?t = "\<lambda>c i. [''core_node_presence'', c, i]"
  have free: "list_all (\<lambda>s. CHR ''/'' \<notin> set s) (scope_chunks scope)"
    "list_all (\<lambda>s. CHR ''/'' \<notin> set s) (scope_chunks scope')"
    using assms(1,2) by (auto simp: scope_ok_def plain_chunk_def list_all_iff)
  have keys: "slashed (scope_chunks scope' @ ?t (as_str c) (as_str i)) = slashed (scope_chunks scope @ ?t c' i') \<longleftrightarrow>
      scope = scope' \<and> as_str c = c' \<and> as_str i = i'" if "segment_is_valid c'" "segment_is_valid i'" for c' i'
  proof -
    have "slashed (scope_chunks scope' @ ?t (as_str c) (as_str i)) = slashed (scope_chunks scope @ ?t c' i') \<longleftrightarrow>
        scope_chunks scope' @ ?t (as_str c) (as_str i) = scope_chunks scope @ ?t c' i'"
      by (rule join_inject)
        (use free that assms(3,4) in \<open>simp_all add: segment_is_valid_free valid_segment_iff\<close>)
    then show ?thesis using scope_chunks_inject [of scope' scope] by auto
  qed
  show ?thesis
    unfolding parse_presence_iff core_node_presence_token_def namespaced_slashed [OF list.distinct(2)]
    using keys assms(3,4) by (cases p) (auto simp: valid_segment_iff)
qed

text \<open>
  C27: A presence query never crosses workspaces. The selector of a scope, the session's own or one
  named namespace, matches the token of a daemon exactly when the token is declared in that scope
  and the core node name is the one asked for, if one is; and a reply parses to the daemon's
  identity in the scope it was declared in, and is refused in every other.
\<close>

theorem presence_scope_isolated:
  assumes "scope_ok scope" "scope_ok scope'" "pred_option valid_segment core"
    "valid_segment c" "valid_segment i"
  defines "key \<equiv> namespace_prefix scope' @ core_node_presence_token c i"
  shows "(key_exprs_intersect (core_node_presence_filter scope core) key \<longleftrightarrow>
            scope = scope' \<and> pin_allows core c) \<and>
         (parse_core_node_presence scope key = Inr p \<longleftrightarrow>
            scope = scope' \<and> p = \<lparr>cnp_core_node = as_str c, cnp_instance_id = as_str i\<rparr>)"
  unfolding key_def using presence_filter_selects [OF assms(1-5)] presence_token_parses [OF assms(1,2,4,5)]
  by (rule conjI)

theorem presence_scope_isolated_witness:
  "scope_ok (Namespace ''ws-a'') \<and> scope_ok (Namespace ''ws-ab'') \<and> valid_segment (Segment ''desk'') \<and>
   valid_segment (Segment ''calm-heron'') \<and>
   \<not> key_exprs_intersect (core_node_presence_filter (Namespace ''ws-a'') None)
       (namespace_prefix (Namespace ''ws-ab'') @ core_node_presence_token (Segment ''desk'') (Segment ''calm-heron''))"
proof -
  have ok: "scope_ok (Namespace ''ws-a'')" "scope_ok (Namespace ''ws-ab'')"
    by (simp_all add: scope_ok_def scope_chunks_def plain_chunk_def)
  have v: "valid_segment (Segment ''desk'')" "valid_segment (Segment ''calm-heron'')"
    by (simp_all add: wire_ok_defs)
  have n: "pred_option valid_segment (None :: segment option)" by simp
  show ?thesis
    using ok v presence_scope_isolated [OF ok n v, THEN conjunct1] by simp
qed

section \<open>Feedback, liveliness and the templates\<close>

definition feedback_reaches :: "action_wire_receiver \<Rightarrow> string \<Rightarrow> action_wire_sender \<Rightarrow> string \<Rightarrow> bool" where
  "feedback_reaches r goal s goal' \<longleftrightarrow>
     goal = goal' \<and> ar_identity r = as_to_target s \<and> ar_action_name r = as_action_name s \<and>
     pin_allows (as_target_core_node s) (ar_bound_core_node r) \<and>
     pin_allows (as_target_instance_id s) (ar_instance_id r)"

lemma slashed_action:
  "slashed [a, b, c, d, action_root t l n, e, f, g] =
     slashed ([a, b, c, d, ''action''] @ target_segments (Some t) @ [l, n, e, f, g])"
  by (simp add: action_root_slashed target_segments_def)

lemma feedback_routes:
  assumes "action_sender_ok s" "action_receiver_ok r" "segment_is_valid goal" "segment_is_valid goal'"
  shows "key_exprs_intersect (action_feedback_subscribe s goal') (action_feedback_publish r ''_'' goal) \<longleftrightarrow>
    feedback_reaches r goal s goal'"
proof -
  have ok: "valid_segment (as_core_node s)" "valid_segment (as_instance_id s)"
    "pred_option valid_segment (as_target_core_node s)" "pred_option valid_segment (as_target_instance_id s)"
    "target_ok (as_to_target s)" "valid_segment (as_action_name s)"
    "valid_segment (ar_bound_core_node r)" "valid_segment (ar_instance_id r)" "target_ok (ar_identity r)"
    "valid_segment (ar_action_name r)"
    using assms by (simp_all add: action_sender_ok_def action_receiver_ok_def)
  have goals: "plain_chunk goal" "plain_chunk goal'" "goal \<noteq> ''*''" "goal' \<noteq> ''*''"
    using assms(3,4) valid_segment_plain [of "Segment goal"] valid_segment_plain [of "Segment goal'"]
    by (simp_all add: valid_segment_iff)
  let ?s = "[as_str (as_core_node s), pinned_or_wildcard (as_target_core_node s), as_str (as_instance_id s),
      pinned_or_wildcard (as_target_instance_id s), ''action''] @ target_segments (Some (as_to_target s))
      @ [''*'', as_str (as_action_name s), ''feedback'', pinned_or_wildcard (as_target_instance_id s), goal']"
    and ?p = "[''*'', as_str (ar_bound_core_node r), ''*'', as_str (ar_instance_id r), ''action'']
      @ target_segments (Some (ar_identity r))
      @ [''_'', as_str (ar_action_name r), ''feedback'', as_str (ar_instance_id r), goal]"
  have "list_all plain_chunk ?s" "list_all plain_chunk ?p"
    using plain_target_segments [of "Some (as_to_target s)"] plain_target_segments [of "Some (ar_identity r)"]
    by (simp_all add: ok goals chunk_simps)
  then have "key_exprs_intersect (action_feedback_subscribe s goal') (action_feedback_publish r ''_'' goal) \<longleftrightarrow>
      list_all2 slots_meet ?s ?p"
    unfolding action_feedback_subscribe_def action_feedback_publish_def slashed_action single_chunk_wildcard_def
    by (intro keys_intersect) simp_all
  also have "\<dots> \<longleftrightarrow> feedback_reaches r goal s goal'"
  proof -
    have t: "list_all2 slots_meet (target_segments (Some (as_to_target s))) (target_segments (Some (ar_identity r)))
        \<longleftrightarrow> as_to_target s = ar_identity r"
      using slots_meet_target [of "Some (as_to_target s)" "ar_identity r"] ok
      by (simp add: pin_allows_def)
    have g: "slots_meet goal' goal \<longleftrightarrow> goal' = goal" using goals by (simp add: slots_meet_literal)
    show ?thesis
      by (auto simp: list_all2_middle t g ok slots_meet_pinned slots_meet_segments feedback_reaches_def)
  qed
  finally show ?thesis .
qed


lemma liveliness_watch_selects:
  assumes "action_sender_ok s" "action_receiver_ok r"
  shows "key_exprs_intersect (action_liveliness_watch s) (action_liveliness_token r) \<longleftrightarrow>
    ar_identity r = as_to_target s \<and> ar_action_name r = as_action_name s \<and>
    pin_allows (as_target_core_node s) (ar_bound_core_node r) \<and>
    pin_allows (as_target_instance_id s) (ar_instance_id r)"
proof -
  have ok: "pred_option valid_segment (as_target_core_node s)" "pred_option valid_segment (as_target_instance_id s)"
    "target_ok (as_to_target s)" "valid_segment (as_action_name s)"
    "valid_segment (ar_bound_core_node r)" "valid_segment (ar_instance_id r)" "target_ok (ar_identity r)"
    "valid_segment (ar_action_name r)"
    using assms by (simp_all add: action_sender_ok_def action_receiver_ok_def)
  let ?w = "[''action_liveliness'', pinned_or_wildcard (as_target_core_node s), pinned_or_wildcard (as_target_instance_id s)]
      @ target_segments (Some (as_to_target s)) @ [as_str (as_action_name s)]"
    and ?t = "[''action_liveliness'', as_str (ar_bound_core_node r), as_str (ar_instance_id r)]
      @ target_segments (Some (ar_identity r)) @ [as_str (ar_action_name r)]"
  have "list_all plain_chunk ?w" "list_all plain_chunk ?t"
    using plain_target_segments [of "Some (as_to_target s)"] plain_target_segments [of "Some (ar_identity r)"]
    by (simp_all add: ok chunk_simps)
  then have "key_exprs_intersect (action_liveliness_watch s) (action_liveliness_token r) \<longleftrightarrow>
      list_all2 slots_meet ?w ?t"
    unfolding action_liveliness_watch_def action_liveliness_token_def by (intro keys_intersect) simp_all
  also have "\<dots> \<longleftrightarrow> pin_allows (as_target_core_node s) (ar_bound_core_node r) \<and>
      pin_allows (as_target_instance_id s) (ar_instance_id r) \<and>
      as_to_target s = ar_identity r \<and> as_action_name s = ar_action_name r"
  proof -
    have "list_all2 slots_meet (target_segments (Some (as_to_target s))) (target_segments (Some (ar_identity r)))
        \<longleftrightarrow> as_to_target s = ar_identity r"
      using slots_meet_target [of "Some (as_to_target s)" "ar_identity r"] ok by (simp add: pin_allows_def)
    then show ?thesis by (simp add: list_all2_middle ok slots_meet_pinned slots_meet_segments)
  qed
  finally show ?thesis by auto
qed

text \<open>The templates render the keys of the builders.\<close>

lemma templates_render_keys:
  "service_reply_keyexpr r link_id core inst =
     service_channel_address core (as_str (sr_bound_core_node r)) inst (as_str (sr_instance_id r))
       (sr_identity r) link_id (as_str (sr_service_name r)) (sr_kind r)"
  "ts_to_peer s = None \<Longrightarrow> topic_publish s =
     topic_channel_address (as_str (ts_core_node s)) (as_str (ts_instance_id s)) (ts_target s)
       (as_str (ts_link_id s)) (as_str (ts_topic_name s))"
  "action_feedback_publish a link_id goal_id =
     action_feedback_channel_address (as_str (ar_bound_core_node a)) (as_str (ar_instance_id a))
       (ar_identity a) link_id (as_str (ar_action_name a)) goal_id"
  by (simp_all add: service_reply_keyexpr_def service_channel_address_def topic_publish_def
        topic_channel_address_def target_segments_def action_feedback_publish_def
        action_feedback_channel_address_def)

section \<open>The properties of the matcher and of the constructors\<close>

text \<open>
  C28: The matcher of key expressions ends and is exact: two key expressions of non-empty chunks
  intersect, by the recursion over their chunks, exactly when some concrete key, without empty
  or wildcard chunks, is matched by both, where \<open>*\<close> matches one chunk and \<open>**\<close> any number.
\<close>

theorem key_exprs_intersect_exact:
  assumes "list_all (\<lambda>c. c \<noteq> []) (chunks a)" "list_all (\<lambda>c. c \<noteq> []) (chunks b)"
  shows "key_exprs_intersect a b \<longleftrightarrow>
    (\<exists>key. concrete_key key \<and> key_matches (chunks a) key \<and> key_matches (chunks b) key)"
  unfolding key_exprs_intersect_def
  using intersect_chunks_sound [OF _ assms] intersect_chunks_complete by blast

theorem key_exprs_intersect_exact_witness:
  "list_all (\<lambda>c. c \<noteq> []) (chunks ''a/**/z'') \<and> list_all (\<lambda>c. c \<noteq> []) (chunks ''*/b/c/z'') \<and>
   key_exprs_intersect ''a/**/z'' ''*/b/c/z''"
proof -
  have ok: "list_all (\<lambda>c. c \<noteq> []) (chunks ''a/**/z'')" "list_all (\<lambda>c. c \<noteq> []) (chunks ''*/b/c/z'')"
    by simp_all
  have "concrete_key [''a'', ''b'', ''c'', ''z''] \<and> key_matches (chunks ''a/**/z'') [''a'', ''b'', ''c'', ''z''] \<and>
      key_matches (chunks ''*/b/c/z'') [''a'', ''b'', ''c'', ''z'']"
    by (simp add: concrete_key_def)
  with ok show ?thesis using key_exprs_intersect_exact [OF ok] by blast
qed

text \<open>
  C29: The constructors accept exactly the well-formed addresses. Given a well-formed target, peers,
  call and action, each constructor returns the address made of the texts it is given when that
  address is well formed, and refuses otherwise: every segment is one chunk without a separator
  and no wildcard or reserved sentinel (a link id may be the default), a pairing publish names
  its peer and no other does, and a pairing subscription names its recipient and pins its source.
  The same holds of the constructors of the targets and of the peers.
\<close>

theorem wire_constructors_well_formed:
  assumes "target_ok tg" "pred_option target_ok ft" "peer_ok p" "peer_ok p'" "service_sender_ok call" "action_sender_ok act"
  shows "(target_contract n t = Inr x \<longleftrightarrow>
      target_ok x \<and> x = TargetContract \<lparr>ti_name = Segment n, ti_tag = Segment (normalize_tag t)\<rparr>) \<and>
    (target_node n t = Inr x \<longleftrightarrow>
      target_ok x \<and> x = TargetNode \<lparr>ti_name = Segment n, ti_tag = Segment (normalize_tag t)\<rparr>) \<and>
    (target_pairing n t = Inr x \<longleftrightarrow>
      target_ok x \<and> x = TargetPairing \<lparr>ti_name = Segment n, ti_tag = Segment (normalize_tag t)\<rparr>) \<and>
    (wire_peer_new c i l = Inr peer \<longleftrightarrow>
      peer_ok peer \<and> peer = \<lparr>wp_core_node = Segment c, wp_instance_id = Segment i, wp_link_id = Segment l\<rparr>) \<and>
    (topic_sender_new c i tg link n = Inr s \<longleftrightarrow> topic_sender_ok s \<and>
      s = \<lparr>ts_core_node = Segment c, ts_instance_id = Segment i, ts_target = tg,
           ts_link_id = Segment (case link of None \<Rightarrow> ''_'' | Some l \<Rightarrow> l), ts_topic_name = Segment n, ts_to_peer = None\<rparr>) \<and>
    (topic_sender_to_peer c i tg l n p = Inr s \<longleftrightarrow> topic_sender_ok s \<and>
      s = \<lparr>ts_core_node = Segment c, ts_instance_id = Segment i, ts_target = tg, ts_link_id = Segment l,
           ts_topic_name = Segment n, ts_to_peer = Some p\<rparr>) \<and>
    (topic_receiver_new c i fc fi ft fl n = Inr r \<longleftrightarrow> topic_receiver_ok r \<and>
      r = \<lparr>tr_core_node = Segment c, tr_instance_id = Segment i, tr_from_core_node = map_option Segment fc,
           tr_from_instance_id = map_option Segment fi, tr_from_target = ft,
           tr_from_link_id = map_option Segment fl, tr_to_topic = Segment n, tr_recipient = None\<rparr>) \<and>
    (let source = \<lparr>tr_core_node = Segment c, tr_instance_id = Segment i, tr_from_core_node = Some (wp_core_node p),
           tr_from_instance_id = Some (wp_instance_id p), tr_from_target = Some tg,
           tr_from_link_id = Some (wp_link_id p), tr_to_topic = Segment n, tr_recipient = None\<rparr>
     in (topic_receiver_paired c i tg p l n = Inr r \<longleftrightarrow>
           topic_receiver_ok r \<and> r = source\<lparr>tr_recipient := Some (RecipientSlot (Segment l))\<rparr>) \<and>
        (topic_receiver_observing c i tg p n = Inr r \<longleftrightarrow>
           topic_receiver_ok r \<and> r = source\<lparr>tr_recipient := Some RecipientAny\<rparr>) \<and>
        (topic_receiver_observing_pair c i tg p p' n = Inr r \<longleftrightarrow>
           topic_receiver_ok r \<and> r = source\<lparr>tr_recipient := Some (RecipientPeer p')\<rparr>)) \<and>
    (service_sender_new c i producer tg n k = Inr call' \<longleftrightarrow> service_sender_ok call' \<and>
      call' = \<lparr>ss_bound_core_node = Segment c, ss_instance_id = Segment i,
           ss_target_core_node = map_option (\<lambda>p. Segment (pr_core_node p)) producer,
           ss_target_instance_id = map_option (\<lambda>p. Segment (pr_instance_id p)) producer,
           ss_to_target = tg, ss_service_name = Segment n, ss_kind = k, ss_signing = None\<rparr>) \<and>
    (scoped_to_core_node c call = Inr call' \<longleftrightarrow> service_sender_ok call' \<and>
      call' = call\<lparr>ss_target_core_node := Some (Segment c), ss_target_instance_id := None\<rparr>) \<and>
    (service_receiver_new c i tg n k = Inr provider \<longleftrightarrow> service_receiver_ok provider \<and>
      provider = \<lparr>sr_bound_core_node = Segment c, sr_instance_id = Segment i, sr_identity = tg,
           sr_service_name = Segment n, sr_kind = k, sr_root_prefix = service_root_prefix_of tg k\<rparr>) \<and>
    (action_sender_new c i producer tg n = Inr act' \<longleftrightarrow> action_sender_ok act' \<and>
      act' = \<lparr>as_core_node = Segment c, as_instance_id = Segment i,
           as_target_core_node = map_option (\<lambda>p. Segment (pr_core_node p)) producer,
           as_target_instance_id = map_option (\<lambda>p. Segment (pr_instance_id p)) producer,
           as_to_target = tg, as_action_name = Segment n\<rparr>) \<and>
    (pinned_to c i act = Inr act' \<longleftrightarrow> action_sender_ok act' \<and>
      act' = act\<lparr>as_target_core_node := Some (Segment c), as_target_instance_id := Some (Segment i)\<rparr>) \<and>
    (action_receiver_new c i tg n = Inr server \<longleftrightarrow> action_receiver_ok server \<and>
      server = \<lparr>ar_bound_core_node = Segment c, ar_instance_id = Segment i, ar_identity = tg, ar_action_name = Segment n\<rparr>)"
proof -
  have observers: "topic_receiver_observing c i tg p n = Inr r \<longleftrightarrow> topic_receiver_ok r \<and>
      r = \<lparr>tr_core_node = Segment c, tr_instance_id = Segment i, tr_from_core_node = Some (wp_core_node p),
           tr_from_instance_id = Some (wp_instance_id p), tr_from_target = Some tg,
           tr_from_link_id = Some (wp_link_id p), tr_to_topic = Segment n, tr_recipient = Some RecipientAny\<rparr>"
    "topic_receiver_observing_pair c i tg p p' n = Inr r \<longleftrightarrow> topic_receiver_ok r \<and>
      r = \<lparr>tr_core_node = Segment c, tr_instance_id = Segment i, tr_from_core_node = Some (wp_core_node p),
           tr_from_instance_id = Some (wp_instance_id p), tr_from_target = Some tg,
           tr_from_link_id = Some (wp_link_id p), tr_to_topic = Segment n, tr_recipient = Some (RecipientPeer p')\<rparr>"
    unfolding topic_receiver_observing_def topic_receiver_observing_pair_def
    by (rule topic_receiver_pairing_iff [OF assms(1,3)]; simp add: recipient_ok_def assms(4))+
  show ?thesis
    unfolding Let_def topic_wire_receiver.update_convs
    by (intro conjI) (rule target_new_iff wire_peer_new_iff observers
        topic_sender_new_iff [OF assms(1)] topic_sender_to_peer_iff [OF assms(1,3)]
        topic_receiver_new_iff [OF assms(2)] topic_receiver_paired_iff [OF assms(1,3)]
        service_sender_new_iff [OF assms(1)] scoped_to_core_node_iff [OF assms(5)] service_receiver_new_iff [OF assms(1)]
        action_sender_new_iff [OF assms(1)] pinned_to_iff [OF assms(6)] action_receiver_new_iff [OF assms(1)])+
qed

theorem wire_constructors_well_formed_witness:
  "topic_sender_to_peer ''arm'' ''leader'' sample_pairing ''in'' ''joints'' sample_follower =
     Inr \<lparr>ts_core_node = Segment ''arm'', ts_instance_id = Segment ''leader'', ts_target = sample_pairing,
          ts_link_id = Segment ''in'', ts_topic_name = Segment ''joints'', ts_to_peer = Some sample_follower\<rparr> \<and>
   topic_sender_to_peer ''a/b'' ''leader'' sample_pairing ''in'' ''joints'' sample_follower \<noteq>
     Inr \<lparr>ts_core_node = Segment ''a/b'', ts_instance_id = Segment ''leader'', ts_target = sample_pairing,
          ts_link_id = Segment ''in'', ts_topic_name = Segment ''joints'', ts_to_peer = Some sample_follower\<rparr>"
proof -
  define act where "act = \<lparr>as_core_node = Segment ''desk'', as_instance_id = Segment ''viewer'',
     as_target_core_node = None, as_target_instance_id = None, as_to_target = sample_service, as_action_name = Segment ''pan''\<rparr>"
  have ok: "target_ok sample_pairing" "pred_option target_ok (None :: sender_target option)" "peer_ok sample_follower"
    "service_sender_ok sample_caller" "action_sender_ok act"
    by (simp_all add: sample_wire_defs sample_caller_def sample_service_def act_def service_sender_ok_def
        action_sender_ok_def peer_ok_def wire_ok_defs)
  have "topic_sender_to_peer c ''leader'' sample_pairing ''in'' ''joints'' sample_follower = Inr s \<longleftrightarrow> topic_sender_ok s \<and>
      s = \<lparr>ts_core_node = Segment c, ts_instance_id = Segment ''leader'', ts_target = sample_pairing,
        ts_link_id = Segment ''in'', ts_topic_name = Segment ''joints'', ts_to_peer = Some sample_follower\<rparr>" for c s
    using wire_constructors_well_formed [OF ok(1-3,3-5), of "''joints''"] by blast
  then show ?thesis
    by (simp add: topic_sender_ok_def peer_ok_def sample_wire_defs wire_ok_defs)
qed


end
