(* ===== verification/Call_Check.thy ===== *)
theory Call_Check
  imports Machine_Proof Wire_Routing Stack_Edits Stack_Samples
begin

text \<open>
  The keys of the clients of a daemon and the check of the sender of each call
  (core-node-internal, \<open>services/credentials.rs\<close>), over the key files that the node stack tracks
  and the proofs of \<open>Call_Proof\<close> and \<open>Machine_Proof\<close>. The new keys of \<open>ClientKey::generate\<close>, the
  clock and the outcome of file writes are arguments. A refusal is the branch that refused; its
  message only words it, and its failure kind is \<open>Rejected\<close> on all of them.
\<close>

section \<open>The keys of the daemon and of its clients\<close>

definition command_line_instance_id :: string where
  "command_line_instance_id = ''peppy-cli''"

record 'k client_credential =
  cc_key :: 'k
  cc_machine_proof :: "byte list option"

definition into_signer :: "'k client_credential \<Rightarrow> 'k call_signer" where
  "into_signer c = \<lparr>signer_key = cc_key c, signer_machine_proof = cc_machine_proof c\<rparr>"

record ('k, 'm, 'a) daemon_keys =
  dk_credentials_dir :: string
  dk_namespace :: string
  dk_core_node :: string
  dk_boot_instance_id :: string
  dk_boot_key :: 'k
  dk_machine :: "(('m, 'a) machine_certificate \<times> boot_statement) option"
  dk_command_line :: "client_public_key option"
  dk_instances :: "string \<rightharpoonup> client_public_key"
  dk_next_key_serial :: u64

definition daemon_keys_new ::
    "('m, 'a) pki \<Rightarrow> 'k ed25519_ops \<Rightarrow> string \<Rightarrow> string \<Rightarrow> string \<Rightarrow> string \<Rightarrow>
     ('m, 'a) machine_certificate option \<Rightarrow> 'k \<Rightarrow> ('k, 'm, 'a) daemon_keys" where
  "daemon_keys_new P R dir namespace core_node boot machine boot_key =
     \<lparr>dk_credentials_dir = dir, dk_namespace = namespace, dk_core_node = core_node,
      dk_boot_instance_id = boot, dk_boot_key = boot_key,
      dk_machine = map_option (\<lambda>certificate.
        (certificate, boot_credential P certificate namespace core_node boot (ed_public R boot_key))) machine,
      dk_command_line = None, dk_instances = (\<lambda>_. None), dk_next_key_serial = 0\<rparr>"

definition daemon_signer :: "('m, 'a) pki \<Rightarrow> ('k, 'm, 'a) daemon_keys \<Rightarrow> 'k call_signer" where
  "daemon_signer P keys =
     into_signer \<lparr>cc_key = dk_boot_key keys,
       cc_machine_proof = map_option (\<lambda>(_, credential). daemon_proof P credential) (dk_machine keys)\<rparr>"

definition credential_of ::
    "('m, 'a) pki \<Rightarrow> 'k ed25519_ops \<Rightarrow> ('k, 'm, 'a) daemon_keys \<Rightarrow> string \<Rightarrow> 'k \<Rightarrow> 'k client_credential" where
  "credential_of P R keys client key =
     \<lparr>cc_key = key,
      cc_machine_proof = map_option (\<lambda>(_, credential).
        client_proof P R credential client (ed_public R key) (dk_boot_key keys)) (dk_machine keys)\<rparr>"

section \<open>Key files\<close>

definition command_line_key_path :: "string \<Rightarrow> string" where
  "command_line_key_path dir = dir @ ''/command_line.key''"

definition instance_keys_dir :: "string \<Rightarrow> string" where
  "instance_keys_dir dir = dir @ ''/instances''"

definition instance_key_path :: "string \<Rightarrow> string \<Rightarrow> u64 \<Rightarrow> string" where
  "instance_key_path dir i serial =
     instance_keys_dir dir @ ''/'' @ i @ ''_'' @ show_nat (unat serial) @ ''.key''"

definition create_path :: "string \<Rightarrow> world \<Rightarrow> world" where
  "create_path p w = w\<lparr>disk := insert p (disk w)\<rparr>"

text \<open>
  \<open>DaemonKeys::prepare\<close>. \<open>stored\<close> is the key of the key file of the command line when it reads;
  \<open>steps_done\<close> is how many of the three directory steps went through before one failed, and
  \<open>write_ok\<close> whether the key file could be written.
\<close>

definition prepare_steps :: "string \<Rightarrow> (world \<Rightarrow> world) list" where
  "prepare_steps dir =
     [create_path dir, remove_dir_all (instance_keys_dir dir), create_path (instance_keys_dir dir)]"

definition prepare_keys ::
    "'k ed25519_ops \<Rightarrow> nat \<Rightarrow> bool \<Rightarrow> 'k option \<Rightarrow> 'k \<Rightarrow> ('k, 'm, 'a) daemon_keys \<Rightarrow> world \<Rightarrow>
     bool \<times> ('k, 'm, 'a) daemon_keys \<times> world" where
  "prepare_keys R steps_done write_ok stored fresh keys w =
     (let dir = dk_credentials_dir keys;
          w1 = fold (\<lambda>step. step) (take steps_done (prepare_steps dir)) w;
          key = (case stored of Some k \<Rightarrow> k | None \<Rightarrow> fresh)
      in if steps_done < length (prepare_steps dir) \<or> \<not> write_ok then (False, keys, w1)
         else (True, keys\<lparr>dk_command_line := Some (ed_public R key)\<rparr>,
               create_path (command_line_key_path dir) w1))"

text \<open>\<open>issue_instance_key\<close>: the path of the key file, or the failed write.\<close>

definition issue_instance_key ::
    "'k ed25519_ops \<Rightarrow> string \<Rightarrow> 'k \<Rightarrow> bool \<Rightarrow> ('k, 'm, 'a) daemon_keys \<Rightarrow> world \<Rightarrow>
     string option \<times> ('k, 'm, 'a) daemon_keys \<times> world" where
  "issue_instance_key R i key write_ok keys w =
     (let serial = dk_next_key_serial keys;
          keys1 = keys\<lparr>dk_next_key_serial := serial + 1\<rparr>;
          path = instance_key_path (dk_credentials_dir keys) i serial
      in if \<not> write_ok then (None, keys1, w)
         else
           let w1 = create_path path w;
               kept = (\<lambda>file. if file \<in> disk w1 then dk_instances keys1 file else None)
           in (Some path, keys1\<lparr>dk_instances := kept(path \<mapsto> ed_public R key)\<rparr>, w1))"

datatype caller_kind = CallerCommandLine | CallerDaemon | CallerInstance

definition local_key ::
    "'k ed25519_ops \<Rightarrow> 'g petgraph \<Rightarrow> ('k, 'm, 'a) daemon_keys \<Rightarrow> 'g node_stack \<Rightarrow> string \<Rightarrow>
     (client_public_key \<times> caller_kind) option" where
  "local_key R G keys s i =
     (if i = dk_boot_instance_id keys then Some (ed_public R (dk_boot_key keys), CallerDaemon)
      else if i = command_line_instance_id
      then map_option (\<lambda>k. (k, CallerCommandLine)) (dk_command_line keys)
      else Option.bind (live_credential G s i)
             (\<lambda>file. map_option (\<lambda>k. (k, CallerInstance)) (dk_instances keys file)))"

section \<open>The nonces taken\<close>

definition saturating_sub64 :: "u64 \<Rightarrow> u64 \<Rightarrow> u64" where
  "saturating_sub64 a b = (if b \<le> a then a - b else 0)"

definition abs_diff64 :: "u64 \<Rightarrow> u64 \<Rightarrow> u64" where
  "abs_diff64 a b = (if a \<le> b then b - a else a - b)"

record nonce_window =
  nw_taken :: "client_public_key \<times> byte list \<rightharpoonup> u64"
  nw_last_prune :: u64

definition nonce_window_default :: nonce_window where
  "nonce_window_default = \<lparr>nw_taken = (\<lambda>_. None), nw_last_prune = 0\<rparr>"

definition prune_nonces :: "u64 \<Rightarrow> u64 \<Rightarrow> nonce_window \<Rightarrow> nonce_window" where
  "prune_nonces now_ms window_ms w =
     (if saturating_sub64 now_ms (nw_last_prune w) > window_ms div 2
      then let oldest = saturating_sub64 now_ms window_ms
           in \<lparr>nw_taken = (\<lambda>k. case nw_taken w k of None \<Rightarrow> None
                                | Some taken_at \<Rightarrow> if taken_at \<ge> oldest then Some taken_at else None),
               nw_last_prune = now_ms\<rparr>
      else w)"

definition take_nonce ::
    "client_public_key \<Rightarrow> byte list \<Rightarrow> u64 \<Rightarrow> u64 \<Rightarrow> u64 \<Rightarrow> nonce_window \<Rightarrow> bool \<times> nonce_window" where
  "take_nonce key nonce ts now_ms window_ms w =
     (let w1 = prune_nonces now_ms window_ms w
      in (nw_taken w1 (key, nonce) = None, w1\<lparr>nw_taken := (nw_taken w1)((key, nonce) \<mapsto> ts)\<rparr>))"

section \<open>The check of a call\<close>

record received_call =
  rc_core_node :: string
  rc_instance_id :: string
  rc_signed :: signed_call
  rc_proof :: "call_proof option"

record verified_caller =
  vc_core_node :: string
  vc_instance_id :: string
  vc_kind :: caller_kind

datatype refusal =
    NoSignature
  | OutsideWindow u64
  | NoKeyHere
  | NoMachineCertificate
  | NoMachineProof
  | MachineProofRefused machine_proof_error
  | SignatureRefused
  | NonceRepeated

definition timestamp_window_ms :: u64 where
  "timestamp_window_ms = 30000"

definition key_of ::
    "('m, 'a) pki \<Rightarrow> 'k ed25519_ops \<Rightarrow> 'g petgraph \<Rightarrow> ('k, 'm, 'a) daemon_keys \<Rightarrow> 'g node_stack \<Rightarrow>
     received_call \<Rightarrow> call_proof \<Rightarrow> system_time \<Rightarrow> refusal + client_public_key \<times> caller_kind" where
  "key_of P R G keys s call p now =
     (if rc_core_node call = dk_core_node keys
      then ok_or NoKeyHere (local_key R G keys s (rc_instance_id call))
      else
        and_then (ok_or NoMachineCertificate (dk_machine keys)) (\<lambda>(certificate, _).
        and_then (ok_or NoMachineProof (machine_proof p)) (\<lambda>bytes.
        and_then (map_err MachineProofRefused
            (machine_trust_verify P R (mc_trust_anchors certificate) (mc_operator_ca certificate) bytes
               (dk_namespace keys) (rc_core_node call) (rc_instance_id call) now)) (\<lambda>proven.
        Inr (pk_key proven,
             if pk_is_daemon proven then CallerDaemon
             else if rc_instance_id call = command_line_instance_id then CallerCommandLine
             else CallerInstance)))))"

definition daemon_verify ::
    "('m, 'a) pki \<Rightarrow> 'k ed25519_ops \<Rightarrow> 'g petgraph \<Rightarrow> ('k, 'm, 'a) daemon_keys \<Rightarrow> 'g node_stack \<Rightarrow>
     system_time \<Rightarrow> received_call \<Rightarrow> nonce_window \<Rightarrow> (refusal + verified_caller) \<times> nonce_window" where
  "daemon_verify P R G keys s now call w =
     (case rc_proof call of
        None \<Rightarrow> (Inl NoSignature, w)
      | Some p \<Rightarrow>
          let now_ms = unix_millis now;
              skew_ms = abs_diff64 now_ms (timestamp_ms p)
          in if skew_ms > timestamp_window_ms then (Inl (OutsideWindow skew_ms), w)
             else case key_of P R G keys s call p now of
                    Inl refused \<Rightarrow> (Inl refused, w)
                  | Inr (key, kind) \<Rightarrow>
                      if \<not> proof_verifies R p key (rc_signed call) then (Inl SignatureRefused, w)
                      else let (fresh, w1) =
                             take_nonce key (proof_nonce p) (timestamp_ms p) now_ms timestamp_window_ms w
                           in (if fresh
                               then Inr \<lparr>vc_core_node = rc_core_node call,
                                         vc_instance_id = rc_instance_id call, vc_kind = kind\<rparr>
                               else Inl NonceRepeated, w1))"

section \<open>An accepted call is its sender's\<close>

text \<open>
  The key a sender of this machine or of another one has: the daemon's own boot key, the key of
  the command line, the key file of the process that the instance runs, or the key that the
  machine proof of another machine gives to exactly that sender.
\<close>

definition sender_has_key ::
    "('m, 'a) pki \<Rightarrow> 'k ed25519_ops \<Rightarrow> 'g petgraph \<Rightarrow> ('k, 'm, 'a) daemon_keys \<Rightarrow> 'g node_stack \<Rightarrow>
     system_time \<Rightarrow> received_call \<Rightarrow> call_proof \<Rightarrow> client_public_key \<Rightarrow> caller_kind \<Rightarrow> bool" where
  "sender_has_key P R G keys s now call p key kind \<longleftrightarrow>
     (let i = rc_instance_id call in
      if rc_core_node call = dk_core_node keys then
        (case kind of
           CallerDaemon \<Rightarrow> i = dk_boot_instance_id keys \<and> key = ed_public R (dk_boot_key keys)
         | CallerCommandLine \<Rightarrow> i = command_line_instance_id \<and> i \<noteq> dk_boot_instance_id keys \<and>
             dk_command_line keys = Some key
         | CallerInstance \<Rightarrow> i \<noteq> dk_boot_instance_id keys \<and> i \<noteq> command_line_instance_id \<and>
             (\<exists>file. live_credential G s i = Some file \<and> dk_instances keys file = Some key))
      else
        \<exists>certificate credential bytes mp. dk_machine keys = Some (certificate, credential) \<and>
          machine_proof p = Some bytes \<and> machine_proof_decode P bytes = Inr mp \<and>
          machine_vouches P R (mc_trust_anchors certificate) (mc_operator_ca certificate) mp
            (dk_namespace keys) (rc_core_node call) i now \<lparr>pk_key = key, pk_is_daemon = (kind = CallerDaemon)\<rparr> \<and>
          (kind = CallerCommandLine \<longrightarrow> i = command_line_instance_id) \<and>
          (kind = CallerInstance \<longrightarrow> i \<noteq> command_line_instance_id))"

lemma local_key_iff:
  "local_key R G keys s i = Some (key, kind) \<longleftrightarrow>
     (case kind of
        CallerDaemon \<Rightarrow> i = dk_boot_instance_id keys \<and> key = ed_public R (dk_boot_key keys)
      | CallerCommandLine \<Rightarrow> i = command_line_instance_id \<and> i \<noteq> dk_boot_instance_id keys \<and>
          dk_command_line keys = Some key
      | CallerInstance \<Rightarrow> i \<noteq> dk_boot_instance_id keys \<and> i \<noteq> command_line_instance_id \<and>
          (\<exists>file. live_credential G s i = Some file \<and> dk_instances keys file = Some key))"
  by (cases kind) (auto simp: local_key_def bind_eq_Some_conv split: if_splits)

lemma machine_trust_verify_Inr:
  "machine_trust_verify P R anchors op bytes ns core inst now = Inr k \<longleftrightarrow>
     (\<exists>mp. machine_proof_decode P bytes = Inr mp \<and> machine_vouches P R anchors op mp ns core inst now k)"
proof (cases "machine_proof_decode P bytes")
  case (Inl e)
  then show ?thesis by (simp add: machine_trust_verify_def)
next
  case (Inr mp)
  then show ?thesis by (simp add: machine_trust_verify_iff)
qed

lemma proven_kinds:
  "(\<exists>proven. Q proven \<and> key = pk_key proven \<and> kind = (if pk_is_daemon proven then CallerDaemon
      else if cli then CallerCommandLine else CallerInstance)) \<longleftrightarrow>
   Q \<lparr>pk_key = key, pk_is_daemon = (kind = CallerDaemon)\<rparr> \<and>
   (kind = CallerCommandLine \<longrightarrow> cli) \<and> (kind = CallerInstance \<longrightarrow> \<not> cli)"
  (is "?l \<longleftrightarrow> ?r")
proof
  assume ?l
  then obtain proven where q: "Q proven" "key = pk_key proven"
    and k: "kind = (if pk_is_daemon proven then CallerDaemon
      else if cli then CallerCommandLine else CallerInstance)" by blast
  from k q(2) have "\<lparr>pk_key = key, pk_is_daemon = (kind = CallerDaemon)\<rparr> = proven"
    by (cases proven) auto
  with q(1) k show ?r by (auto split: if_splits)
next
  assume ?r
  then show ?l
    by (intro exI [of _ "\<lparr>pk_key = key, pk_is_daemon = (kind = CallerDaemon)\<rparr>"]) (cases kind; auto)
qed

lemma key_of_iff:
  "key_of P R G keys s call p now = Inr (key, kind) \<longleftrightarrow> sender_has_key P R G keys s now call p key kind"
proof (cases "rc_core_node call = dk_core_node keys")
  case True
  then show ?thesis
    by (simp add: key_of_def sender_has_key_def ok_or_Inr local_key_iff Let_def)
next
  case False
  have "key_of P R G keys s call p now = Inr (key, kind) \<longleftrightarrow>
      (\<exists>certificate credential bytes. dk_machine keys = Some (certificate, credential) \<and>
         machine_proof p = Some bytes \<and>
         (\<exists>proven. machine_trust_verify P R (mc_trust_anchors certificate) (mc_operator_ca certificate) bytes
               (dk_namespace keys) (rc_core_node call) (rc_instance_id call) now = Inr proven \<and>
            key = pk_key proven \<and> kind = (if pk_is_daemon proven then CallerDaemon
              else if rc_instance_id call = command_line_instance_id then CallerCommandLine else CallerInstance)))"
    using False by (auto simp: key_of_def result_simps)
  also have "\<dots> \<longleftrightarrow> sender_has_key P R G keys s now call p key kind"
    using False by (auto simp: proven_kinds machine_trust_verify_Inr sender_has_key_def Let_def)
  finally show ?thesis .
qed


lemma daemon_verify_Inr:
  "daemon_verify P R G keys s now call w = (Inr v, w') \<longleftrightarrow>
     (\<exists>p key. rc_proof call = Some p \<and>
        abs_diff64 (unix_millis now) (timestamp_ms p) \<le> timestamp_window_ms \<and>
        key_of P R G keys s call p now = Inr (key, vc_kind v) \<and>
        proof_verifies R p key (rc_signed call) \<and>
        take_nonce key (proof_nonce p) (timestamp_ms p) (unix_millis now) timestamp_window_ms w = (True, w') \<and>
        vc_core_node v = rc_core_node call \<and> vc_instance_id v = rc_instance_id call)"
proof -
  have v: "v = \<lparr>vc_core_node = c, vc_instance_id = i, vc_kind = k\<rparr> \<longleftrightarrow>
      vc_core_node v = c \<and> vc_instance_id v = i \<and> k = vc_kind v" for c i k
    by (cases v) auto
  show ?thesis
    by (auto simp: daemon_verify_def Let_def v not_less split: option.splits if_splits sum.splits prod.splits)
qed

text \<open>
  C13: A call the daemon accepts is its sender's: it carries a proof signed within 30 s of the
  daemon's clock, whose signature over exactly the call's namespace, key expression, kind,
  payload, timestamp and nonce verifies with the key of the very sender it names, and it is
  reported under that sender's identity. For a sender of this machine that key is the daemon's
  boot key, the command line's key, or the key in the file of the process the instance now
  runs; for one of another machine it is the key that a trusted machine's boot statement names or
  endorses for that sender.
\<close>

theorem accepted_call_is_authentic:
  assumes "daemon_verify P R G keys s now call w = (Inr v, w')"
  shows "vc_core_node v = rc_core_node call \<and> vc_instance_id v = rc_instance_id call \<and>
    (\<exists>p key. rc_proof call = Some p \<and>
       abs_diff64 (unix_millis now) (timestamp_ms p) \<le> timestamp_window_ms \<and>
       sender_has_key P R G keys s now call p key (vc_kind v) \<and>
       ed_verify R key (signed_bytes (rc_signed call) (timestamp_ms p) (proof_nonce p)) (proof_signature p))"
  using assms unfolding daemon_verify_Inr key_of_iff proof_verifies_def key_verifies_def by blast

section \<open>A replayed call is refused\<close>

lemma unat_saturating_sub64: "unat (saturating_sub64 a b) = unat a - unat b"
  by (simp add: saturating_sub64_def unat_sub word_le_nat_alt)

lemma within_window:
  "abs_diff64 now ts \<le> timestamp_window_ms \<Longrightarrow> unat now \<le> unat ts + 30000"
  by (auto simp: abs_diff64_def timestamp_window_ms_def word_le_nat_alt unat_sub split: if_splits)

text \<open>The nonce is held with a timestamp that is at least \<open>t\<close>.\<close>

definition holds_nonce :: "client_public_key \<Rightarrow> byte list \<Rightarrow> u64 \<Rightarrow> nonce_window \<Rightarrow> bool" where
  "holds_nonce k n t w \<longleftrightarrow> (case nw_taken w (k, n) of None \<Rightarrow> False | Some v \<Rightarrow> t \<le> v)"

lemma prune_keeps:
  assumes "holds_nonce k n t w" "unat now_ms \<le> unat t + 30000"
  shows "holds_nonce k n t (prune_nonces now_ms timestamp_window_ms w)"
proof -
  from assms(1) obtain v where v: "nw_taken w (k, n) = Some v" "t \<le> v"
    by (auto simp: holds_nonce_def split: option.splits)
  with assms(2) have "saturating_sub64 now_ms timestamp_window_ms \<le> v"
    by (simp add: word_le_nat_alt unat_saturating_sub64 timestamp_window_ms_def)
  with v show ?thesis by (simp add: holds_nonce_def prune_nonces_def Let_def)
qed

lemma take_nonce_holds:
  assumes "take_nonce k' n' ts now_ms timestamp_window_ms w = (fresh, w')"
  shows "holds_nonce k' n' ts w' \<and>
    (holds_nonce k n t w \<longrightarrow> unat now_ms \<le> unat t + 30000 \<longrightarrow> ((k', n') = (k, n) \<longrightarrow> t \<le> ts) \<longrightarrow>
       holds_nonce k n t w' \<and> ((k', n') = (k, n) \<longrightarrow> \<not> fresh))"
proof -
  from assms have w': "w' = (prune_nonces now_ms timestamp_window_ms w)
      \<lparr>nw_taken := (nw_taken (prune_nonces now_ms timestamp_window_ms w))((k', n') \<mapsto> ts)\<rparr>"
    and f: "fresh = (nw_taken (prune_nonces now_ms timestamp_window_ms w) (k', n') = None)"
    by (auto simp: take_nonce_def Let_def)
  show ?thesis
    using prune_keeps [of k n t w now_ms]
    by (auto simp: w' f holds_nonce_def split: option.splits)
qed

text \<open>One call checked, at a point where the keys and the stack may be other ones.\<close>

type_synonym ('k, 'm, 'a, 'g) check_event =
  "('k, 'm, 'a) daemon_keys \<times> 'g node_stack \<times> system_time \<times> received_call"

definition check_step ::
    "('m, 'a) pki \<Rightarrow> 'k ed25519_ops \<Rightarrow> 'g petgraph \<Rightarrow> ('k, 'm, 'a, 'g) check_event \<Rightarrow> nonce_window \<Rightarrow> nonce_window" where
  "check_step P R G ev w = (case ev of (keys, s, now, call) \<Rightarrow> snd (daemon_verify P R G keys s now call w))"

text \<open>
  A call that does not validly sign an older time with a nonce that the same key used at \<open>t\<close>. Nonces are
  drawn at random for each call, so no client does; a call with a signature that does not verify may
  carry any nonce and time.
\<close>

definition nonce_not_reused ::
    "('m, 'a) pki \<Rightarrow> 'k ed25519_ops \<Rightarrow> 'g petgraph \<Rightarrow> client_public_key \<Rightarrow> byte list \<Rightarrow> u64 \<Rightarrow>
     ('k, 'm, 'a, 'g) check_event \<Rightarrow> bool" where
  "nonce_not_reused P R G k n t ev =
     (case ev of (keys, s, now, call) \<Rightarrow>
        (case rc_proof call of
           None \<Rightarrow> True
         | Some p \<Rightarrow>
             (case key_of P R G keys s call p now of
                Inl _ \<Rightarrow> True
              | Inr (k', _) \<Rightarrow>
                  (if k' = k \<and> proof_nonce p = n \<and> proof_verifies R p k (rc_signed call)
                   then t \<le> timestamp_ms p else True))))"

lemma check_step_holds:
  assumes "holds_nonce k n t w" "nonce_not_reused P R G k n t (keys, s, now, call)"
    "unat (unix_millis now) \<le> unat t + 30000"
  shows "holds_nonce k n t (check_step P R G (keys, s, now, call) w)"
proof (cases "snd (daemon_verify P R G keys s now call w) = w")
  case True
  with assms(1) show ?thesis by (simp add: check_step_def)
next
  case False
  then obtain p k' kind where p: "rc_proof call = Some p" "key_of P R G keys s call p now = Inr (k', kind)"
      "proof_verifies R p k' (rc_signed call)"
    and w': "snd (daemon_verify P R G keys s now call w) =
      snd (take_nonce k' (proof_nonce p) (timestamp_ms p) (unix_millis now) timestamp_window_ms w)"
    by (auto simp: daemon_verify_def Let_def split: option.splits if_splits sum.splits prod.splits)
  obtain fresh w1 where t: "take_nonce k' (proof_nonce p) (timestamp_ms p) (unix_millis now) timestamp_window_ms w
      = (fresh, w1)" by (cases "take_nonce k' (proof_nonce p) (timestamp_ms p) (unix_millis now) timestamp_window_ms w")
  have "(k', proof_nonce p) = (k, n) \<longrightarrow> t \<le> timestamp_ms p"
    using assms(2) p by (auto simp: nonce_not_reused_def)
  with take_nonce_holds [OF t, of k n t] assms(1,3) have "holds_nonce k n t w1" by simp
  with w' t show ?thesis by (simp add: check_step_def)
qed

lemma check_run_holds:
  assumes "holds_nonce k n t w"
    "list_all (\<lambda>ev. nonce_not_reused P R G k n t ev \<and> unat (unix_millis (fst (snd (snd ev)))) \<le> unat t + 30000) evs"
  shows "holds_nonce k n t (fold (check_step P R G) evs w)"
  using assms
proof (induction evs arbitrary: w)
  case (Cons ev evs)
  obtain keys s now call where ev: "ev = (keys, s, now, call)" by (cases ev)
  from Cons.prems have "holds_nonce k n t (check_step P R G ev w)"
    unfolding ev by (intro check_step_holds) simp_all
  with Cons show ?case by simp
qed simp


text \<open>
  C14: A replayed call is refused. After the daemon accepted a call, a later call under the same key with
  the same nonce and timestamp is refused as outside the window, for its signature or as a repeated
  nonce, whatever calls the daemon checked in between, with whatever keys and stack, under two
  conditions. No check in between read a clock past both the end of the accepted call's window,
  30 s after it was signed, and the clock of the replay. And no call in between validly signed an
  older time with the same nonce under that key.
\<close>

theorem replayed_call_is_refused:
  assumes "daemon_verify P R G keys s now call w = (Inr v, w1)" "rc_proof call = Some p"
    "key_of P R G keys s call p now = Inr (k, kind)"
    "list_all (\<lambda>ev. nonce_not_reused P R G k (proof_nonce p) (timestamp_ms p) ev \<and>
       unat (unix_millis (fst (snd (snd ev)))) \<le> max (unat (timestamp_ms p) + 30000) (unat (unix_millis now'))) evs"
    "rc_proof call' = Some p'" "proof_nonce p' = proof_nonce p" "timestamp_ms p' = timestamp_ms p"
    "key_of P R G keys' s' call' p' now' = Inr (k, kind')"
  shows "fst (daemon_verify P R G keys' s' now' call' (fold (check_step P R G) evs w1)) \<in>
    {Inl (OutsideWindow (abs_diff64 (unix_millis now') (timestamp_ms p))), Inl SignatureRefused, Inl NonceRepeated}"
proof -
  define w2 where "w2 = fold (check_step P R G) evs w1"
  let ?skew = "abs_diff64 (unix_millis now') (timestamp_ms p)"
  let ?take = "take_nonce k (proof_nonce p) (timestamp_ms p) (unix_millis now') timestamp_window_ms w2"
  have verdict: "fst (daemon_verify P R G keys' s' now' call' w2) =
      (if ?skew > timestamp_window_ms then Inl (OutsideWindow ?skew)
       else if \<not> proof_verifies R p' k (rc_signed call') then Inl SignatureRefused
       else if fst ?take
       then Inr \<lparr>vc_core_node = rc_core_node call', vc_instance_id = rc_instance_id call', vc_kind = kind'\<rparr>
       else Inl NonceRepeated)"
    unfolding daemon_verify_def assms(5) option.case Let_def assms(6,7,8) sum.case prod.case
    by (simp add: case_prod_beta)
  have "\<not> fst ?take" if "?skew \<le> timestamp_window_ms"
  proof -
    from that have late: "unat (unix_millis now') \<le> unat (timestamp_ms p) + 30000" by (rule within_window)
    have "holds_nonce k (proof_nonce p) (timestamp_ms p) w1"
      using assms(1-3) take_nonce_holds by (fastforce simp: daemon_verify_Inr)
    then have "holds_nonce k (proof_nonce p) (timestamp_ms p) w2"
      unfolding w2_def by (rule check_run_holds) (use assms(4) late in \<open>auto simp: list_all_iff max_def split: if_splits\<close>)
    moreover obtain fresh w3 where take: "?take = (fresh, w3)" by fastforce
    ultimately show ?thesis
      using take_nonce_holds [OF take, of k "proof_nonce p" "timestamp_ms p"] late by simp
  qed
  then show ?thesis unfolding w2_def [symmetric] verdict by (simp add: not_less)
qed

section \<open>The keys issued to instances\<close>

lemma issued_key_is_recorded:
  assumes "issue_instance_key R i key True keys w = (Some path, keys', w')"
  shows "dk_instances keys' path = Some (ed_public R key)" "path \<in> disk w'"
    "dk_core_node keys' = dk_core_node keys" "dk_boot_instance_id keys' = dk_boot_instance_id keys"
    "dk_namespace keys' = dk_namespace keys" "dk_machine keys' = dk_machine keys"
  using assms by (auto simp: issue_instance_key_def Let_def create_path_def)

lemma show_nat_digits: "c \<in> set (show_nat n) \<Longrightarrow> digit_val c \<noteq> None"
proof (induction n rule: show_nat.induct)
  case (1 n)
  then show ?case by (auto simp: show_nat.simps [of n] split: if_splits)
qed

lemma show_nat_inject: "show_nat a = show_nat b \<longleftrightarrow> a = b"
  by (metis option.inject read_digits_show_nat)

text \<open>Two starts never share a key file: the path tells the instance and the serial.\<close>

lemma instance_key_path_inject:
  "instance_key_path d i a = instance_key_path d j b \<longleftrightarrow> i = j \<and> a = b"
proof
  assume "instance_key_path d i a = instance_key_path d j b"
  then have eq: "i @ CHR ''_'' # show_nat (unat a) = j @ CHR ''_'' # show_nat (unat b)"
    by (simp add: instance_key_path_def)
  have free: "CHR ''_'' \<notin> set (show_nat n)" for n
    using show_nat_digits [of "CHR ''_''" n] by (auto simp: digit_val_def)
  have last: "takeWhile (\<lambda>c. c \<noteq> CHR ''_'') (rev (x @ CHR ''_'' # show_nat n)) = rev (show_nat n)" for x n
    using free [of n] by (auto simp: takeWhile_tail)
  from eq have "rev (show_nat (unat a)) = rev (show_nat (unat b))" by (metis last)
  then have "unat a = unat b" by (simp add: show_nat_inject)
  then have "a = b" by (rule unsigned_word_eqI)
  with eq show "i = j \<and> a = b" by simp
qed simp

lemma other_keys_stay:
  assumes "issue_instance_key R i key True keys w = (Some path, keys', w')" "file \<noteq> path" "file \<in> disk w"
  shows "dk_instances keys' file = dk_instances keys file"
  using assms by (auto simp: issue_instance_key_def Let_def create_path_def)


section \<open>An honest call is accepted\<close>

text \<open>A call as the endpoint of the daemon reads it off the query (\<open>ServiceEndpoint\<close> of peppylib).\<close>

definition received_of :: "parsed_inbound_query \<Rightarrow> string \<Rightarrow> string \<Rightarrow> byte list \<Rightarrow> received_call" where
  "received_of q namespace key_expr payload =
     \<lparr>rc_core_node = piq_caller_core q, rc_instance_id = piq_caller_inst q,
      rc_signed = \<lparr>call_namespace = namespace, call_key_expr = key_expr, call_kind = piq_kind q,
                   call_payload = payload\<rparr>,
      rc_proof = piq_proof q\<rparr>"

lemma signed_call_accepted:
  assumes "ed25519_laws R" "rc_proof call = Some (signer_prove R sg (rc_signed call) receiver nonce sent)"
    "key_of P R G keys s call (signer_prove R sg (rc_signed call) receiver nonce sent) now =
       Inr (ed_public R (signer_key sg), kind)"
    "abs_diff64 (unix_millis now) (unix_millis sent) \<le> timestamp_window_ms"
    "nw_taken nw (ed_public R (signer_key sg), nonce) = None"
  shows "daemon_verify P R G keys s now call nw =
    (Inr \<lparr>vc_core_node = rc_core_node call, vc_instance_id = rc_instance_id call, vc_kind = kind\<rparr>,
     snd (take_nonce (ed_public R (signer_key sg)) nonce (unix_millis sent) (unix_millis now)
       timestamp_window_ms nw))"
proof -
  define p where "p = signer_prove R sg (rc_signed call) receiver nonce sent"
  have "timestamp_ms p = unix_millis sent" "proof_nonce p = nonce"
    by (simp_all add: p_def signer_prove_def Let_def)
  moreover have "proof_verifies R p (ed_public R (signer_key sg)) (rc_signed call)"
    unfolding p_def using assms(1) by (rule signer_proof_verifies)
  moreover have "take_nonce (ed_public R (signer_key sg)) nonce (unix_millis sent) (unix_millis now)
      timestamp_window_ms nw = (True, snd (take_nonce (ed_public R (signer_key sg)) nonce (unix_millis sent)
        (unix_millis now) timestamp_window_ms nw))"
    using assms(5) by (simp add: take_nonce_def prune_nonces_def Let_def)
  ultimately show ?thesis
    using assms(2-4) [folded p_def] unfolding daemon_verify_Inr by simp
qed

lemma honest_call_accepted:
  assumes laws: "ed25519_laws R"
    and ends: "service_sender_ok c" "service_receiver_ok r" "call_reaches c r"
    and signing: "ss_signing c = Some \<lparr>signing_signer = sg, signing_receiver = ThisMachine\<rparr>"
      "signer_key sg = key"
    and issued: "issue_instance_key R i key True keys0 w0 = (Some path, keys, w0')"
      "i \<noteq> dk_boot_instance_id keys0" "i \<noteq> command_line_instance_id"
    and here: "as_str (ss_bound_core_node c) = dk_core_node keys0" "as_str (ss_instance_id c) = i"
    and live: "live_credential G s i = Some path"
    and nonce: "length nonce = nonce_len" "nw_taken nw (ed_public R key, nonce) = None"
    and clock: "abs_diff64 (unix_millis now) (unix_millis sent) \<le> timestamp_window_ms"
    and att: "att = service_get_selector_attachment R c ns (service_get_selector c) kd payload nonce sent"
  shows "\<exists>q. parse_inbound_query r (service_get_selector c) att = Inr q \<and>
    fst (daemon_verify P R G keys s now (received_of q ns (service_get_selector c) payload) nw) =
      Inr \<lparr>vc_core_node = dk_core_node keys0, vc_instance_id = i, vc_kind = CallerInstance\<rparr>"
proof -
  define call where "call = \<lparr>call_namespace = ns, call_key_expr = service_get_selector c, call_kind = kd,
      call_payload = payload\<rparr>"
  define p where "p = signer_prove R sg call ThisMachine nonce sent"
  define a where "a = \<lparr>qa_kind = kd, qa_proof = Some p\<rparr>"
  have "att = service_get_selector_attachment R (c\<lparr>ss_signing := Some \<lparr>signing_signer = sg\<lparr>signer_machine_proof := None\<rparr>,
      signing_receiver = ThisMachine\<rparr>\<rparr>) ns (service_get_selector c) kd payload nonce sent"
    by (simp add: att signing(1) service_get_selector_attachment_def signing_prove_def signer_prove_def)
  then have "query_attachment_decode att = Inr a"
    using sent_attachment_decodes [OF laws nonce(1), of "c\<lparr>ss_signing := Some \<lparr>signing_signer = sg\<lparr>signer_machine_proof := None\<rparr>,
      signing_receiver = ThisMachine\<rparr>\<rparr>"]
    by (simp add: machine_proof_fits_def a_def p_def call_def signing_prove_def signer_prove_def)
  note parse = parse_selector [OF ends(1,2) this]
  define q where "q = \<lparr>piq_caller_core = dk_core_node keys0, piq_caller_inst = i, piq_link_id = ''*'',
      piq_kind = kd, piq_proof = Some p\<rparr>"
  have q: "parse_inbound_query r (service_get_selector c) att = Inr q"
    using ends(3) here by (simp add: parse q_def call_reaches_def a_def)
  have rc: "received_of q ns (service_get_selector c) payload =
      \<lparr>rc_core_node = dk_core_node keys0, rc_instance_id = i, rc_signed = call, rc_proof = Some p\<rparr>"
    by (simp add: received_of_def q_def call_def)
  note keys = issued_key_is_recorded [OF issued(1)]
  have key: "key_of P R G keys s (received_of q ns (service_get_selector c) payload) p now =
      Inr (ed_public R key, CallerInstance)"
    using issued(2,3) live keys by (simp add: rc key_of_def local_key_def)
  have "fst (daemon_verify P R G keys s now (received_of q ns (service_get_selector c) payload) nw) =
      Inr \<lparr>vc_core_node = dk_core_node keys0, vc_instance_id = i, vc_kind = CallerInstance\<rparr>"
    using signed_call_accepted [OF laws, of "received_of q ns (service_get_selector c) payload" sg ThisMachine nonce sent
        P G keys s now CallerInstance nw] key signing(2) clock nonce(2)
    by (simp add: rc p_def)
  with q show ?thesis by blast
qed


text \<open>
  C15: An honest call is accepted, end to end: an instance that runs with the key file the daemon
  issued for its start signs a call to a daemon service with that key; the provider's parser
  accepts the query and reads its proof back, and the check accepts it under the instance's own
  identity, when its clock is within 30 s of the daemon's and its nonce is new.
\<close>

theorem honest_call_is_accepted:
  assumes "ed25519_laws R"
    "service_sender_ok c" "service_receiver_ok r" "call_reaches c r"
    "ss_signing c = Some \<lparr>signing_signer = sg, signing_receiver = ThisMachine\<rparr>" "signer_key sg = key"
    "issue_instance_key R i key True keys0 w0 = (Some path, keys, w0')"
    "i \<noteq> dk_boot_instance_id keys0" "i \<noteq> command_line_instance_id"
    "as_str (ss_bound_core_node c) = dk_core_node keys0" "as_str (ss_instance_id c) = i"
    "live_credential G s i = Some path"
    "length nonce = nonce_len" "nw_taken nw (ed_public R key, nonce) = None"
    "abs_diff64 (unix_millis now) (unix_millis sent) \<le> timestamp_window_ms"
    "att = service_get_selector_attachment R c ns (service_get_selector c) kd payload nonce sent"
  shows "\<exists>q. parse_inbound_query r (service_get_selector c) att = Inr q \<and>
    fst (daemon_verify P R G keys s now (received_of q ns (service_get_selector c) payload) nw) =
      Inr \<lparr>vc_core_node = dk_core_node keys0, vc_instance_id = i, vc_kind = CallerInstance\<rparr>"
  by (rule honest_call_accepted [OF assms])

subsection \<open>Samples\<close>

text \<open>A daemon with one running instance.\<close>

definition sample_pki :: "(nat, nat) pki" where
  "sample_pki =
     \<lparr>end_entity = (\<lambda>c. c \<noteq> []), verify_for_usage = (\<lambda>a rest leaf now. rest = [be_bytes 1 a]),
      leaf_verify_signature = (\<lambda>leaf alg m sig. sig = leaf),
      x509_common_name = (\<lambda>c. Some None), machine_key_algorithm = (\<lambda>_. Ed25519),
      machine_key_sign = (\<lambda>k m. be_bytes 1 k), json_to_vec = (\<lambda>j. []), json_from_slice = (\<lambda>b. None),
      base64_encode = (\<lambda>b. []), base64_decode = (\<lambda>t. None)\<rparr>"

definition sample_keys0 :: "(nat, nat, nat) daemon_keys" where
  "sample_keys0 = daemon_keys_new sample_pki length_ed25519 ''/creds'' ''lab'' ''core'' ''boot-1'' None 1"

definition sample_keys :: "(nat, nat, nat) daemon_keys" where
  "sample_keys = fst (snd (issue_instance_key length_ed25519 ''cam'' 5 True sample_keys0 sample_world))"

definition sample_live_stack :: "slab node_stack" where
  "sample_live_stack =
     write_entity 1 (set_instances [sample_running_slot\<lparr>inst_spawn_files :=
         Some \<lparr>sf_runtime_config = ''cam.json5'', sf_credential = ''/creds/instances/cam_0.key''\<rparr>\<rparr>]
       (fst sample_entity)) (insert_config camera_config core_stack)"

definition sample_daemon_target :: sender_target where
  "sample_daemon_target = TargetNode \<lparr>ti_name = Segment ''core'', ti_tag = Segment ''core''\<rparr>"

definition sample_daemon_call :: "nat service_wire_sender" where
  "sample_daemon_call = \<lparr>ss_bound_core_node = Segment ''core'', ss_instance_id = Segment ''cam'',
     ss_target_core_node = None, ss_target_instance_id = None, ss_to_target = sample_daemon_target,
     ss_service_name = Segment ''health'', ss_kind = Service,
     ss_signing = Some \<lparr>signing_signer = \<lparr>signer_key = 5, signer_machine_proof = None\<rparr>,
                        signing_receiver = ThisMachine\<rparr>\<rparr>"

definition sample_daemon_service :: service_wire_receiver where
  "sample_daemon_service = \<lparr>sr_bound_core_node = Segment ''core'', sr_instance_id = Segment ''boot-1'',
     sr_identity = sample_daemon_target, sr_service_name = Segment ''health'', sr_kind = Service,
     sr_root_prefix = service_root_prefix_of sample_daemon_target Service\<rparr>"

lemma sample_live: "live_credential slab_graph sample_live_stack ''cam'' = Some ''/creds/instances/cam_0.key''"
  by code_simp

lemma show_nat_0: "show_nat 0 = ''0''"
  by code_simp

lemma sample_issued:
  "issue_instance_key length_ed25519 ''cam'' 5 True sample_keys0 sample_world =
     (Some ''/creds/instances/cam_0.key'', sample_keys,
      create_path ''/creds/instances/cam_0.key'' sample_world)"
  by (simp add: issue_instance_key_def sample_keys_def Let_def sample_keys0_def daemon_keys_new_def
        instance_key_path_def instance_keys_dir_def show_nat_0)

theorem honest_call_is_accepted_witness:
  "\<exists>q. parse_inbound_query sample_daemon_service (service_get_selector sample_daemon_call)
        (service_get_selector_attachment length_ed25519 sample_daemon_call ''lab''
           (service_get_selector sample_daemon_call) UserRequest [7] (replicate 16 3) 5000000000) = Inr q \<and>
     fst (daemon_verify sample_pki length_ed25519 slab_graph sample_keys sample_live_stack 9000000000
           (received_of q ''lab'' (service_get_selector sample_daemon_call) [7]) nonce_window_default) =
       Inr \<lparr>vc_core_node = ''core'', vc_instance_id = ''cam'', vc_kind = CallerInstance\<rparr>"
proof -
  have ends: "service_sender_ok sample_daemon_call" "service_receiver_ok sample_daemon_service"
    "call_reaches sample_daemon_call sample_daemon_service"
    by (simp_all add: sample_daemon_call_def sample_daemon_service_def sample_daemon_target_def
          service_sender_ok_def service_receiver_ok_def call_reaches_def pin_allows_def wire_ok_defs)
  have sg: "ss_signing sample_daemon_call = Some \<lparr>signing_signer = \<lparr>signer_key = 5, signer_machine_proof = None\<rparr>,
      signing_receiver = ThisMachine\<rparr>" by (simp add: sample_daemon_call_def)
  have sk: "signer_key \<lparr>signer_key = (5::nat), signer_machine_proof = None\<rparr> = 5" by simp
  have ids: "''cam'' \<noteq> dk_boot_instance_id sample_keys0" "''cam'' \<noteq> command_line_instance_id"
    "as_str (ss_bound_core_node sample_daemon_call) = dk_core_node sample_keys0"
    "as_str (ss_instance_id sample_daemon_call) = ''cam''" "dk_core_node sample_keys0 = ''core''"
    by (simp_all add: sample_keys0_def daemon_keys_new_def command_line_instance_id_def sample_daemon_call_def)
  have n: "length (replicate 16 3 :: byte list) = nonce_len"
    "nw_taken nonce_window_default (ed_public length_ed25519 5, replicate 16 3) = None"
    by (simp_all add: nonce_len_def nonce_window_default_def)
  have clock: "abs_diff64 (unix_millis 9000000000) (unix_millis 5000000000) \<le> timestamp_window_ms"
    by (simp add: abs_diff64_def unix_millis_def timestamp_window_ms_def)
  show ?thesis
    using honest_call_is_accepted [OF length_ed25519_laws ends sg sk sample_issued ids(1-4) sample_live n clock refl,
      where kd = UserRequest and payload = "[7]" and ns = "''lab''" and P = sample_pki]
    unfolding ids(5) .
qed


definition sample_received :: received_call where
  "sample_received =
     \<lparr>rc_core_node = ''core'', rc_instance_id = ''cam'', rc_signed = sample_call,
      rc_proof = Some (signer_prove length_ed25519 \<lparr>signer_key = 5, signer_machine_proof = None\<rparr> sample_call
        ThisMachine (replicate 16 3) 5000000000)\<rparr>"

abbreviation sample_verify :: "system_time \<Rightarrow> nonce_window \<Rightarrow> (refusal + verified_caller) \<times> nonce_window" where
  "sample_verify now w \<equiv>
     daemon_verify sample_pki length_ed25519 slab_graph sample_keys sample_live_stack now sample_received w"

lemma sample_local_key:
  "local_key length_ed25519 slab_graph sample_keys sample_live_stack ''cam'' =
     Some (ed_public length_ed25519 5, CallerInstance)"
  using issued_key_is_recorded [OF sample_issued] sample_live
  by (simp add: local_key_def) (simp add: sample_keys0_def daemon_keys_new_def command_line_instance_id_def)

lemma sample_key_of:
  "key_of sample_pki length_ed25519 slab_graph sample_keys sample_live_stack sample_received p now =
     Inr (ed_public length_ed25519 5, CallerInstance)"
proof -
  have "dk_core_node sample_keys = ''core''"
    using issued_key_is_recorded(3) [OF sample_issued] by (simp add: sample_keys0_def daemon_keys_new_def)
  then show ?thesis by (simp add: key_of_def sample_received_def sample_local_key)
qed

lemma sample_accepted_at:
  assumes "nw_taken w (ed_public length_ed25519 5, replicate 16 3) = None"
    "abs_diff64 (unix_millis now) 5000 \<le> timestamp_window_ms"
  shows "sample_verify now w =
     (Inr \<lparr>vc_core_node = ''core'', vc_instance_id = ''cam'', vc_kind = CallerInstance\<rparr>,
      snd (take_nonce (ed_public length_ed25519 5) (replicate 16 3) 5000 (unix_millis now) timestamp_window_ms w))"
proof -
  define sg where "sg = \<lparr>signer_key = (5::nat), signer_machine_proof = None\<rparr>"
  have sent: "unix_millis 5000000000 = 5000" by (simp add: unix_millis_def)
  have pf: "rc_proof sample_received =
      Some (signer_prove length_ed25519 sg (rc_signed sample_received) ThisMachine (replicate 16 3) 5000000000)"
    by (simp add: sample_received_def sg_def)
  have sk: "signer_key sg = 5" by (simp add: sg_def)
  note signed_call_accepted [OF length_ed25519_laws pf, where nw = w, unfolded sk sent,
      OF sample_key_of assms(2,1)]
  then show ?thesis by (simp add: sample_received_def)
qed

lemma sample_accepted:
  assumes "nw_taken w (ed_public length_ed25519 5, replicate 16 3) = None"
  shows "sample_verify 9000000000 w =
     (Inr \<lparr>vc_core_node = ''core'', vc_instance_id = ''cam'', vc_kind = CallerInstance\<rparr>,
      snd (take_nonce (ed_public length_ed25519 5) (replicate 16 3) 5000 9000 timestamp_window_ms w))"
  using sample_accepted_at [OF assms, of 9000000000]
  by (simp add: unix_millis_def abs_diff64_def timestamp_window_ms_def)

lemma sample_window_empty: "nw_taken nonce_window_default k = None"
  by (simp add: nonce_window_default_def)

theorem accepted_call_is_authentic_witness:
  "\<exists>p key. rc_proof sample_received = Some p \<and>
     sender_has_key sample_pki length_ed25519 slab_graph sample_keys sample_live_stack 9000000000
       sample_received p key CallerInstance \<and>
     ed_verify length_ed25519 key (signed_bytes sample_call (timestamp_ms p) (proof_nonce p)) (proof_signature p)"
proof -
  have "rc_signed sample_received = sample_call" by (simp add: sample_received_def)
  with accepted_call_is_authentic [OF sample_accepted [OF sample_window_empty]] show ?thesis by auto
qed

theorem replayed_call_is_refused_witness:
  "fst (sample_verify 12000000000
     (fold (check_step sample_pki length_ed25519 slab_graph)
        [(sample_keys, sample_live_stack, 20000000000, sample_received\<lparr>rc_proof := None\<rparr>)]
        (snd (sample_verify 9000000000 nonce_window_default)))) \<in>
     {Inl (OutsideWindow (abs_diff64 (unix_millis 12000000000) 5000)), Inl SignatureRefused, Inl NonceRepeated}"
proof -
  obtain p where p: "rc_proof sample_received = Some p" "timestamp_ms p = 5000"
    by (simp add: sample_received_def signer_prove_def unix_millis_def Let_def)
  have evs: "list_all (\<lambda>ev. nonce_not_reused sample_pki length_ed25519 slab_graph (ed_public length_ed25519 5)
      (proof_nonce p) (timestamp_ms p) ev \<and> unat (unix_millis (fst (snd (snd ev)))) \<le>
        max (unat (timestamp_ms p) + 30000) (unat (unix_millis 12000000000)))
      [(sample_keys, sample_live_stack, 20000000000, sample_received\<lparr>rc_proof := None\<rparr>)]"
    by (simp add: nonce_not_reused_def unix_millis_def p(2))
  note first = sample_accepted [OF sample_window_empty]
  show ?thesis
    unfolding first snd_conv
    using replayed_call_is_refused [OF first p(1) sample_key_of evs p(1) refl refl sample_key_of] unfolding p(2) .
qed

text \<open>
  The condition on the clock is needed. A call signed at 5 s and accepted at 9 s is forgotten by a call
  checked at 46 s, and when the clock then steps back by 12 s it is accepted again.
\<close>

lemma clock_step_back_admits_replay:
  "(let w1 = snd (sample_verify 9000000000 nonce_window_default);
        w2 = snd (take_nonce (ed_public length_ed25519 1) (replicate 16 4) 46000 46000 timestamp_window_ms w1)
    in fst (sample_verify 34000000000 w2) =
         Inr \<lparr>vc_core_node = ''core'', vc_instance_id = ''cam'', vc_kind = CallerInstance\<rparr>)"
proof -
  define w1 where "w1 = snd (take_nonce (ed_public length_ed25519 5) (replicate 16 3) 5000 9000
      timestamp_window_ms nonce_window_default)"
  have "nw_taken w1 (ed_public length_ed25519 5, replicate 16 3) = Some 5000" "nw_last_prune w1 = 0"
    by (simp_all add: w1_def take_nonce_def prune_nonces_def saturating_sub64_def timestamp_window_ms_def
          nonce_window_default_def)
  moreover have "(replicate 16 4 :: byte list) \<noteq> replicate 16 3" by simp
  ultimately have "nw_taken (snd (take_nonce (ed_public length_ed25519 1) (replicate 16 4) 46000 46000
      timestamp_window_ms w1)) (ed_public length_ed25519 5, replicate 16 3) = None"
    by (simp add: take_nonce_def prune_nonces_def saturating_sub64_def timestamp_window_ms_def Let_def)
  moreover have "abs_diff64 (unix_millis 34000000000) 5000 \<le> timestamp_window_ms"
    by (simp add: unix_millis_def abs_diff64_def timestamp_window_ms_def)
  ultimately show ?thesis
    using sample_accepted [OF sample_window_empty] sample_accepted_at by (simp add: w1_def Let_def)
qed

end
