(* ===== verification/Subscription_Buffer.thy ===== *)
theory Subscription_Buffer
  imports Bytes_Text "HOL-Library.Sublist"
begin

text \<open>
  The buffers between the transport of a subscription and its reader
  (\<open>peppy-messaging-interface/src/subscription_buffer.rs\<close>): the queue that keeps the newest messages,
  the feedback stream of a goal, and the sink that a transport callback delivers to. The channel
  underneath is the flume crate, which is not part of the sources: its operations are a record \<open>F\<close>
  and the locale \<open>flume_channel\<close> states what the crate documents of the ones the buffers call.

  Every operation of a channel is atomic. A delivery is a sequence of such operations, and the reader
  takes messages between any two of them; so do the other threads that push to a queue that keeps
  the newest. A schedule is a list of events, each one atomic operation of one thread or of the
  reader. A feedback delivery holds its lock, so only the reader acts within it.
\<close>

section \<open>The channel\<close>

datatype send_result = Sent | SendFull | SendDisconnected

record ('c, 'm) flume =
  fl_bounded :: "nat \<Rightarrow> 'c"
  fl_unbounded :: 'c
  fl_try_send :: "'m \<Rightarrow> 'c \<Rightarrow> send_result \<times> 'c"
  fl_try_recv :: "'c \<Rightarrow> 'm option \<times> 'c"
  fl_drain :: "'c \<Rightarrow> 'm list \<times> 'c"
  fl_clone_receiver :: "'c \<Rightarrow> 'c"
  fl_drop_receiver :: "'c \<Rightarrow> 'c"
  fl_receiver_count :: "'c \<Rightarrow> nat"
  fl_len :: "'c \<Rightarrow> nat"
  fl_contents :: "'c \<Rightarrow> 'm list"
  fl_capacity :: "'c \<Rightarrow> nat option"

text \<open>
  A channel has room when it is unbounded or holds fewer messages than its capacity. A bounded channel
  of capacity 0 hands a message only to a reader that waits, and nothing is said of it.
\<close>

definition has_room :: "('c, 'm) flume \<Rightarrow> 'c \<Rightarrow> bool" where
  "has_room F c \<longleftrightarrow> (case fl_capacity F c of None \<Rightarrow> True | Some n \<Rightarrow> length (fl_contents F c) < n)"

locale flume_channel =
  fixes F :: "('c, 'm) flume"
  assumes bounded: "fl_contents F (fl_bounded F n) = []" "fl_capacity F (fl_bounded F n) = Some n"
      "fl_receiver_count F (fl_bounded F n) = 1"
    and unbounded: "fl_contents F (fl_unbounded F) = []" "fl_capacity F (fl_unbounded F) = None"
      "fl_receiver_count F (fl_unbounded F) = 1"
    and send_disconnected: "fl_receiver_count F c = 0 \<Longrightarrow> fl_try_send F m c = (SendDisconnected, c)"
    and send_full: "0 < fl_receiver_count F c \<Longrightarrow> \<not> has_room F c \<Longrightarrow> fl_capacity F c \<noteq> Some 0 \<Longrightarrow>
      fl_try_send F m c = (SendFull, c)"
    and send_room: "0 < fl_receiver_count F c \<Longrightarrow> has_room F c \<Longrightarrow> fst (fl_try_send F m c) = Sent \<and>
      fl_contents F (snd (fl_try_send F m c)) = fl_contents F c @ [m] \<and>
      fl_capacity F (snd (fl_try_send F m c)) = fl_capacity F c \<and>
      fl_receiver_count F (snd (fl_try_send F m c)) = fl_receiver_count F c"
    and recv_empty: "fl_contents F c = [] \<Longrightarrow> fl_try_recv F c = (None, c)"
    and recv_first: "fl_contents F c = x # xs \<Longrightarrow> fst (fl_try_recv F c) = Some x \<and>
      fl_contents F (snd (fl_try_recv F c)) = xs"
    and recv_keeps: "fl_capacity F (snd (fl_try_recv F c)) = fl_capacity F c"
      "fl_receiver_count F (snd (fl_try_recv F c)) = fl_receiver_count F c"
    and drain: "fst (fl_drain F c) = fl_contents F c" "fl_contents F (snd (fl_drain F c)) = []"
      "fl_capacity F (snd (fl_drain F c)) = fl_capacity F c"
      "fl_receiver_count F (snd (fl_drain F c)) = fl_receiver_count F c"
    and clone: "fl_contents F (fl_clone_receiver F c) = fl_contents F c"
      "fl_capacity F (fl_clone_receiver F c) = fl_capacity F c"
      "fl_receiver_count F (fl_clone_receiver F c) = fl_receiver_count F c + 1"
    and drop_receiver: "fl_capacity F (fl_drop_receiver F c) = fl_capacity F c"
      "fl_receiver_count F (fl_drop_receiver F c) = fl_receiver_count F c - 1"
    and drop_not_last: "1 < fl_receiver_count F c \<Longrightarrow>
      fl_contents F (fl_drop_receiver F c) = fl_contents F c"
    and len: "fl_len F c = length (fl_contents F c)"
begin

lemma recv_facts:
  "fst (fl_try_recv F c) = (case fl_contents F c of [] \<Rightarrow> None | x # xs \<Rightarrow> Some x)"
  "fl_contents F (snd (fl_try_recv F c)) = tl (fl_contents F c)"
  using recv_empty [of c] recv_first [of c] by (cases "fl_contents F c"; simp)+

lemmas channel_simps = bounded unbounded recv_facts recv_keeps drain clone drop_receiver drop_not_last len

end

text \<open>A channel as a list with its capacity and its number of receivers.\<close>

record 'm vec_channel =
  vc_queue :: "'m list"
  vc_cap :: "nat option"
  vc_receivers :: nat

definition vec_flume :: "('m vec_channel, 'm) flume" where
  "vec_flume =
     \<lparr>fl_bounded = (\<lambda>n. \<lparr>vc_queue = [], vc_cap = Some n, vc_receivers = 1\<rparr>),
      fl_unbounded = \<lparr>vc_queue = [], vc_cap = None, vc_receivers = 1\<rparr>,
      fl_try_send = (\<lambda>m c. if vc_receivers c = 0 then (SendDisconnected, c)
        else if (case vc_cap c of None \<Rightarrow> False | Some n \<Rightarrow> n \<le> length (vc_queue c)) then (SendFull, c)
        else (Sent, c\<lparr>vc_queue := vc_queue c @ [m]\<rparr>)),
      fl_try_recv = (\<lambda>c. case vc_queue c of [] \<Rightarrow> (None, c) | x # xs \<Rightarrow> (Some x, c\<lparr>vc_queue := xs\<rparr>)),
      fl_drain = (\<lambda>c. (vc_queue c, c\<lparr>vc_queue := []\<rparr>)),
      fl_clone_receiver = (\<lambda>c. c\<lparr>vc_receivers := vc_receivers c + 1\<rparr>),
      fl_drop_receiver = (\<lambda>c. c\<lparr>vc_receivers := vc_receivers c - 1\<rparr>),
      fl_receiver_count = vc_receivers, fl_len = (\<lambda>c. length (vc_queue c)),
      fl_contents = vc_queue, fl_capacity = vc_cap\<rparr>"

interpretation vec: flume_channel vec_flume
  by unfold_locales (auto simp: vec_flume_def has_room_def split: option.splits list.splits)

section \<open>The queue that keeps the newest messages\<close>

record 'c latest_queue =
  lq_chan :: 'c
  lq_dropped_any :: bool

definition latest_open :: "('c, 'm) flume \<Rightarrow> nat \<Rightarrow> 'c latest_queue" where
  "latest_open F capacity =
     \<lparr>lq_chan = fl_clone_receiver F (fl_bounded F (max capacity 1)), lq_dropped_any = False\<rparr>"

definition latest_reader_gone :: "('c, 'm) flume \<Rightarrow> 'c latest_queue \<Rightarrow> bool" where
  "latest_reader_gone F q \<longleftrightarrow> fl_receiver_count F (lq_chan q) \<le> 1"

definition note_dropped :: "'c latest_queue \<Rightarrow> 'c latest_queue" where
  "note_dropped q = q\<lparr>lq_dropped_any := True\<rparr>"

text \<open>
  Where a push is: it tries to send its message, or it found the queue full and takes the oldest out.
  \<open>push_try\<close> and \<open>push_make_room\<close> are the two halves of a turn of its loop; \<open>None\<close> is its return.
\<close>

datatype 'm push_pc = Trying 'm | MakingRoom 'm

definition push_try ::
    "('c, 'm) flume \<Rightarrow> 'm \<Rightarrow> 'c latest_queue \<Rightarrow> 'm push_pc option \<times> 'c latest_queue" where
  "push_try F m q =
     (case fl_try_send F m (lq_chan q) of
        (SendFull, c) \<Rightarrow> (Some (MakingRoom m), q\<lparr>lq_chan := c\<rparr>)
      | (_, c) \<Rightarrow> (None, q\<lparr>lq_chan := c\<rparr>))"

definition push_make_room :: "('c, 'm) flume \<Rightarrow> 'c latest_queue \<Rightarrow> 'c latest_queue" where
  "push_make_room F q =
     (case fl_try_recv F (lq_chan q) of
        (Some _, c) \<Rightarrow> note_dropped (q\<lparr>lq_chan := c\<rparr>)
      | (None, c) \<Rightarrow> q\<lparr>lq_chan := c\<rparr>)"

text \<open>
  \<open>LatestQueue::push\<close>. \<open>gaps\<close> holds what happens to the channel before each operation of the loop, and
  bounds the turns the loop takes: \<open>None\<close> when it has not returned by their end.
\<close>

fun push_loop ::
    "('c, 'm) flume \<Rightarrow> ('c \<Rightarrow> 'c) list \<Rightarrow> 'm \<Rightarrow> 'c latest_queue \<Rightarrow> 'c latest_queue option" where
  "push_loop F (before_try # before_recv # gaps) m q =
     (case push_try F m (q\<lparr>lq_chan := before_try (lq_chan q)\<rparr>) of
        (None, q1) \<Rightarrow> Some q1
      | (Some _, q1) \<Rightarrow>
          push_loop F gaps m (push_make_room F (q1\<lparr>lq_chan := before_recv (lq_chan q1)\<rparr>)))"
| "push_loop F _ m q = None"

definition latest_push ::
    "('c, 'm) flume \<Rightarrow> ('c \<Rightarrow> 'c) list \<Rightarrow> 'm \<Rightarrow> 'c latest_queue \<Rightarrow> 'c latest_queue option" where
  "latest_push F gaps m q = (if latest_reader_gone F q then Some q else push_loop F gaps m q)"

section \<open>The feedback stream\<close>

record topic_message =
  tm_key_expr :: string
  tm_instance_id :: string
  tm_core_node :: string
  tm_link_id :: string
  tm_payload :: "byte list"
  tm_source_timestamp_nanos :: "u64 option"

datatype feedback_state = FeedbackOpen | FeedbackEnded | FeedbackOverflowed

text \<open>\<open>fs_overflow\<close> is the signal that the clones of the \<open>FeedbackOverflow\<close> share.\<close>

record 'c feedback_sink =
  fs_chan :: 'c
  fs_bound :: nat
  fs_overflow :: bool
  fs_state :: feedback_state

definition feedback_open :: "('c, 'm) flume \<Rightarrow> nat \<Rightarrow> 'c feedback_sink" where
  "feedback_open F bound =
     \<lparr>fs_chan = fl_clone_receiver F (fl_unbounded F), fs_bound = bound, fs_overflow = False,
      fs_state = FeedbackOpen\<rparr>"

definition feedback_reader_gone :: "('c, 'm) flume \<Rightarrow> 'c feedback_sink \<Rightarrow> bool" where
  "feedback_reader_gone F s \<longleftrightarrow> fl_receiver_count F (fs_chan s) \<le> 1"

text \<open>
  \<open>FeedbackSink::deliver\<close>: what it decides under its lock, and what it then does to the channel. The
  reader may take messages in between.
\<close>

datatype feedback_verdict = Discard | EndStream | Overflow | Accept

definition feedback_check :: "('c, topic_message) flume \<Rightarrow> topic_message \<Rightarrow> 'c feedback_sink \<Rightarrow> feedback_verdict" where
  "feedback_check F m s =
     (if fs_state s \<noteq> FeedbackOpen \<or> feedback_reader_gone F s then Discard
      else if tm_payload m = [] then EndStream
      else if fl_len F (fs_chan s) \<ge> fs_bound s then Overflow
      else Accept)"

fun feedback_apply ::
    "('c, topic_message) flume \<Rightarrow> feedback_verdict \<Rightarrow> topic_message \<Rightarrow> 'c feedback_sink \<Rightarrow> 'c feedback_sink" where
  "feedback_apply F Discard m s = s"
| "feedback_apply F EndStream m s =
     s\<lparr>fs_state := FeedbackEnded, fs_chan := snd (fl_try_send F m (fs_chan s))\<rparr>"
| "feedback_apply F Overflow m s =
     s\<lparr>fs_state := FeedbackOverflowed, fs_chan := snd (fl_drain F (fs_chan s)), fs_overflow := True\<rparr>"
| "feedback_apply F Accept m s = s\<lparr>fs_chan := snd (fl_try_send F m (fs_chan s))\<rparr>"

definition feedback_deliver ::
    "('c, topic_message) flume \<Rightarrow> ('c \<Rightarrow> 'c) \<Rightarrow> topic_message \<Rightarrow> 'c feedback_sink \<Rightarrow> 'c feedback_sink" where
  "feedback_deliver F gap m s =
     feedback_apply F (feedback_check F m s) m (s\<lparr>fs_chan := gap (fs_chan s)\<rparr>)"

section \<open>The kinds of subscription\<close>

datatype topic_retention = LiveOnly | Latest nat

definition max_retention_depth :: nat where
  "max_retention_depth = 1024"

definition retention_latest :: "nat \<Rightarrow> nat + topic_retention" where
  "retention_latest depth =
     (if depth = 0 then Inr LiveOnly
      else if depth \<le> max_retention_depth then Inr (Latest depth) else Inl depth)"

fun queue_capacity :: "nat \<Rightarrow> topic_retention \<Rightarrow> nat" where
  "queue_capacity tier_size LiveOnly = tier_size"
| "queue_capacity tier_size (Latest depth) = max tier_size depth"

datatype topic_buffer = Backpressure | KeepLatest

datatype buffering = TopicBuffering topic_buffer | FeedbackBuffering nat

datatype 'c subscription_sink =
    SinkBackpressure 'c
  | SinkKeepLatest "'c latest_queue"
  | SinkFeedback "'c feedback_sink"

fun subscription_channel :: "('c, topic_message) flume \<Rightarrow> nat \<Rightarrow> buffering \<Rightarrow> 'c subscription_sink" where
  "subscription_channel F capacity (TopicBuffering Backpressure) = SinkBackpressure (fl_bounded F capacity)"
| "subscription_channel F capacity (TopicBuffering KeepLatest) = SinkKeepLatest (latest_open F capacity)"
| "subscription_channel F capacity (FeedbackBuffering bound) = SinkFeedback (feedback_open F bound)"

text \<open>
  \<open>SubscriptionSink::deliver\<close>, with what happens to the channel before each of its operations.
  \<open>None\<close> is a delivery that has not returned by then: a full queue with backpressure waits.
\<close>

fun backpressure_send ::
    "('c, 'm) flume \<Rightarrow> ('c \<Rightarrow> 'c) list \<Rightarrow> 'm \<Rightarrow> 'c \<Rightarrow> 'c option" where
  "backpressure_send F [] m c = None"
| "backpressure_send F (gap # gaps) m c =
     (case fl_try_send F m (gap c) of
        (SendFull, c1) \<Rightarrow> backpressure_send F gaps m c1
      | (_, c1) \<Rightarrow> Some c1)"

fun sink_deliver ::
    "('c, topic_message) flume \<Rightarrow> ('c \<Rightarrow> 'c) list \<Rightarrow> topic_message \<Rightarrow> 'c subscription_sink \<Rightarrow>
     'c subscription_sink option" where
  "sink_deliver F gaps m (SinkBackpressure c) =
     map_option SinkBackpressure (backpressure_send F gaps m c)"
| "sink_deliver F gaps m (SinkKeepLatest q) = map_option SinkKeepLatest (latest_push F gaps m q)"
| "sink_deliver F gaps m (SinkFeedback s) =
     (case gaps of [] \<Rightarrow> None | gap # _ \<Rightarrow> Some (SinkFeedback (feedback_deliver F gap m s)))"

fun sink_reader_gone :: "('c, topic_message) flume \<Rightarrow> 'c subscription_sink \<Rightarrow> bool" where
  "sink_reader_gone F (SinkBackpressure c) \<longleftrightarrow> fl_receiver_count F c = 0"
| "sink_reader_gone F (SinkKeepLatest q) \<longleftrightarrow> latest_reader_gone F q"
| "sink_reader_gone F (SinkFeedback s) \<longleftrightarrow> feedback_reader_gone F s"

section \<open>A push returns\<close>

text \<open>
  A queue as \<open>latest_open\<close> makes it and as it stays: it holds at most its capacity and its own receiver.
  \<open>reads_only\<close> says that a gap is the reader's: it takes messages from the front and may drop its
  receiver. \<open>keep_newest\<close> is what the queue is meant to hold.
\<close>

definition latest_ok :: "('c, 'm) flume \<Rightarrow> nat \<Rightarrow> 'c latest_queue \<Rightarrow> bool" where
  "latest_ok F n q \<longleftrightarrow> 0 < n \<and> fl_capacity F (lq_chan q) = Some n \<and> length (fl_contents F (lq_chan q)) \<le> n \<and>
     0 < fl_receiver_count F (lq_chan q)"

definition reads_only :: "('c, 'm) flume \<Rightarrow> ('c \<Rightarrow> 'c) \<Rightarrow> bool" where
  "reads_only F gap \<longleftrightarrow> (\<forall>c. (\<exists>k. fl_contents F (gap c) = drop k (fl_contents F c)) \<and>
     fl_capacity F (gap c) = fl_capacity F c \<and>
     (0 < fl_receiver_count F c \<longrightarrow> 0 < fl_receiver_count F (gap c)))"

definition keep_newest :: "nat \<Rightarrow> 'm list \<Rightarrow> 'm list" where
  "keep_newest n xs = drop (length xs - n) xs"

lemma reads_only_id: "reads_only F id" "reads_only F (\<lambda>c. c)"
  by (auto simp: reads_only_def intro: exI [of _ 0])

context flume_channel
begin

lemma latest_open_ok: "latest_ok F (max capacity 1) (latest_open F capacity)"
  by (simp add: latest_ok_def latest_open_def channel_simps)

lemma push_try_room:
  assumes "latest_ok F n q" "length (fl_contents F (lq_chan q)) < n"
  shows "fst (push_try F m q) = None" "fst (fl_try_send F m (lq_chan q)) = Sent"
    "latest_ok F n (snd (push_try F m q))"
    "fl_contents F (lq_chan (snd (push_try F m q))) = fl_contents F (lq_chan q) @ [m]"
    "fl_receiver_count F (lq_chan (snd (push_try F m q))) = fl_receiver_count F (lq_chan q)"
  using assms send_room [of "lq_chan q" m]
  by (auto simp: push_try_def latest_ok_def has_room_def split: prod.splits send_result.splits)

lemma push_try_full:
  assumes "latest_ok F n q" "length (fl_contents F (lq_chan q)) = n"
  shows "push_try F m q = (Some (MakingRoom m), q)" "fst (fl_try_send F m (lq_chan q)) = SendFull"
  using assms send_full [of "lq_chan q" m]
  by (auto simp: push_try_def latest_ok_def has_room_def)

lemma push_make_room_facts:
  "fl_contents F (lq_chan (push_make_room F q)) = tl (fl_contents F (lq_chan q))"
  "fl_capacity F (lq_chan (push_make_room F q)) = fl_capacity F (lq_chan q)"
  "fl_receiver_count F (lq_chan (push_make_room F q)) = fl_receiver_count F (lq_chan q)"
  using recv_facts(2) [of "lq_chan q"] recv_keeps [of "lq_chan q"]
  by (auto simp: push_make_room_def note_dropped_def split: prod.splits option.splits)

lemma push_make_room_ok: "latest_ok F n q \<Longrightarrow> latest_ok F n (push_make_room F q)"
  by (auto simp: latest_ok_def push_make_room_facts)

lemma gap_ok:
  assumes "latest_ok F n q" "reads_only F gap"
  shows "latest_ok F n (q\<lparr>lq_chan := gap (lq_chan q)\<rparr>)"
    "\<exists>k. fl_contents F (gap (lq_chan q)) = drop k (fl_contents F (lq_chan q))"
  using assms unfolding latest_ok_def reads_only_def by (metis (no_types, lifting) latest_queue.select_convs(1)
      latest_queue.surjective latest_queue.update_convs(1) length_drop diff_le_self le_trans, blast)

lemma push_loop_room:
  assumes "latest_ok F n q" "reads_only F before_try" "length (fl_contents F (lq_chan q)) < n"
  shows "\<exists>q' k. push_loop F (before_try # before_recv # gaps) m q = Some q' \<and> latest_ok F n q' \<and>
    fl_contents F (lq_chan q') = drop k (fl_contents F (lq_chan q)) @ [m]"
proof -
  obtain k where k: "fl_contents F (before_try (lq_chan q)) = drop k (fl_contents F (lq_chan q))"
    using gap_ok(2) [OF assms(1,2)] by blast
  have "length (fl_contents F (lq_chan (q\<lparr>lq_chan := before_try (lq_chan q)\<rparr>))) < n"
    using assms(3) by (simp add: k)
  from push_try_room [OF gap_ok(1) [OF assms(1,2)] this, of m] show ?thesis
    by (auto simp: k split: prod.splits)
qed

lemma push_loop_returns:
  assumes "latest_ok F n q" "list_all (reads_only F) [g1, g2, g3]"
  shows "\<exists>q' k. push_loop F (g1 # g2 # g3 # g4 # gaps) m q = Some q' \<and> latest_ok F n q' \<and>
    fl_contents F (lq_chan q') = drop k (fl_contents F (lq_chan q)) @ [m]"
proof -
  let ?q1 = "q\<lparr>lq_chan := g1 (lq_chan q)\<rparr>"
  obtain k1 where k1: "fl_contents F (lq_chan ?q1) = drop k1 (fl_contents F (lq_chan q))"
    using gap_ok(2) [OF assms(1), of g1] assms(2) by auto
  have ok1: "latest_ok F n ?q1" using gap_ok(1) [OF assms(1), of g1] assms(2) by simp
  show ?thesis
  proof (cases "length (fl_contents F (lq_chan ?q1)) < n")
    case True
    note room = push_try_room [OF ok1 True, of m]
    have "push_loop F (g1 # g2 # g3 # g4 # gaps) m q = Some (snd (push_try F m ?q1))"
      using room(1) by (simp add: case_prod_beta)
    with room(3,4) k1 show ?thesis by metis
  next
    case False
    then have full: "length (fl_contents F (lq_chan ?q1)) = n" using ok1 by (simp add: latest_ok_def)
    let ?q2 = "?q1\<lparr>lq_chan := g2 (lq_chan ?q1)\<rparr>"
    let ?q3 = "push_make_room F ?q2"
    have ok3: "latest_ok F n ?q3" using push_make_room_ok [OF gap_ok(1) [OF ok1, of g2]] assms(2) by simp
    obtain k2 where k2: "fl_contents F (lq_chan ?q2) = drop k2 (fl_contents F (lq_chan ?q1))"
      using gap_ok(2) [OF ok1, of g2] assms(2) by auto
    then have c3: "fl_contents F (lq_chan ?q3) = drop (Suc (k2 + k1)) (fl_contents F (lq_chan q))"
      by (simp only: push_make_room_facts k1 drop_drop tl_drop drop_Suc)
    have "length (fl_contents F (lq_chan ?q3)) < n"
      using full ok1 unfolding push_make_room_facts k2 by (auto simp: latest_ok_def)
    from push_loop_room [OF ok3 _ this, of g3 g4 gaps m] assms(2)
    obtain q' k where "push_loop F (g3 # g4 # gaps) m ?q3 = Some q'" "latest_ok F n q'"
      "fl_contents F (lq_chan q') = drop k (fl_contents F (lq_chan ?q3)) @ [m]" by auto
    moreover have "push_loop F (g1 # g2 # g3 # g4 # gaps) m q = push_loop F (g3 # g4 # gaps) m ?q3"
      using push_try_full(1) [OF ok1 full, of m] by simp
    ultimately show ?thesis unfolding c3 drop_drop by metis
  qed
qed

lemma push_alone:
  assumes "latest_ok F n q" "push_loop F (id # id # id # id # gaps) m q = Some q'"
  shows "fl_contents F (lq_chan q') = keep_newest n (fl_contents F (lq_chan q) @ [m])"
proof (cases "length (fl_contents F (lq_chan q)) < n")
  case True
  with push_try_room [OF assms(1) True, of m] assms(2) show ?thesis
    by (auto simp: keep_newest_def split: prod.splits)
next
  case False
  then have full: "length (fl_contents F (lq_chan q)) = n" using assms(1) by (simp add: latest_ok_def)
  have "length (fl_contents F (lq_chan (push_make_room F q))) < n"
    using assms(1) full by (auto simp: push_make_room_facts latest_ok_def)
  from push_try_room [OF push_make_room_ok [OF assms(1)] this, of m] assms(2) push_try_full(1) [OF assms(1) full, of m]
  show ?thesis
    using full assms(1)
    by (auto simp: keep_newest_def push_make_room_facts latest_ok_def drop_Suc split: prod.splits)
qed

end

section \<open>The sink of a subscription\<close>

text \<open>
  A queue with backpressure waits exactly while it is full, and loses nothing: what the reader has not
  taken is followed by the message. The other two sinks never wait. The queue of a retaining topic
  has room for the messages replayed at a join.
\<close>

context flume_channel
begin

lemma backpressure_waits_while_full:
  assumes "fl_capacity F c = Some n" "0 < n" "0 < fl_receiver_count F c"
  shows "backpressure_send F (replicate (Suc k) id) m c = None \<longleftrightarrow> \<not> has_room F c"
proof (cases "has_room F c")
  case True
  then show ?thesis using send_room [OF assms(3) True, of m] by (simp add: case_prod_beta)
next
  case False
  have "fl_try_send F m c = (SendFull, c)" using send_full [OF assms(3) False] assms(1,2) by simp
  then have "backpressure_send F (replicate j id) m c = None" for j by (induction j) simp_all
  with False show ?thesis by blast
qed

lemma backpressure_loses_nothing:
  assumes "fl_capacity F c = Some n" "0 < n" "0 < fl_receiver_count F c" "list_all (reads_only F) gaps"
    "backpressure_send F gaps m c = Some c'"
  shows "\<exists>k. fl_contents F c' = drop k (fl_contents F c) @ [m] \<and> length (fl_contents F c') \<le> n"
  using assms
proof (induction gaps arbitrary: c)
  case (Cons gap gaps)
  obtain k where k: "fl_contents F (gap c) = drop k (fl_contents F c)" "fl_capacity F (gap c) = Some n"
    "0 < fl_receiver_count F (gap c)"
    using Cons.prems(1,3,4) unfolding reads_only_def list.pred_inject(2) by (metis (no_types, lifting))
  show ?case
  proof (cases "has_room F (gap c)")
    case True
    with send_room [OF k(3) True, of m] Cons.prems(5) k(1,2) show ?thesis
      by (auto simp: case_prod_beta has_room_def)
  next
    case False
    have "fl_try_send F m (gap c) = (SendFull, gap c)" using send_full [OF k(3) False] k(2) Cons.prems(2) by simp
    then have "backpressure_send F gaps m (gap c) = Some c'" using Cons.prems(5) by simp
    from Cons.IH [OF k(2) Cons.prems(2) k(3) _ this] Cons.prems(4) show ?thesis
      unfolding k(1) drop_drop by auto
  qed
qed simp

lemma keep_latest_never_waits:
  assumes "latest_ok F n q" "list_all (reads_only F) [g1, g2, g3]"
  shows "\<exists>q'. latest_push F (g1 # g2 # g3 # g4 # gaps) m q = Some q'"
  using push_loop_returns [OF assms, of g4 gaps m] by (auto simp: latest_push_def)

end

text \<open>
  A subscription that keeps the newest messages, or a feedback stream, never makes the transport wait,
  and its reader is there from the start.
\<close>

lemma fresh_sink_never_waits:
  assumes "flume_channel F" "list_all (reads_only F) [g1, g2, g3]" "buffering \<noteq> TopicBuffering Backpressure"
  shows "sink_deliver F (g1 # g2 # g3 # g4 # gaps) m (subscription_channel F capacity buffering) \<noteq> None"
    "\<not> sink_reader_gone F (subscription_channel F capacity buffering)"
proof -
  have push: "latest_push F (g1 # g2 # g3 # g4 # gaps) m (latest_open F capacity) \<noteq> None"
    using flume_channel.keep_latest_never_waits [OF assms(1) flume_channel.latest_open_ok [OF assms(1)] assms(2)]
    by blast
  have kinds: "buffering = TopicBuffering KeepLatest \<or> (\<exists>bound. buffering = FeedbackBuffering bound)"
    using assms(3) by (metis buffering.exhaust topic_buffer.exhaust)
  then show "sink_deliver F (g1 # g2 # g3 # g4 # gaps) m (subscription_channel F capacity buffering) \<noteq> None"
    using push by auto
  show "\<not> sink_reader_gone F (subscription_channel F capacity buffering)"
    using kinds flume_channel.bounded(3) [OF assms(1)] flume_channel.unbounded(3) [OF assms(1)]
      flume_channel.clone(3) [OF assms(1)]
    by (auto simp: latest_reader_gone_def feedback_reader_gone_def latest_open_def feedback_open_def)
qed

lemma replay_fits:
  assumes "retention_latest depth = Inr retention"
  shows "depth \<le> queue_capacity tier_size retention"
    "length replayed \<le> depth \<Longrightarrow> keep_newest (queue_capacity tier_size retention) replayed = replayed"
  using assms by (auto simp: retention_latest_def keep_newest_def split: if_splits)

section \<open>Pushes from several threads\<close>

text \<open>
  The threads of the transport that push to one queue, and its reader. \<open>ls_threads\<close> holds where the
  push of each thread is. Three logs follow a run: the messages whose push began, the messages the
  queue took, and those taken out of it, read by the reader (\<open>True\<close>) or dropped to make room.
\<close>

record ('c, 'm) latest_sys =
  ls_queue :: "'c latest_queue"
  ls_threads :: "'m push_pc option list"
  ls_pushed :: "(nat \<times> 'm) list"
  ls_sent :: "(nat \<times> 'm) list"
  ls_taken :: "(bool \<times> 'm) list"

datatype 'm latest_event = Push nat 'm | Advance nat | ReadOne | ReaderLeaves

definition taken_log :: "bool \<Rightarrow> 'm option \<Rightarrow> (bool \<times> 'm) list" where
  "taken_log by_reader x = (case x of None \<Rightarrow> [] | Some m \<Rightarrow> [(by_reader, m)])"

fun latest_step :: "('c, 'm) flume \<Rightarrow> 'm latest_event \<Rightarrow> ('c, 'm) latest_sys \<Rightarrow> ('c, 'm) latest_sys" where
  "latest_step F (Push t m) s =
     (if t < length (ls_threads s) \<and> Option.is_none (ls_threads s ! t) \<and> \<not> latest_reader_gone F (ls_queue s)
      then s\<lparr>ls_threads := (ls_threads s)[t := Some (Trying m)], ls_pushed := ls_pushed s @ [(t, m)]\<rparr>
      else s)"
| "latest_step F (Advance t) s =
     (if t < length (ls_threads s)
      then case ls_threads s ! t of
          None \<Rightarrow> s
        | Some (Trying m) \<Rightarrow>
            s\<lparr>ls_queue := snd (push_try F m (ls_queue s)),
              ls_threads := (ls_threads s)[t := fst (push_try F m (ls_queue s))],
              ls_sent := (if fst (fl_try_send F m (lq_chan (ls_queue s))) = Sent
                          then ls_sent s @ [(t, m)] else ls_sent s)\<rparr>
        | Some (MakingRoom m) \<Rightarrow>
            s\<lparr>ls_queue := push_make_room F (ls_queue s), ls_threads := (ls_threads s)[t := Some (Trying m)],
              ls_taken := ls_taken s @ taken_log False (fst (fl_try_recv F (lq_chan (ls_queue s))))\<rparr>
      else s)"
| "latest_step F ReadOne s =
     (if latest_reader_gone F (ls_queue s) then s
      else s\<lparr>ls_queue := (ls_queue s)\<lparr>lq_chan := snd (fl_try_recv F (lq_chan (ls_queue s)))\<rparr>,
             ls_taken := ls_taken s @ taken_log True (fst (fl_try_recv F (lq_chan (ls_queue s))))\<rparr>)"
| "latest_step F ReaderLeaves s =
     (if latest_reader_gone F (ls_queue s) then s
      else s\<lparr>ls_queue := (ls_queue s)\<lparr>lq_chan := fl_drop_receiver F (lq_chan (ls_queue s))\<rparr>\<rparr>)"

definition latest_start :: "('c, 'm) flume \<Rightarrow> nat \<Rightarrow> nat \<Rightarrow> ('c, 'm) latest_sys" where
  "latest_start F capacity threads =
     \<lparr>ls_queue = latest_open F capacity, ls_threads = replicate threads None, ls_pushed = [], ls_sent = [],
      ls_taken = []\<rparr>"

definition latest_run :: "('c, 'm) flume \<Rightarrow> 'm latest_event list \<Rightarrow> ('c, 'm) latest_sys \<Rightarrow> ('c, 'm) latest_sys" where
  "latest_run F evs s = fold (latest_step F) evs s"

abbreviation ls_unread :: "('c, 'm) flume \<Rightarrow> ('c, 'm) latest_sys \<Rightarrow> 'm list" where
  "ls_unread F s \<equiv> fl_contents F (lq_chan (ls_queue s))"

text \<open>The message a thread holds, and how many threads try to send or make room.\<close>

fun in_hand :: "nat \<Rightarrow> 'm push_pc option \<Rightarrow> (nat \<times> 'm) list" where
  "in_hand t None = []"
| "in_hand t (Some (Trying m)) = [(t, m)]"
| "in_hand t (Some (MakingRoom m)) = [(t, m)]"

fun tries :: "'m push_pc option \<Rightarrow> nat" where
  "tries (Some (Trying m)) = 1"
| "tries _ = 0"

fun makes_room :: "'m push_pc option \<Rightarrow> nat" where
  "makes_room (Some (MakingRoom m)) = 1"
| "makes_room _ = 0"

abbreviation total :: "('a \<Rightarrow> nat) \<Rightarrow> 'a list \<Rightarrow> nat" where
  "total f xs \<equiv> sum_list (map f xs)"

lemma total_update:
  assumes "t < length xs"
  shows "total f (xs[t := v]) + f (xs ! t) = total f xs + f v"
proof -
  have "f (xs ! t) \<le> total f xs" using assms by (auto intro: member_le_sum_list)
  then show ?thesis using assms by (simp add: map_update sum_list_update)
qed

text \<open>
  The invariant of a run: what the queue took is what was taken out followed by what it holds; the
  messages of a thread were taken in the order of its pushes, but for the one in its hand; and while
  nobody reads, a thread that makes room leaves the queue with as many threads to fill it again.
\<close>

definition order_ok :: "('c, 'm) latest_sys \<Rightarrow> nat \<Rightarrow> bool" where
  "order_ok s t \<longleftrightarrow>
     filter (\<lambda>p. fst p = t) (ls_sent s) @ in_hand t (ls_threads s ! t) = filter (\<lambda>p. fst p = t) (ls_pushed s)"

definition fill_ok :: "nat \<Rightarrow> nat \<Rightarrow> nat \<Rightarrow> nat \<Rightarrow> nat \<Rightarrow> bool" where
  "fill_ok n pushed unread trying making_room \<longleftrightarrow>
     (0 < making_room \<longrightarrow> n \<le> unread + trying) \<and> min n pushed \<le> unread + trying + making_room"

definition latest_inv :: "('c, 'm) flume \<Rightarrow> nat \<Rightarrow> ('c, 'm) latest_sys \<Rightarrow> bool" where
  "latest_inv F n s \<longleftrightarrow>
     latest_ok F n (ls_queue s) \<and>
     map snd (ls_sent s) = map snd (ls_taken s) @ ls_unread F s \<and>
     (\<forall>t < length (ls_threads s). order_ok s t) \<and>
     length (ls_pushed s) = length (ls_sent s) + total tries (ls_threads s) + total makes_room (ls_threads s) \<and>
     (True \<in> fst ` set (ls_taken s) \<or>
        fill_ok n (length (ls_pushed s)) (length (ls_unread F s)) (total tries (ls_threads s))
          (total makes_room (ls_threads s)))"

lemma fill_ok_steps:
  "fill_ok n p u a b \<Longrightarrow> fill_ok n (Suc p) u (Suc a) b"
  "fill_ok n p u (Suc a) b \<Longrightarrow> fill_ok n p (Suc u) a b"
  "fill_ok n p n (Suc a) b \<Longrightarrow> fill_ok n p n a (Suc b)"
  "fill_ok n p u a (Suc b) \<Longrightarrow> fill_ok n p (u - Suc 0) (Suc a) b"
  by (auto simp: fill_ok_def min_def split: if_splits)

lemma order_ok_update:
  assumes "\<forall>t < length (ls_threads s). order_ok s t" "t < length (ls_threads s)"
    "ls_threads s' = (ls_threads s)[t := pc]"
    "ls_sent s' = ls_sent s @ sent" "ls_pushed s' = ls_pushed s @ pushed"
    "list_all (\<lambda>p. fst p = t) sent" "list_all (\<lambda>p. fst p = t) pushed"
    "sent @ in_hand t pc = in_hand t (ls_threads s ! t) @ pushed"
  shows "\<forall>t' < length (ls_threads s'). order_ok s' t'"
proof (intro allI impI)
  fix t' assume t': "t' < length (ls_threads s')"
  have none: "filter (\<lambda>p. fst p = t') xs = []" if "list_all (\<lambda>p. fst p = t) xs" "t' \<noteq> t" for xs
    using that by (auto simp: list_all_iff filter_empty_conv)
  have all: "filter (\<lambda>p. fst p = t) xs = xs" if "list_all (\<lambda>p. fst p = t) xs" for xs
    using that by (simp add: list_all_iff filter_id_conv)
  show "order_ok s' t'"
  proof (cases "t' = t")
    case True
    have "filter (\<lambda>p. fst p = t) (ls_sent s) @ in_hand t (ls_threads s ! t) @ pushed =
        filter (\<lambda>p. fst p = t) (ls_pushed s) @ pushed"
      using assms(1,2) by (simp add: order_ok_def flip: append_assoc)
    with True assms(2-8) show ?thesis by (simp add: order_ok_def all)
  next
    case False
    with assms t' none [OF assms(6) False] none [OF assms(7) False] show ?thesis
      by (simp add: order_ok_def)
  qed
qed

context flume_channel
begin

lemma latest_start_inv: "latest_inv F (max capacity 1) (latest_start F capacity threads)"
proof -
  have "latest_ok F (max capacity (Suc 0)) (ls_queue (latest_start F capacity threads :: ('c, 'm) latest_sys))"
    using latest_open_ok [of capacity] by (simp add: latest_start_def)
  then show ?thesis
    by (simp add: latest_inv_def fill_ok_def order_ok_def)
      (simp add: latest_start_def latest_open_def channel_simps sum_list_replicate)
qed

lemma latest_inv_push:
  assumes inv: "latest_inv F n s" shows "latest_inv F n (latest_step F (Push t m) s)"
proof (cases "t < length (ls_threads s) \<and> Option.is_none (ls_threads s ! t) \<and>
    \<not> latest_reader_gone F (ls_queue s)")
  case True
  then have t: "t < length (ls_threads s)" "ls_threads s ! t = None" by (auto simp: Option.is_none_def)
  let ?s = "latest_step F (Push t m) s"
  have step: "?s = s\<lparr>ls_threads := (ls_threads s)[t := Some (Trying m)], ls_pushed := ls_pushed s @ [(t, m)]\<rparr>"
    using True by simp
  have "\<forall>t' < length (ls_threads ?s). order_ok ?s t'"
    by (rule order_ok_update [of s t _ "Some (Trying m)" "[]" "[(t, m)]"])
      (use inv t in \<open>simp_all add: step latest_inv_def del: latest_step.simps\<close>)
  moreover have "total tries (ls_threads ?s) = Suc (total tries (ls_threads s))"
    "total makes_room (ls_threads ?s) = total makes_room (ls_threads s)"
    using total_update [OF t(1), of tries "Some (Trying m)"] total_update [OF t(1), of makes_room "Some (Trying m)"]
    by (simp_all add: t(2) step del: latest_step.simps)
  ultimately show ?thesis
    using inv unfolding latest_inv_def
    by (auto simp: step fill_ok_steps(1) simp del: latest_step.simps)
qed (use assms in auto)

lemma latest_inv_try:
  assumes inv: "latest_inv F n s" and t: "t < length (ls_threads s)" "ls_threads s ! t = Some (Trying m)"
  shows "latest_inv F n (latest_step F (Advance t) s)"
proof -
  have ok: "latest_ok F n (ls_queue s)" using inv by (simp add: latest_inv_def)
  let ?s = "latest_step F (Advance t) s"
  note tot = total_update [OF t(1), unfolded t(2)]
  show ?thesis
  proof (cases "length (ls_unread F s) < n")
    case True
    note room = push_try_room [OF ok True, of m]
    have step: "?s = s\<lparr>ls_queue := snd (push_try F m (ls_queue s)), ls_threads := (ls_threads s)[t := None],
        ls_sent := ls_sent s @ [(t, m)]\<rparr>"
      using t room(1,2) by simp
    have "\<forall>t' < length (ls_threads ?s). order_ok ?s t'"
      by (rule order_ok_update [of s t _ None "[(t, m)]" "[]"])
        (use inv t in \<open>simp_all add: step latest_inv_def del: latest_step.simps\<close>)
    moreover have "total tries (ls_threads s) = Suc (total tries (ls_threads ?s))"
      "total makes_room (ls_threads ?s) = total makes_room (ls_threads s)"
      using tot [of tries None] tot [of makes_room None] by (simp_all add: step del: latest_step.simps)
    ultimately show ?thesis
      using inv room(3,4) unfolding latest_inv_def
      by (auto simp: step fill_ok_steps(2) simp del: latest_step.simps)
  next
    case False
    then have full: "length (ls_unread F s) = n" using ok by (simp add: latest_ok_def)
    have step: "?s = s\<lparr>ls_threads := (ls_threads s)[t := Some (MakingRoom m)]\<rparr>"
      using t push_try_full [OF ok full, of m] by simp
    have "\<forall>t' < length (ls_threads ?s). order_ok ?s t'"
      by (rule order_ok_update [of s t _ "Some (MakingRoom m)" "[]" "[]"])
        (use inv t in \<open>simp_all add: step latest_inv_def del: latest_step.simps\<close>)
    moreover have "total tries (ls_threads s) = Suc (total tries (ls_threads ?s))"
      "total makes_room (ls_threads ?s) = Suc (total makes_room (ls_threads s))"
      using tot [of tries "Some (MakingRoom m)"] tot [of makes_room "Some (MakingRoom m)"]
      by (simp_all add: step del: latest_step.simps)
    ultimately show ?thesis
      using inv full unfolding latest_inv_def
      by (auto simp: step fill_ok_steps(3) simp del: latest_step.simps)
  qed
qed

lemma taken_out:
  "map snd (taken_log b (fst (fl_try_recv F c))) @ fl_contents F (snd (fl_try_recv F c)) = fl_contents F c"
  "True \<notin> fst ` set (taken_log False x)"
  by (auto simp: taken_log_def recv_facts split: list.split option.splits)

lemma latest_inv_room:
  assumes inv: "latest_inv F n s" and t: "t < length (ls_threads s)" "ls_threads s ! t = Some (MakingRoom m)"
  shows "latest_inv F n (latest_step F (Advance t) s)"
proof -
  let ?s = "latest_step F (Advance t) s" and ?q = "push_make_room F (ls_queue s)"
  let ?log = "taken_log False (fst (fl_try_recv F (lq_chan (ls_queue s))))"
  have step: "?s = s\<lparr>ls_queue := ?q, ls_threads := (ls_threads s)[t := Some (Trying m)],
      ls_taken := ls_taken s @ ?log\<rparr>" using t by simp
  have ok: "latest_ok F n ?q" using inv by (simp add: latest_inv_def push_make_room_ok)
  have out: "map snd ?log @ fl_contents F (lq_chan ?q) = ls_unread F s"
    using taken_out(1) [of False "lq_chan (ls_queue s)"] by (simp add: push_make_room_facts recv_facts)
  note tot = total_update [OF t(1), unfolded t(2)]
  have "\<forall>t' < length (ls_threads ?s). order_ok ?s t'"
    by (rule order_ok_update [of s t _ "Some (Trying m)" "[]" "[]"])
      (use inv t in \<open>simp_all add: step latest_inv_def del: latest_step.simps\<close>)
  moreover have "total tries (ls_threads ?s) = Suc (total tries (ls_threads s))"
    "total makes_room (ls_threads s) = Suc (total makes_room (ls_threads ?s))"
    using tot [of tries "Some (Trying m)"] tot [of makes_room "Some (Trying m)"]
    by (simp_all add: step del: latest_step.simps)
  moreover have "length (fl_contents F (lq_chan ?q)) = length (ls_unread F s) - 1"
    by (simp add: push_make_room_facts)
  ultimately show ?thesis
    using inv ok out unfolding latest_inv_def
    by (auto simp: step fill_ok_steps(4) simp del: latest_step.simps)
qed

lemma latest_inv_reader:
  assumes inv: "latest_inv F n s"
  shows "latest_inv F n (latest_step F ReadOne s)" "latest_inv F n (latest_step F ReaderLeaves s)"
proof -
  have same: "order_ok (s\<lparr>ls_queue := q, ls_taken := l\<rparr>) t = order_ok s t" for q l t
    by (simp add: order_ok_def)
  let ?c = "lq_chan (ls_queue s)"
  have ok: "latest_ok F n ((ls_queue s)\<lparr>lq_chan := snd (fl_try_recv F ?c)\<rparr>)"
    using inv by (auto simp: latest_inv_def latest_ok_def recv_facts recv_keeps)
  have "ls_unread F s = [] \<or> True \<in> fst ` set (taken_log True (fst (fl_try_recv F ?c)))"
    by (auto simp: taken_log_def recv_facts split: list.split)
  then show "latest_inv F n (latest_step F ReadOne s)"
    using inv ok taken_out(1) [of True ?c]
    by (auto simp: latest_inv_def same recv_facts(2) image_Un)
  show "latest_inv F n (latest_step F ReaderLeaves s)"
    using inv by (auto simp: latest_inv_def latest_ok_def latest_reader_gone_def drop_receiver drop_not_last order_ok_def)
qed

lemma latest_step_inv:
  assumes "latest_inv F n s" shows "latest_inv F n (latest_step F ev s)"
proof (cases ev)
  case (Push t m)
  then show ?thesis using assms by (simp only: latest_inv_push)
next
  case (Advance t)
  consider "t < length (ls_threads s) \<Longrightarrow> ls_threads s ! t = None"
    | m where "t < length (ls_threads s)" "ls_threads s ! t = Some (Trying m)"
    | m where "t < length (ls_threads s)" "ls_threads s ! t = Some (MakingRoom m)"
    by (metis option.exhaust push_pc.exhaust)
  then show ?thesis
  proof cases
    case 1
    with assms show ?thesis by (simp add: Advance)
  next
    case 2
    from latest_inv_try [OF assms this] show ?thesis by (simp only: Advance)
  next
    case 3
    from latest_inv_room [OF assms this] show ?thesis by (simp only: Advance)
  qed
next
  case ReadOne
  from latest_inv_reader(1) [OF assms] show ?thesis by (simp only: ReadOne)
next
  case ReaderLeaves
  from latest_inv_reader(2) [OF assms] show ?thesis by (simp only: ReaderLeaves)
qed

lemma latest_run_inv: "latest_inv F n s \<Longrightarrow> latest_inv F n (latest_run F evs s)"
  unfolding latest_run_def by (induction evs arbitrary: s) (simp, metis fold_simps(2) latest_step_inv)

lemma latest_step_threads: "length (ls_threads (latest_step F ev s)) = length (ls_threads s)"
  by (cases ev) (auto split: option.split push_pc.split)

lemma latest_run_threads: "length (ls_threads (latest_run F evs s)) = length (ls_threads s)"
  unfolding latest_run_def by (induction evs arbitrary: s) (simp_all add: latest_step_threads)

end

section \<open>A feedback stream and its reader\<close>

fun recv_n :: "('c, 'm) flume \<Rightarrow> nat \<Rightarrow> 'c \<Rightarrow> 'm list \<times> 'c" where
  "recv_n F 0 c = ([], c)"
| "recv_n F (Suc k) c =
     (case fl_try_recv F c of
        (None, c1) \<Rightarrow> ([], c1)
      | (Some x, c1) \<Rightarrow> (case recv_n F k c1 of (xs, c2) \<Rightarrow> (x # xs, c2)))"

text \<open>
  The deliveries to one feedback sink and its reader. \<open>Deliver k m\<close> is a delivery of \<open>m\<close> within which
  the reader takes \<open>k\<close> messages, after the sink decided and before it acts. The logs hold what was
  delivered while the reader was there and what it read.
\<close>

record 'c feedback_sys =
  fb_sink :: "'c feedback_sink"
  fb_delivered :: "topic_message list"
  fb_read :: "topic_message list"

datatype feedback_event = Deliver nat topic_message | FeedbackRead | FeedbackReaderLeaves

fun feedback_step ::
    "('c, topic_message) flume \<Rightarrow> feedback_event \<Rightarrow> 'c feedback_sys \<Rightarrow> 'c feedback_sys" where
  "feedback_step F (Deliver k m) s =
     (if feedback_reader_gone F (fb_sink s) then s\<lparr>fb_sink := feedback_deliver F id m (fb_sink s)\<rparr>
      else s\<lparr>fb_sink := feedback_deliver F (\<lambda>c. snd (recv_n F k c)) m (fb_sink s),
             fb_delivered := fb_delivered s @ [m],
             fb_read := fb_read s @ fst (recv_n F k (fs_chan (fb_sink s)))\<rparr>)"
| "feedback_step F FeedbackRead s =
     (if feedback_reader_gone F (fb_sink s) then s
      else s\<lparr>fb_sink := (fb_sink s)\<lparr>fs_chan := snd (recv_n F 1 (fs_chan (fb_sink s)))\<rparr>,
             fb_read := fb_read s @ fst (recv_n F 1 (fs_chan (fb_sink s)))\<rparr>)"
| "feedback_step F FeedbackReaderLeaves s =
     (if feedback_reader_gone F (fb_sink s) then s
      else s\<lparr>fb_sink := (fb_sink s)\<lparr>fs_chan := fl_drop_receiver F (fs_chan (fb_sink s))\<rparr>\<rparr>)"

definition feedback_start :: "('c, topic_message) flume \<Rightarrow> nat \<Rightarrow> 'c feedback_sys" where
  "feedback_start F bound = \<lparr>fb_sink = feedback_open F bound, fb_delivered = [], fb_read = []\<rparr>"

definition feedback_run ::
    "('c, topic_message) flume \<Rightarrow> feedback_event list \<Rightarrow> 'c feedback_sys \<Rightarrow> 'c feedback_sys" where
  "feedback_run F evs s = fold (feedback_step F) evs s"

definition is_feedback :: "topic_message \<Rightarrow> bool" where
  "is_feedback m \<longleftrightarrow> tm_payload m \<noteq> []"

text \<open>
  What a stream has promised, by its state: open, its reader has or will get every message so far and
  at most the bound wait; ended, exactly the messages up to the end; overflowed, nothing waits, the
  signal is up, and the reader got the first messages, some message having found the bound waiting.
\<close>

fun stream_promise ::
    "nat \<Rightarrow> feedback_state \<Rightarrow> bool \<Rightarrow> topic_message list \<Rightarrow> topic_message list \<Rightarrow> topic_message list \<Rightarrow> bool" where
  "stream_promise bound FeedbackOpen overflow delivered got unread \<longleftrightarrow>
     \<not> overflow \<and> got @ unread = delivered \<and> length unread \<le> bound \<and> list_all is_feedback delivered"
| "stream_promise bound FeedbackEnded overflow delivered got unread \<longleftrightarrow>
     \<not> overflow \<and> (\<exists>ms e. prefix (ms @ [e]) delivered \<and> list_all is_feedback ms \<and> tm_payload e = [] \<and>
       got @ unread = ms @ [e])"
| "stream_promise bound FeedbackOverflowed overflow delivered got unread \<longleftrightarrow>
     overflow \<and> unread = [] \<and> (\<exists>ms m before. prefix (ms @ [m]) delivered \<and> list_all is_feedback (ms @ [m]) \<and>
       prefix before got \<and> prefix got ms \<and> length before + bound \<le> length ms)"

definition feedback_inv :: "('c, topic_message) flume \<Rightarrow> nat \<Rightarrow> 'c feedback_sys \<Rightarrow> bool" where
  "feedback_inv F bound s \<longleftrightarrow>
     fs_bound (fb_sink s) = bound \<and> fl_capacity F (fs_chan (fb_sink s)) = None \<and>
     0 < fl_receiver_count F (fs_chan (fb_sink s)) \<and>
     stream_promise bound (fs_state (fb_sink s)) (fs_overflow (fb_sink s)) (fb_delivered s) (fb_read s)
       (fl_contents F (fs_chan (fb_sink s)))"

lemma stream_promise_read:
  "stream_promise bound st overflow delivered got unread \<Longrightarrow>
     stream_promise bound st overflow delivered (got @ take k unread) (drop k unread)"
  by (cases st) auto

lemma stream_promise_closed:
  "stream_promise bound st overflow delivered got unread \<Longrightarrow> st \<noteq> FeedbackOpen \<Longrightarrow>
     stream_promise bound st overflow (delivered @ [m]) got unread"
  by (cases st) (auto intro: prefix_prefix)

context flume_channel
begin

lemma recv_n_facts:
  "fst (recv_n F k c) = take k (fl_contents F c)" "fl_contents F (snd (recv_n F k c)) = drop k (fl_contents F c)"
  "fl_capacity F (snd (recv_n F k c)) = fl_capacity F c"
  "fl_receiver_count F (snd (recv_n F k c)) = fl_receiver_count F c"
proof (induction k arbitrary: c)
  case (Suc k)
  {
    case 1 show ?case
      using Suc.IH(1) recv_facts [of c] by (auto simp: case_prod_beta split: option.splits list.splits)
  next
    case 2 show ?case
      using Suc.IH(2) recv_facts [of c] by (auto simp: case_prod_beta split: option.splits list.splits)
  next
    case 3 show ?case using Suc.IH(3) recv_keeps [of c] by (auto simp: case_prod_beta split: option.splits)
  next
    case 4 show ?case using Suc.IH(4) recv_keeps [of c] by (auto simp: case_prod_beta split: option.splits)
  }
qed simp_all

lemma send_unbounded:
  assumes "0 < fl_receiver_count F c" "fl_capacity F c = None"
  shows "fl_contents F (snd (fl_try_send F m c)) = fl_contents F c @ [m]"
    "fl_capacity F (snd (fl_try_send F m c)) = None"
    "fl_receiver_count F (snd (fl_try_send F m c)) = fl_receiver_count F c"
  using send_room [of c m] assms by (simp_all add: has_room_def)

end

text \<open>A channel of messages: a delivery keeps the promise of the stream, whatever the reader takes
  within it.\<close>

locale feedback_channel = flume_channel F for F :: "('c, topic_message) flume"
begin

lemma feedback_apply_promise:
  assumes inv: "feedback_inv F bound s" and "\<not> feedback_reader_gone F (fb_sink s)"
  shows "feedback_inv F bound (feedback_step F (Deliver k m) s)"
proof -
  let ?sink = "fb_sink s"
  let ?c = "fs_chan ?sink"
  let ?got = "fb_read s @ take k (fl_contents F ?c)" and ?unread = "drop k (fl_contents F ?c)"
  let ?gap = "?sink\<lparr>fs_chan := snd (recv_n F k ?c)\<rparr>"
  have chan: "0 < fl_receiver_count F (snd (recv_n F k ?c))" "fl_capacity F (snd (recv_n F k ?c)) = None"
    using inv by (simp_all add: feedback_inv_def recv_n_facts)
  note send = send_unbounded [OF chan, of m, unfolded recv_n_facts(2)]
  have step: "feedback_step F (Deliver k m) s =
      s\<lparr>fb_sink := feedback_apply F (feedback_check F m ?sink) m ?gap,
        fb_delivered := fb_delivered s @ [m], fb_read := ?got\<rparr>"
    using assms(2) by (simp add: feedback_deliver_def recv_n_facts)
  have promise: "stream_promise bound (fs_state ?sink) (fs_overflow ?sink) (fb_delivered s) (fb_read s)
      (fl_contents F ?c)" using inv by (simp add: feedback_inv_def)
  note after = stream_promise_read [OF promise, of k]
  show ?thesis
  proof (cases "fs_state ?sink = FeedbackOpen")
    case False
    then have "feedback_check F m ?sink = Discard" by (simp add: feedback_check_def)
    with False after inv chan show ?thesis
      unfolding step by (simp add: feedback_inv_def recv_n_facts stream_promise_closed)
  next
    case True
    with promise have all: "fb_read s @ fl_contents F ?c = fb_delivered s" "list_all is_feedback (fb_delivered s)"
      "length (fl_contents F ?c) \<le> bound" "\<not> fs_overflow ?sink" by auto
    have got: "?got @ ?unread = fb_delivered s" using all(1) by simp
    consider "tm_payload m = []" | "tm_payload m \<noteq> []" "bound \<le> length (fl_contents F ?c)"
      | "tm_payload m \<noteq> []" "length (fl_contents F ?c) < bound" by fastforce
    then show ?thesis
    proof cases
      case 1
      have check: "feedback_check F m ?sink = EndStream" using True 1 assms(2) by (simp add: feedback_check_def)
      have "stream_promise bound FeedbackEnded False (fb_delivered s @ [m]) ?got (?unread @ [m])"
        using 1 all(2) got by (auto simp flip: append_assoc)
      with all(4) inv chan send check show ?thesis unfolding step by (simp add: feedback_inv_def)
    next
      case 2
      have check: "feedback_check F m ?sink = Overflow"
        using True 2 assms(2) inv by (simp add: feedback_check_def feedback_inv_def len)
      have "length (fb_read s) + bound \<le> length (fb_delivered s)" using 2(2) by (simp flip: all(1))
      moreover have "prefix ?got (fb_delivered s)" using got by (metis prefixI)
      moreover have "list_all is_feedback (fb_delivered s @ [m])" using all(2) 2(1) by (simp add: is_feedback_def)
      ultimately have "stream_promise bound FeedbackOverflowed True (fb_delivered s @ [m]) ?got []"
        unfolding stream_promise.simps by (meson prefixI prefix_order.order_refl)
      with inv chan check show ?thesis unfolding step by (simp add: feedback_inv_def drain)
    next
      case 3
      have check: "feedback_check F m ?sink = Accept"
        using True 3 assms(2) inv by (simp add: feedback_check_def feedback_inv_def len)
      have "stream_promise bound FeedbackOpen False (fb_delivered s @ [m]) ?got (?unread @ [m])"
        using 3 all(2) got by (auto simp: is_feedback_def simp flip: append_assoc)
      with True all(4) inv chan send check show ?thesis unfolding step by (simp add: feedback_inv_def)
    qed
  qed
qed

lemma feedback_step_inv:
  assumes inv: "feedback_inv F bound s" shows "feedback_inv F bound (feedback_step F ev s)"
proof (cases "feedback_reader_gone F (fb_sink s)")
  case True
  have "feedback_deliver F id m (fb_sink s) = fb_sink s" for m
    using True by (simp add: feedback_deliver_def feedback_check_def)
  with True inv show ?thesis by (cases ev) simp_all
next
  case False
  show ?thesis
  proof (cases ev)
    case (Deliver k m)
    show ?thesis unfolding Deliver by (rule feedback_apply_promise [OF inv False])
  next
    case FeedbackRead
    have "stream_promise bound (fs_state (fb_sink s)) (fs_overflow (fb_sink s)) (fb_delivered s)
        (fb_read s @ take 1 (fl_contents F (fs_chan (fb_sink s)))) (drop 1 (fl_contents F (fs_chan (fb_sink s))))"
      using inv by (intro stream_promise_read) (simp add: feedback_inv_def)
    with inv False show ?thesis
      unfolding FeedbackRead
      by (simp add: feedback_inv_def recv_n_facts del: recv_n.simps One_nat_def)
  next
    case FeedbackReaderLeaves
    with inv False show ?thesis
      by (auto simp: feedback_inv_def feedback_reader_gone_def drop_receiver drop_not_last)
  qed
qed

lemma feedback_run_inv: "feedback_inv F bound (feedback_run F evs (feedback_start F bound))"
proof -
  have start: "feedback_inv F bound (feedback_start F bound)"
    by (simp add: feedback_inv_def feedback_start_def feedback_open_def channel_simps)
  have "feedback_inv F bound (feedback_run F evs s)" if "feedback_inv F bound s" for s
    using that unfolding feedback_run_def
    by (induction evs arbitrary: s) (simp, metis fold_simps(2) feedback_step_inv)
  from this [OF start] show ?thesis .
qed

end

interpretation vec_feedback: feedback_channel vec_flume
  by (rule feedback_channel.intro) (rule vec.flume_channel_axioms)

section \<open>What the buffers promise\<close>

text \<open>
  C25: A push to a keep-latest queue never waits for the reader: whatever messages the reader takes
  meanwhile, and even when it leaves, the push returns within two tries. The queue stays within its
  capacity, ends with the pushed message, and lost messages only from its front; with nobody else at
  work it holds exactly the newest messages of its capacity.
\<close>

theorem keep_latest_push_returns:
  assumes "flume_channel F" "latest_ok F n q" "list_all (reads_only F) gaps" "4 \<le> length gaps"
  shows "\<exists>q'. latest_push F gaps m q = Some q' \<and> latest_ok F n q' \<and>
    (if latest_reader_gone F q then q' = q
     else (\<exists>k. fl_contents F (lq_chan q') = drop k (fl_contents F (lq_chan q)) @ [m]) \<and>
       (take 4 gaps = replicate 4 id \<longrightarrow>
          fl_contents F (lq_chan q') = keep_newest n (fl_contents F (lq_chan q) @ [m])))"
proof -
  obtain g1 g2 g3 g4 rest where gaps: "gaps = g1 # g2 # g3 # g4 # rest"
    using assms(4) by (auto simp: Suc_le_length_iff numeral_eq_Suc)
  then have "list_all (reads_only F) [g1, g2, g3]" using assms(3) by simp
  from flume_channel.push_loop_returns [OF assms(1,2) this, of g4 rest m]
  obtain q' k where q': "push_loop F gaps m q = Some q'" "latest_ok F n q'"
    "fl_contents F (lq_chan q') = drop k (fl_contents F (lq_chan q)) @ [m]" by (auto simp: gaps)
  have "fl_contents F (lq_chan q') = keep_newest n (fl_contents F (lq_chan q) @ [m])"
    if "take 4 gaps = replicate 4 id"
    using that flume_channel.push_alone [OF assms(1,2), of rest m q'] q'(1)
    by (simp add: gaps numeral_eq_Suc)
  with q' assms(2) show ?thesis by (auto simp: latest_push_def)
qed

definition sample_queue :: "nat vec_channel latest_queue" where
  "sample_queue = \<lparr>lq_chan = \<lparr>vc_queue = [1, 2], vc_cap = Some 2, vc_receivers = 2\<rparr>, lq_dropped_any = False\<rparr>"

lemma sample_queue_ok: "latest_ok vec_flume 2 sample_queue" "\<not> latest_reader_gone vec_flume sample_queue"
  by (simp_all add: latest_ok_def latest_reader_gone_def sample_queue_def vec_flume_def)

theorem keep_latest_push_returns_witness:
  "\<exists>q'. latest_push vec_flume (replicate 4 id) 3 sample_queue = Some q' \<and> vc_queue (lq_chan q') = [2, 3]"
proof -
  have "list_all (reads_only vec_flume) (replicate 4 (id :: nat vec_channel \<Rightarrow> nat vec_channel))"
    by (simp add: reads_only_id(1) numeral_eq_Suc)
  from keep_latest_push_returns [OF vec.flume_channel_axioms sample_queue_ok(1) this, of 3] sample_queue_ok(2)
  obtain q' where q': "latest_push vec_flume (replicate 4 id) 3 sample_queue = Some q'"
    "fl_contents vec_flume (lq_chan q') = keep_newest 2 (fl_contents vec_flume (lq_chan sample_queue) @ [3])"
    by auto
  then have "vc_queue (lq_chan q') = [2, 3]"
    by (simp add: vec_flume_def sample_queue_def keep_newest_def)
  with q'(1) show ?thesis by blast
qed

text \<open>
  C23: However the pushes of several threads and the reader interleave, a keep-latest queue stays within
  its capacity and is a queue: the messages taken out of it, by the reader or to make room, followed
  by those it holds, are the messages it took, in that order, and those of one thread are in the
  order that thread pushed them. When nobody read and every push has returned, the queue holds as many
  messages as were pushed, up to its capacity.
\<close>

theorem concurrent_pushes_keep_newest:
  assumes "flume_channel F" and s: "s = latest_run F evs (latest_start F capacity threads)"
  shows "length (ls_unread F s) \<le> max capacity 1 \<and>
    map snd (ls_sent s) = map snd (ls_taken s) @ ls_unread F s \<and>
    (\<forall>t < threads. filter (\<lambda>p. fst p = t) (ls_sent s) @ in_hand t (ls_threads s ! t) =
       filter (\<lambda>p. fst p = t) (ls_pushed s)) \<and>
    (ls_threads s = replicate threads None \<and> True \<notin> fst ` set (ls_taken s) \<longrightarrow>
       length (ls_unread F s) = min (max capacity 1) (length (ls_pushed s)))"
proof -
  have threads: "length (ls_threads s) = threads"
    using flume_channel.latest_run_threads [OF assms(1)] by (simp add: s latest_start_def)
  have inv: "latest_inv F (max capacity 1) s"
    unfolding s by (intro flume_channel.latest_run_inv flume_channel.latest_start_inv assms(1))
  have "length (ls_sent s) = length (ls_taken s) + length (ls_unread F s)"
    using inv unfolding latest_inv_def by (metis length_append length_map)
  then have "length (ls_unread F s) = min (max capacity 1) (length (ls_pushed s))"
    if "ls_threads s = replicate threads None" "True \<notin> fst ` set (ls_taken s)"
    using inv that by (auto simp: latest_inv_def latest_ok_def fill_ok_def sum_list_replicate)
  with inv threads show ?thesis by (simp add: latest_inv_def latest_ok_def order_ok_def)
qed

text \<open>
  Two threads push to a queue of one: both find it full, one makes room and sends, and the other drops
  that message for its own.
\<close>

definition sample_schedule :: "nat latest_event list" where
  "sample_schedule =
     [Push 0 10, Advance 0, Push 1 11, Advance 1, Push 0 12, Advance 0, Advance 1, Advance 1, Advance 0, Advance 0]"

lemma sample_schedule_run:
  "latest_run vec_flume sample_schedule (latest_start vec_flume 1 2) =
     \<lparr>ls_queue = \<lparr>lq_chan = \<lparr>vc_queue = [12], vc_cap = Some 1, vc_receivers = 2\<rparr>, lq_dropped_any = True\<rparr>,
      ls_threads = [None, None], ls_pushed = [(0, 10), (1, 11), (0, 12)],
      ls_sent = [(0, 10), (1, 11), (0, 12)], ls_taken = [(False, 10), (False, 11)]\<rparr>"
  by (simp add: latest_run_def sample_schedule_def latest_start_def latest_open_def latest_reader_gone_def
      push_try_def push_make_room_def note_dropped_def taken_log_def vec_flume_def numeral_eq_Suc)

theorem concurrent_pushes_keep_newest_witness:
  "length (ls_unread vec_flume (latest_run vec_flume sample_schedule (latest_start vec_flume 1 2))) =
     min 1 (length (ls_pushed (latest_run vec_flume sample_schedule (latest_start vec_flume 1 2))))"
  using concurrent_pushes_keep_newest [OF vec.flume_channel_axioms refl, of sample_schedule 1 2]
  unfolding sample_schedule_run by (simp add: numeral_eq_Suc)

text \<open>
  C24: However deliveries and the reader interleave, a feedback stream is lossless or says so. Open, its
  reader got or will get every message so far, with at most the bound waiting. Ended, it gets exactly
  the messages up to the end of the stream, the end included. Overflowed, the signal is up, nothing
  waits or is taken any more, and a message had arrived while the reader was the bound behind.
\<close>

theorem feedback_stream_lossless_or_overflowed:
  assumes "flume_channel F" and s: "s = feedback_run F evs (feedback_start F bound)"
  shows "stream_promise bound (fs_state (fb_sink s)) (fs_overflow (fb_sink s)) (fb_delivered s) (fb_read s)
    (fl_contents F (fs_chan (fb_sink s)))"
  using feedback_channel.feedback_run_inv [OF feedback_channel.intro [OF assms(1)], of bound evs]
  by (simp add: s feedback_inv_def)

definition sample_feedback :: "byte list \<Rightarrow> topic_message" where
  "sample_feedback bytes =
     \<lparr>tm_key_expr = ''k'', tm_instance_id = ''i'', tm_core_node = ''c'', tm_link_id = ''_'', tm_payload = bytes,
      tm_source_timestamp_nanos = None\<rparr>"

text \<open>A stream of bound 1: the reader takes the first message, then the third finds the second unread.\<close>

theorem feedback_stream_lossless_or_overflowed_witness:
  "fs_state (fb_sink (feedback_run vec_flume
     [Deliver 0 (sample_feedback [1]), FeedbackRead, Deliver 0 (sample_feedback [2]),
      Deliver 0 (sample_feedback [3])] (feedback_start vec_flume 1))) = FeedbackOverflowed \<and>
   stream_promise 1 FeedbackOverflowed True
     [sample_feedback [1], sample_feedback [2], sample_feedback [3]] [sample_feedback [1]] []"
  using feedback_stream_lossless_or_overflowed [OF vec.flume_channel_axioms refl, of 1
      "[Deliver 0 (sample_feedback [1]), FeedbackRead, Deliver 0 (sample_feedback [2]),
        Deliver 0 (sample_feedback [3])]"]
  by (simp add: feedback_run_def feedback_start_def feedback_open_def feedback_deliver_def feedback_check_def
      feedback_reader_gone_def sample_feedback_def vec_flume_def del: stream_promise.simps)

end
