(* ===== verification/Virtual_Deptree.thy ===== *)
theory Virtual_Deptree
  imports Service_Action_Cycle Petgraph Bytes_Text
begin

text \<open>
  The dependency tree of a batch of local nodes, which orders \<open>peppy node sync -a\<close>
  (\<open>node-stack-internal/src/virtual_deptree.rs\<close>). \<open>petgraph::algo::toposort\<close> is an argument, and the
  locale \<open>topological_sort\<close> states what its documentation promises. The graph keeps a handle per
  node, the position of the node's key in \<open>dp_keys\<close>.
\<close>

section \<open>Definitions\<close>

record virtual_node_info =
  vn_root_dir :: string
  vn_config :: node_config

definition info_key :: "virtual_node_info \<Rightarrow> string \<times> string" where
  "info_key info = (config_name (vn_config info), config_tag (vn_config info))"

datatype deptree_error =
    DuplicateLocalNode string string string string
  | VirtualDeptreeCycle "string list"
  | DeptreeCallCycle "string list" string string

record 'g deptree_pass =
  dp_graph :: 'g
  dp_keys :: "(string \<times> string) list"
  dp_by_key :: "string \<times> string \<rightharpoonup> nat"
  dp_infos :: "nat \<rightharpoonup> virtual_node_info"

record virtual_deptree =
  vd_infos :: "nat \<rightharpoonup> virtual_node_info"
  vd_order :: "nat list"

definition empty_pass :: "'g petgraph \<Rightarrow> 'g deptree_pass" where
  "empty_pass G = \<lparr>dp_graph = pg_default G, dp_keys = [], dp_by_key = Map.empty, dp_infos = Map.empty\<rparr>"

text \<open>The first pass registers every node and refuses the second with one key.\<close>

definition register_node ::
    "'g petgraph \<Rightarrow> virtual_node_info \<Rightarrow> 'g deptree_pass \<Rightarrow> deptree_error + 'g deptree_pass" where
  "register_node G info p =
     (let key = info_key info
      in case dp_by_key p key of
           Some first \<Rightarrow>
             Inl (DuplicateLocalNode (fst key) (snd key) (vn_root_dir (the (dp_infos p first))) (vn_root_dir info))
         | None \<Rightarrow>
             (case pg_add_node G (length (dp_keys p)) (dp_graph p) of
                (idx, g) \<Rightarrow>
                  Inr \<lparr>dp_graph = g, dp_keys = dp_keys p @ [key], dp_by_key = (dp_by_key p)(key \<mapsto> idx),
                       dp_infos = (dp_infos p)(idx \<mapsto> info)\<rparr>))"

fun register_nodes ::
    "'g petgraph \<Rightarrow> virtual_node_info list \<Rightarrow> 'g deptree_pass \<Rightarrow> deptree_error + 'g deptree_pass" where
  "register_nodes G [] p = Inr p"
| "register_nodes G (info # infos) p = and_then (register_node G info p) (register_nodes G infos)"

text \<open>The second pass adds an edge from each declared dependency of the batch to its dependant.\<close>

definition node_dep_keys :: "node_config \<Rightarrow> (string \<times> string) list" where
  "node_dep_keys c =
     (case m_depends_on (nc_manifest c) of
        None \<Rightarrow> [] | Some d \<Rightarrow> map (\<lambda>dep. (nd_name dep, nd_tag dep)) (dep_nodes d))"

definition add_dep_edge ::
    "'g petgraph \<Rightarrow> ('k \<rightharpoonup> nat) \<Rightarrow> nat \<Rightarrow> 'k \<Rightarrow> 'g \<Rightarrow> 'g" where
  "add_dep_edge G by_key idx dep_key g =
     (case by_key dep_key of Some dep_idx \<Rightarrow> pg_add_edge G dep_idx idx g | None \<Rightarrow> g)"

definition add_dep_edges :: "'g petgraph \<Rightarrow> 'g deptree_pass \<Rightarrow> 'g" where
  "add_dep_edges G p =
     fold (\<lambda>idx. fold (add_dep_edge G (dp_by_key p) idx) (node_dep_keys (vn_config (the (dp_infos p idx)))))
       (node_indices G (dp_graph p)) (dp_graph p)"

definition cycle_nodes :: "'g petgraph \<Rightarrow> 'g deptree_pass \<Rightarrow> cycle_check_node list" where
  "cycle_nodes G p =
     sort_key (\<lambda>n. (ccn_name n, ccn_tag n))
       (map (\<lambda>idx. let info = the (dp_infos p idx)
                   in \<lparr>ccn_name = config_name (vn_config info), ccn_tag = config_tag (vn_config info),
                       ccn_config = vn_config info\<rparr>)
          (node_indices G (dp_graph p)))"

definition virtual_deptree_build ::
    "'g petgraph \<Rightarrow> ('g \<Rightarrow> nat + nat list) \<Rightarrow> (nat \<Rightarrow> (nat \<times> nat) list \<Rightarrow> nat list list) \<Rightarrow>
     virtual_node_info list \<Rightarrow> deptree_error + virtual_deptree" where
  "virtual_deptree_build G toposort scc nodes =
     and_then (register_nodes G nodes (empty_pass G)) (\<lambda>p.
       let g = add_dep_edges G p
       in case toposort g of
            Inl i \<Rightarrow> (case dp_keys p ! the (node_weight G g i) of
              (name, tag) \<Rightarrow> Inl (VirtualDeptreeCycle [edge_label name tag]))
          | Inr order \<Rightarrow>
              (case find_service_action_cycle scc (cycle_nodes G p) of
                 Some cyc \<Rightarrow> Inl (DeptreeCallCycle (sac_nodes cyc) (sac_closing_dependency cyc)
                                    (kind_display (sac_kind cyc)))
               | None \<Rightarrow> Inr \<lparr>vd_infos = dp_infos p, vd_order = order\<rparr>))"

definition topological_order :: "virtual_deptree \<Rightarrow> virtual_node_info list" where
  "topological_order tree = map (\<lambda>idx. the (vd_infos tree idx)) (vd_order tree)"

section \<open>Topological orders\<close>

definition precedes :: "'a list \<Rightarrow> 'a \<Rightarrow> 'a \<Rightarrow> bool" where
  "precedes xs a b \<longleftrightarrow> (\<exists>ys zs. xs = ys @ zs \<and> a \<in> set ys \<and> b \<in> set zs)"

text \<open>What \<open>toposort\<close> documents: an order of all the nodes that every edge follows, or a node of a cycle.\<close>

locale topological_sort =
  fixes G :: "'g petgraph" and toposort :: "'g \<Rightarrow> nat + nat list"
  assumes graph_laws: "stable_digraph G"
    and sorted_order: "edge_set G g \<subseteq> dom (node_weight G g) \<times> dom (node_weight G g) \<Longrightarrow>
      toposort g = Inr order \<Longrightarrow>
      distinct order \<and> set order = dom (node_weight G g) \<and> (\<forall>(a, b) \<in> edge_set G g. precedes order a b)"
    and on_cycle: "edge_set G g \<subseteq> dom (node_weight G g) \<times> dom (node_weight G g) \<Longrightarrow>
      toposort g = Inl i \<Longrightarrow> (i, i) \<in> (edge_set G g)\<^sup>+"

lemma precedes_map: "precedes xs a b \<Longrightarrow> precedes (map f xs) (f a) (f b)"
  unfolding precedes_def by (metis image_eqI map_append set_map)

lemma precedes_Cons: "precedes (x # xs) a b \<longleftrightarrow> a = x \<and> b \<in> set xs \<or> precedes xs a b"
proof
  assume "precedes (x # xs) a b"
  then obtain ys zs where *: "x # xs = ys @ zs" "a \<in> set ys" "b \<in> set zs" by (auto simp: precedes_def)
  then show "a = x \<and> b \<in> set xs \<or> precedes xs a b"
    by (cases ys) (auto simp: precedes_def)
next
  assume "a = x \<and> b \<in> set xs \<or> precedes xs a b"
  then show "precedes (x # xs) a b"
  proof
    assume "a = x \<and> b \<in> set xs"
    then have "x # xs = [x] @ xs \<and> a \<in> set [x] \<and> b \<in> set xs" by simp
    then show ?thesis unfolding precedes_def by blast
  next
    assume "precedes xs a b"
    then obtain ys zs where "xs = ys @ zs" "a \<in> set ys" "b \<in> set zs" by (auto simp: precedes_def)
    then have "x # xs = (x # ys) @ zs \<and> a \<in> set (x # ys) \<and> b \<in> set zs" by simp
    then show ?thesis unfolding precedes_def by blast
  qed
qed

text \<open>A sort that takes out one node without a predecessor after the other.\<close>

fun take_sources :: "nat \<Rightarrow> (nat \<times> nat) list \<Rightarrow> nat list \<Rightarrow> nat + nat list" where
  "take_sources 0 es ns = Inr []"
| "take_sources (Suc k) es ns =
     (case find (\<lambda>n. \<not> list_ex (\<lambda>(a, b). b = n \<and> a \<in> set ns) es) ns of
        Some n \<Rightarrow> map_sum id ((#) n) (take_sources k es (removeAll n ns))
      | None \<Rightarrow> Inl (hd (filter (\<lambda>n. (n, n) \<in> (set es)\<^sup>+) ns)))"

definition slab_toposort :: "slab \<Rightarrow> nat + nat list" where
  "slab_toposort g =
     (let ns = node_indices slab_graph g in take_sources (length ns) (map snd (slab_edges g)) ns)"

lemma take_sources_order:
  assumes "take_sources (length ns) es ns = Inr order" "distinct ns"
  shows "distinct order \<and> set order = set ns \<and>
    (\<forall>(a, b) \<in> set es. a \<in> set ns \<and> b \<in> set ns \<longrightarrow> precedes order a b)"
  using assms
proof (induction "length ns" arbitrary: ns order)
  case (Suc k)
  from Suc.prems(1) obtain n rest where n: "find (\<lambda>n. \<not> list_ex (\<lambda>(a, b). b = n \<and> a \<in> set ns) es) ns = Some n"
    "order = n # rest" "take_sources k es (removeAll n ns) = Inr rest"
    by (simp flip: Suc.hyps(2)) (auto split: option.splits simp: map_sum_def split: sum.splits)
  from n(1) have nn: "n \<in> set ns" "\<not> list_ex (\<lambda>(a, b). b = n \<and> a \<in> set ns) es"
    by (auto simp: find_Some_iff)
  have k: "k = length (removeAll n ns)"
    using Suc.hyps(2) nn(1) Suc.prems(2) by (simp add: distinct_remove1_removeAll [symmetric] length_remove1)
  from Suc.hyps(1) [OF k n(3) [unfolded k] distinct_removeAll [OF Suc.prems(2)]] nn n(2) show ?case
    by (auto simp: precedes_Cons list_ex_iff)
qed simp

lemma take_sources_cycle:
  assumes "take_sources (length ns) es ns = Inl i" "distinct ns"
  shows "(i, i) \<in> (set es)\<^sup>+"
  using assms
proof (induction "length ns" arbitrary: ns)
  case (Suc k)
  show ?case
  proof (cases "find (\<lambda>n. \<not> list_ex (\<lambda>(a, b). b = n \<and> a \<in> set ns) es) ns")
    case None
    then have pred: "\<forall>n \<in> set ns. \<exists>a \<in> set ns. (a, n) \<in> set es"
      by (auto simp: find_None_iff list_ex_iff)
    let ?R = "set es \<inter> set ns \<times> set ns"
    have "\<not> acyclic ?R"
    proof
      assume "acyclic ?R"
      then have "wf ?R" by (simp add: finite_acyclic_wf)
      moreover have "hd ns \<in> set ns" using Suc.hyps(2) by (cases ns) auto
      ultimately obtain z where z: "z \<in> set ns" "\<And>y. (y, z) \<in> ?R \<Longrightarrow> y \<notin> set ns"
        by (rule wfE_min) blast
      with pred obtain a where "a \<in> set ns" "(a, z) \<in> set es" by blast
      with z show False by blast
    qed
    then obtain x where x: "(x, x) \<in> ?R\<^sup>+" by (auto simp: acyclic_def)
    then have "x \<in> set ns" by (cases rule: tranclE) auto
    moreover have "(x, x) \<in> (set es)\<^sup>+" using x by (rule trancl_mono) simp
    ultimately have "filter (\<lambda>n. (n, n) \<in> (set es)\<^sup>+) ns \<noteq> []" by (auto simp: filter_empty_conv)
    from hd_in_set [OF this] have "(hd (filter (\<lambda>n. (n, n) \<in> (set es)\<^sup>+) ns),
        hd (filter (\<lambda>n. (n, n) \<in> (set es)\<^sup>+) ns)) \<in> (set es)\<^sup>+" by simp
    moreover have "i = hd (filter (\<lambda>n. (n, n) \<in> (set es)\<^sup>+) ns)"
      using Suc.prems(1) None unfolding Suc.hyps(2) [symmetric] by simp
    ultimately show ?thesis by simp
  next
    case (Some n)
    then have nn: "n \<in> set ns" by (auto simp: find_Some_iff)
    have k: "k = length (removeAll n ns)"
      using Suc.hyps(2) nn Suc.prems(2) by (simp add: distinct_remove1_removeAll [symmetric] length_remove1)
    from Suc.prems(1) Some have "take_sources k es (removeAll n ns) = Inl i"
      by (auto simp: map_sum_def split: sum.splits simp flip: Suc.hyps(2))
    from Suc.hyps(1) [OF k this [unfolded k] distinct_removeAll [OF Suc.prems(2)]] show ?thesis .
  qed
qed simp

lemma slab_edges_set: "set (map snd (slab_edges g)) = edge_set slab_graph g"
proof -
  have "(a, b) \<in> set (map snd (slab_edges g)) \<longleftrightarrow> (a, b) \<in> edge_set slab_graph g" for a b
    unfolding slab_edge_set by force
  then show ?thesis by auto
qed

interpretation slab_sort: topological_sort slab_graph slab_toposort
proof (unfold_locales)
  show "stable_digraph slab_graph" by (rule slab_graph_stable)
  note nodes = stable_digraph_nodes(7,8) [OF slab_graph_stable]
  fix g
  assume edges: "edge_set slab_graph g \<subseteq> dom (node_weight slab_graph g) \<times> dom (node_weight slab_graph g)"
  show "distinct order \<and> set order = dom (node_weight slab_graph g) \<and>
      (\<forall>(a, b) \<in> edge_set slab_graph g. precedes order a b)" if "slab_toposort g = Inr order" for order
    using take_sources_order [OF that [unfolded slab_toposort_def Let_def] nodes(1)] edges
    unfolding slab_edges_set nodes(2) by blast
  show "(i, i) \<in> (edge_set slab_graph g)\<^sup>+" if "slab_toposort g = Inl i" for i
    using take_sources_cycle [OF that [unfolded slab_toposort_def Let_def] nodes(1)]
    unfolding slab_edges_set .
qed

section \<open>The passes\<close>

definition pass_ok :: "'g petgraph \<Rightarrow> virtual_node_info list \<Rightarrow> 'g deptree_pass \<Rightarrow> bool" where
  "pass_ok G nodes p \<longleftrightarrow>
     distinct (map info_key nodes) \<and> dp_keys p = map info_key nodes \<and>
     dom (node_weight G (dp_graph p)) = dom (dp_infos p) \<and> edge_set G (dp_graph p) = {} \<and>
     ran (dp_infos p) = set nodes \<and>
     (\<forall>k i. dp_by_key p k = Some i \<longleftrightarrow> (\<exists>info. dp_infos p i = Some info \<and> info_key info = k)) \<and>
     (\<forall>i h info. node_weight G (dp_graph p) i = Some h \<longrightarrow> dp_infos p i = Some info \<longrightarrow>
        h < length nodes \<and> info_key info = dp_keys p ! h)"

lemma empty_pass_ok: "stable_digraph G \<Longrightarrow> pass_ok G [] (empty_pass G)"
  by (simp add: pass_ok_def empty_pass_def stable_digraph_nodes stable_digraph_edges)

lemma register_node_known:
  assumes "pass_ok G nodes p" "info_key info \<in> info_key ` set nodes"
  shows "\<exists>first \<in> set nodes. info_key first = info_key info \<and>
    register_node G info p = Inl (DuplicateLocalNode (fst (info_key info)) (snd (info_key info))
      (vn_root_dir first) (vn_root_dir info))"
proof -
  obtain first where x: "first \<in> ran (dp_infos p)" "info_key first = info_key info"
    using assms by (fastforce simp: pass_ok_def)
  then obtain i where first: "dp_infos p i = Some first" "info_key first = info_key info"
    by (auto simp: ran_def)
  then have "dp_by_key p (info_key info) = Some i" "first \<in> set nodes"
    using assms(1) unfolding pass_ok_def by (blast, metis ranI)
  with first show ?thesis by (intro bexI [of _ first]) (simp_all add: register_node_def Let_def)
qed

lemma register_node_new:
  assumes "stable_digraph G" "pass_ok G nodes p" "info_key info \<notin> info_key ` set nodes"
  shows "\<exists>p'. register_node G info p = Inr p' \<and> pass_ok G (nodes @ [info]) p'"
proof -
  obtain idx g where add: "pg_add_node G (length (dp_keys p)) (dp_graph p) = (idx, g)" by (cases rule: prod.exhaust)
  note weight = stable_digraph_nodes(3,4) [OF assms(1), where g = "dp_graph p" and h = "length (dp_keys p)", unfolded add fst_conv snd_conv]
  have edges: "edge_set G g = edge_set G (dp_graph p)"
    using stable_digraph_edges(3) [OF assms(1), of "length (dp_keys p)" "dp_graph p"] by (simp add: add)
  have fresh: "dp_infos p idx = None" using assms(2) weight(1) unfolding pass_ok_def by blast
  have none: "dp_by_key p (info_key info) = None"
  proof (rule ccontr)
    assume "dp_by_key p (info_key info) \<noteq> None"
    then obtain i x where "dp_infos p i = Some x" "info_key x = info_key info"
      using assms(2) unfolding pass_ok_def by blast
    with assms(2,3) show False unfolding pass_ok_def by (metis imageI ranI)
  qed
  define p' where "p' = \<lparr>dp_graph = g, dp_keys = dp_keys p @ [info_key info],
      dp_by_key = (dp_by_key p)(info_key info \<mapsto> idx), dp_infos = (dp_infos p)(idx \<mapsto> info)\<rparr>"
  have "register_node G info p = Inr p'"
    by (simp add: register_node_def none add p'_def Let_def)
  moreover have "pass_ok G (nodes @ [info]) p'"
    unfolding pass_ok_def
  proof (intro conjI allI impI)
    show "distinct (map info_key (nodes @ [info]))" "dp_keys p' = map info_key (nodes @ [info])"
      "dom (node_weight G (dp_graph p')) = dom (dp_infos p')" "edge_set G (dp_graph p') = {}"
      using assms(2,3) weight edges by (auto simp: pass_ok_def p'_def)
    show "ran (dp_infos p') = set (nodes @ [info])"
      using assms(2) fresh by (auto simp: pass_ok_def p'_def ran_map_upd)
    show "dp_by_key p' k = Some i \<longleftrightarrow> (\<exists>x. dp_infos p' i = Some x \<and> info_key x = k)" for k i
    proof -
      have known: "dp_by_key p k = Some i \<longleftrightarrow> (\<exists>x. dp_infos p i = Some x \<and> info_key x = k)" for k i
        using assms(2) unfolding pass_ok_def by blast
      from known [of "info_key info" i] known [of k i] none fresh show ?thesis by (auto simp: p'_def)
    qed
    show "h < length (nodes @ [info])" "info_key x = dp_keys p' ! h"
      if h: "node_weight G (dp_graph p') i = Some h" "dp_infos p' i = Some x" for i h x
    proof -
      have "h < length (nodes @ [info]) \<and> info_key x = dp_keys p' ! h"
      proof (cases "i = idx")
        case True
        with h weight assms(2) show ?thesis by (auto simp: pass_ok_def p'_def nth_append)
      next
        case False
        then have "node_weight G (dp_graph p) i = Some h" "dp_infos p i = Some x"
          using h weight by (simp_all add: p'_def)
        then have "h < length nodes \<and> info_key x = dp_keys p ! h" "dp_keys p = map info_key nodes"
          using assms(2) unfolding pass_ok_def by blast+
        then show ?thesis by (simp add: p'_def nth_append)
      qed
      then show "h < length (nodes @ [info])" "info_key x = dp_keys p' ! h" by simp_all
    qed
  qed
  ultimately show ?thesis by blast
qed

lemma register_nodes_outcome:
  assumes "stable_digraph G" "pass_ok G done_nodes p"
  shows "case register_nodes G nodes p of
      Inr p' \<Rightarrow> pass_ok G (done_nodes @ nodes) p'
    | Inl e \<Rightarrow> \<exists>pre x second post. done_nodes @ nodes = pre @ second # post \<and> distinct (map info_key pre) \<and>
        x \<in> set pre \<and> info_key x = info_key second \<and>
        e = DuplicateLocalNode (fst (info_key second)) (snd (info_key second)) (vn_root_dir x) (vn_root_dir second)"
  using assms(2)
proof (induction nodes arbitrary: done_nodes p)
  case (Cons info nodes)
  show ?case
  proof (cases "info_key info \<in> info_key ` set done_nodes")
    case True
    from register_node_known [OF Cons.prems True] obtain x where "x \<in> set done_nodes" "info_key x = info_key info"
      "register_node G info p = Inl (DuplicateLocalNode (fst (info_key info)) (snd (info_key info))
        (vn_root_dir x) (vn_root_dir info))" by blast
    moreover have "distinct (map info_key done_nodes)" using Cons.prems by (simp add: pass_ok_def)
    ultimately show ?thesis
      by (simp del: distinct_map) (metis)
  next
    case False
    from register_node_new [OF assms(1) Cons.prems False] obtain p' where
      "register_node G info p = Inr p'" "pass_ok G (done_nodes @ [info]) p'" by blast
    with Cons.IH [OF this(2)] show ?thesis by (simp only: register_nodes.simps and_then_simps append.simps append_assoc)
  qed
qed simp

definition local_depends :: "virtual_node_info list \<Rightarrow> ((string \<times> string) \<times> (string \<times> string)) set" where
  "local_depends nodes =
     {(dep, info_key info) | dep info. info \<in> set nodes \<and> dep \<in> set (node_dep_keys (vn_config info)) \<and>
        dep \<in> info_key ` set nodes}"

lemma add_dep_edge_facts:
  assumes "stable_digraph G" "\<And>k i. by_key k = Some i \<Longrightarrow> node_weight G g i \<noteq> None" "node_weight G g idx \<noteq> None"
  shows "node_weight G (fold (add_dep_edge G by_key idx) deps g) = node_weight G g"
    "edge_set G (fold (add_dep_edge G by_key idx) deps g) =
       edge_set G g \<union> {(i, idx) | i dep. dep \<in> set deps \<and> by_key dep = Some i}"
proof -
  have "node_weight G (fold (add_dep_edge G by_key idx) deps g) = node_weight G g \<and>
      edge_set G (fold (add_dep_edge G by_key idx) deps g) =
        edge_set G g \<union> {(i, idx) | i dep. dep \<in> set deps \<and> by_key dep = Some i}"
    using assms(2,3)
  proof (induction deps arbitrary: g)
    case (Cons dep deps)
    let ?g = "add_dep_edge G by_key idx dep g"
    have step: "node_weight G ?g = node_weight G g"
      "edge_set G ?g = edge_set G g \<union> {(i, idx) | i. by_key dep = Some i}"
      using add_edge_facts [OF assms(1) Cons.prems(1) Cons.prems(2)]
      by (auto simp: add_dep_edge_def split: option.split)
    with Cons.IH [of ?g] Cons.prems show ?case by auto
  qed simp
  then show "node_weight G (fold (add_dep_edge G by_key idx) deps g) = node_weight G g"
    "edge_set G (fold (add_dep_edge G by_key idx) deps g) =
       edge_set G g \<union> {(i, idx) | i dep. dep \<in> set deps \<and> by_key dep = Some i}" by simp_all
qed

lemma add_dep_edges_facts:
  assumes "stable_digraph G" "pass_ok G nodes p"
  shows "node_weight G (add_dep_edges G p) = node_weight G (dp_graph p)"
    "edge_set G (add_dep_edges G p) = {(i, j). \<exists>dep info. dp_infos p j = Some info \<and>
       dep \<in> set (node_dep_keys (vn_config info)) \<and> dp_by_key p dep = Some i}"
proof -
  let ?deps = "\<lambda>idx. node_dep_keys (vn_config (the (dp_infos p idx)))"
  let ?step = "\<lambda>idx. fold (add_dep_edge G (dp_by_key p) idx) (?deps idx)"
  have known: "dp_by_key p k = Some i \<Longrightarrow> node_weight G (dp_graph p) i \<noteq> None" for k i
    using assms(2) unfolding pass_ok_def by (metis (no_types, lifting) domIff option.distinct(1))
  have "node_weight G (fold ?step idxs g) = node_weight G g \<and>
      edge_set G (fold ?step idxs g) = edge_set G g \<union>
        {(i, idx) | i idx dep. idx \<in> set idxs \<and> dep \<in> set (?deps idx) \<and> dp_by_key p dep = Some i}"
    if "node_weight G g = node_weight G (dp_graph p)" "set idxs \<subseteq> dom (node_weight G (dp_graph p))" for idxs g
    using that
  proof (induction idxs arbitrary: g)
    case (Cons idx idxs)
    have idx: "node_weight G g idx \<noteq> None" using Cons.prems by auto
    have "\<And>k i. dp_by_key p k = Some i \<Longrightarrow> node_weight G g i \<noteq> None" using known Cons.prems(1) by simp
    note step = add_dep_edge_facts [OF assms(1) this idx, where deps = "?deps idx"]
    have "node_weight G (?step idx g) = node_weight G (dp_graph p)" using step(1) Cons.prems(1) by simp
    from Cons.IH [OF this] Cons.prems(2) step show ?case by auto
  qed simp
  note all = this [OF refl, of "node_indices G (dp_graph p)", unfolded stable_digraph_nodes(8) [OF assms(1)]]
  then show "node_weight G (add_dep_edges G p) = node_weight G (dp_graph p)"
    by (simp add: add_dep_edges_def)
  have "edge_set G (add_dep_edges G p) =
      {(i, idx) | i idx dep. idx \<in> dom (dp_infos p) \<and> dep \<in> set (?deps idx) \<and> dp_by_key p dep = Some i}"
    using all assms(2) by (simp add: add_dep_edges_def pass_ok_def)
  then show "edge_set G (add_dep_edges G p) = {(i, j). \<exists>dep info. dp_infos p j = Some info \<and>
       dep \<in> set (node_dep_keys (vn_config info)) \<and> dp_by_key p dep = Some i}"
    by (auto simp: dom_def simp del: split_paired_Ex)
qed

text \<open>The edges are the local dependencies, node by node.\<close>

lemma edges_are_local_depends:
  assumes "stable_digraph G" "pass_ok G nodes p"
  shows "edge_set G (add_dep_edges G p) = {(i, j). \<exists>a b. dp_infos p i = Some a \<and> dp_infos p j = Some b \<and>
      (info_key a, info_key b) \<in> local_depends nodes}"
proof -
  have known: "dp_by_key p k = Some i \<longleftrightarrow> (\<exists>info. dp_infos p i = Some info \<and> info_key info = k)" for k i
    using assms(2) unfolding pass_ok_def by blast
  have inj: "a = b" if "a \<in> set nodes" "b \<in> set nodes" "info_key a = info_key b" for a b
    using assms(2) that unfolding pass_ok_def distinct_map by (blast dest: inj_onD)
  have mem: "info \<in> set nodes" if "dp_infos p i = Some info" for i info
    using assms(2) that unfolding pass_ok_def by (metis ranI)
  have dep: "(info_key a, info_key b) \<in> local_depends nodes \<longleftrightarrow> info_key a \<in> set (node_dep_keys (vn_config b))"
    if "dp_infos p i = Some a" "dp_infos p j = Some b" for i j a b
  proof
    assume "(info_key a, info_key b) \<in> local_depends nodes"
    then obtain info where "info \<in> set nodes" "info_key b = info_key info"
      "info_key a \<in> set (node_dep_keys (vn_config info))" unfolding local_depends_def by blast
    with inj [of info b] mem [OF that(2)] show "info_key a \<in> set (node_dep_keys (vn_config b))" by simp
  next
    assume "info_key a \<in> set (node_dep_keys (vn_config b))"
    with mem [OF that(1)] mem [OF that(2)] show "(info_key a, info_key b) \<in> local_depends nodes"
      unfolding local_depends_def by blast
  qed
  then show ?thesis
    unfolding add_dep_edges_facts(2) [OF assms] known by blast
qed

lemma edge_cycle_is_local:
  assumes "stable_digraph G" "pass_ok G nodes p" "(i, j) \<in> (edge_set G (add_dep_edges G p))\<^sup>+"
  shows "\<exists>a b. dp_infos p i = Some a \<and> dp_infos p j = Some b \<and> (info_key a, info_key b) \<in> (local_depends nodes)\<^sup>+"
  using assms(3)
proof (induction rule: trancl_induct)
  case (base j)
  then show ?case unfolding edges_are_local_depends [OF assms(1,2)] by blast
next
  case (step j k)
  then obtain a b where "dp_infos p i = Some a" "dp_infos p j = Some b"
    "(info_key a, info_key b) \<in> (local_depends nodes)\<^sup>+" by blast
  moreover obtain c where "dp_infos p k = Some c" "(info_key b, info_key c) \<in> local_depends nodes"
    using step.hyps(2) \<open>dp_infos p j = Some b\<close> unfolding edges_are_local_depends [OF assms(1,2)] by auto
  ultimately show ?case by (meson trancl_into_trancl)
qed

text \<open>The nodes as the call cycle check sees them, whatever the order of the batch.\<close>

definition check_node :: "virtual_node_info \<Rightarrow> cycle_check_node" where
  "check_node info = \<lparr>ccn_name = config_name (vn_config info), ccn_tag = config_tag (vn_config info),
     ccn_config = vn_config info\<rparr>"

definition check_view :: "virtual_node_info list \<Rightarrow> cycle_check_node list" where
  "check_view nodes = sort_key (\<lambda>n. (ccn_name n, ccn_tag n)) (map check_node nodes)"

lemma image_the_dom: "(\<lambda>i. the (m i)) ` dom m = ran m"
proof -
  have "x \<in> (\<lambda>i. the (m i)) ` dom m \<longleftrightarrow> (\<exists>i. m i = Some x)" for x
    unfolding image_iff dom_def by (metis (mono_tags, lifting) mem_Collect_eq option.distinct(1) option.sel option.exhaust_sel)
  then show ?thesis unfolding ran_def by blast
qed

lemma pass_indices:
  assumes "stable_digraph G" "pass_ok G nodes p" "distinct idxs" "set idxs = dom (dp_infos p)"
  shows "set (map (\<lambda>i. the (dp_infos p i)) idxs) = set nodes"
    "distinct (map info_key (map (\<lambda>i. the (dp_infos p i)) idxs))"
proof -
  show "set (map (\<lambda>i. the (dp_infos p i)) idxs) = set nodes"
    using assms(2) unfolding pass_ok_def by (simp only: set_map assms(4) image_the_dom)
  have known: "dp_by_key p k = Some i \<longleftrightarrow> (\<exists>info. dp_infos p i = Some info \<and> info_key info = k)" for k i
    using assms(2) unfolding pass_ok_def by blast
  have "i = j" if ij: "i \<in> set idxs" "j \<in> set idxs" "info_key (the (dp_infos p i)) = info_key (the (dp_infos p j))" for i j
  proof -
    obtain a b where "dp_infos p i = Some a" "dp_infos p j = Some b" using ij(1,2) assms(4) by auto
    with ij(3) known [of "info_key a" i] known [of "info_key a" j] show ?thesis by simp
  qed
  then show "distinct (map info_key (map (\<lambda>i. the (dp_infos p i)) idxs))"
    using assms(3) by (simp add: distinct_map inj_on_def)
qed

lemma check_keys_distinct:
  assumes "distinct (map info_key xs)"
  shows "distinct (map (\<lambda>n. (ccn_name n, ccn_tag n)) (sort_key (\<lambda>n. (ccn_name n, ccn_tag n)) (map check_node xs)))"
proof -
  have "distinct (map (\<lambda>n. (ccn_name n, ccn_tag n)) (map check_node xs))"
    using assms by (simp add: check_node_def info_key_def [abs_def] comp_def)
  then show ?thesis unfolding distinct_map distinct_sort set_sort .
qed

lemma cycle_nodes_view:
  assumes "stable_digraph G" "pass_ok G nodes p"
  shows "cycle_nodes G p = check_view nodes"
proof -
  let ?key = "\<lambda>n. (ccn_name n, ccn_tag n)"
  let ?infos = "map (\<lambda>i. the (dp_infos p i)) (node_indices G (dp_graph p))"
  have key: "?key \<circ> check_node = info_key" by (simp add: fun_eq_iff check_node_def info_key_def)
  have idx: "distinct (node_indices G (dp_graph p))" "set (node_indices G (dp_graph p)) = dom (dp_infos p)"
    using stable_digraph_nodes(7,8) [OF assms(1)] assms(2) by (simp_all add: pass_ok_def)
  note infos = pass_indices [OF assms idx]
  have nodes: "distinct (map info_key nodes)" using assms(2) by (simp add: pass_ok_def)
  have view: "cycle_nodes G p = sort_key ?key (map check_node ?infos)"
    by (simp add: cycle_nodes_def check_node_def Let_def comp_def)
  have inj: "inj_on ?key (check_node ` set nodes)"
    using nodes unfolding distinct_map by (intro inj_on_imageI) (simp add: key)
  have sets: "set (map check_node ?infos) = check_node ` set nodes"
    using infos(1) by (simp only: set_map)
  have keys: "distinct (map ?key (sort_key ?key (map check_node xs)))" if "distinct (map info_key xs)" for xs
    using that by (rule check_keys_distinct)
  show ?thesis
    unfolding view check_view_def
  proof (rule map_sorted_distinct_set_unique [where f = ?key])
    show "inj_on ?key (set (sort_key ?key (map check_node ?infos)) \<union> set (sort_key ?key (map check_node nodes)))"
      using inj by (simp only: set_sort sets) (simp only: set_map Un_absorb)
    show "distinct (map ?key (sort_key ?key (map check_node ?infos)))"
      "distinct (map ?key (sort_key ?key (map check_node nodes)))"
      by (rule keys [OF infos(2)], rule keys [OF nodes])
    show "set (sort_key ?key (map check_node ?infos)) = set (sort_key ?key (map check_node nodes))"
      unfolding set_sort sets by simp
  qed simp_all
qed

lemma check_view_distinct:
  "distinct (map info_key nodes) \<Longrightarrow> distinct (identities (check_view nodes))"
  unfolding identities_def check_view_def by (rule check_keys_distinct)

lemma order_respects_depends:
  assumes "stable_digraph G" "pass_ok G nodes p"
    "\<forall>(a, b) \<in> edge_set G (add_dep_edges G p). precedes order a b" "(a, b) \<in> local_depends nodes"
  shows "precedes (map info_key (map (\<lambda>i. the (dp_infos p i)) order)) a b"
proof -
  obtain x y where xy: "x \<in> set nodes" "y \<in> set nodes" "a = info_key x" "b = info_key y"
    using assms(4) unfolding local_depends_def by blast
  have "ran (dp_infos p) = set nodes" using assms(2) by (simp add: pass_ok_def)
  with xy(1,2) have "x \<in> ran (dp_infos p)" "y \<in> ran (dp_infos p)" by simp_all
  then obtain i j where ij: "dp_infos p i = Some x" "dp_infos p j = Some y"
    unfolding ran_def by blast
  then have "(i, j) \<in> edge_set G (add_dep_edges G p)"
    unfolding edges_are_local_depends [OF assms(1,2)] using assms(4) xy(3,4) by blast
  with assms(3) have "precedes order i j" by blast
  from precedes_map [OF this, of "\<lambda>i. info_key (the (dp_infos p i))"] ij xy(3,4) show ?thesis
    by (simp add: comp_def)
qed

section \<open>The tree of a batch\<close>

text \<open>
  C26: Building the tree of a batch decides exactly. It is refused with the two directories of the first
  node whose \<open>name:tag\<close> another before it has; with a node that transitively depends on itself; or
  for a cycle of calls between the nodes. Otherwise the batch has distinct keys and no cycle of calls,
  and its order holds every node once, each after all its dependencies in the batch.
\<close>

theorem virtual_deptree_exact:
  assumes "topological_sort G toposort" "computes_scc scc"
  shows "case virtual_deptree_build G toposort scc nodes of
      Inr tree \<Rightarrow> distinct (map info_key nodes) \<and> acyclic (calls (check_view nodes)) \<and>
        set (topological_order tree) = set nodes \<and> distinct (map info_key (topological_order tree)) \<and>
        (\<forall>(a, b) \<in> local_depends nodes. precedes (map info_key (topological_order tree)) a b)
    | Inl (DuplicateLocalNode name tag first second) \<Rightarrow>
        (\<exists>pre x y post. nodes = pre @ y # post \<and> distinct (map info_key pre) \<and> x \<in> set pre \<and>
           info_key x = (name, tag) \<and> info_key y = (name, tag) \<and> first = vn_root_dir x \<and> second = vn_root_dir y)
    | Inl (VirtualDeptreeCycle labels) \<Rightarrow> distinct (map info_key nodes) \<and>
        (\<exists>name tag. labels = [edge_label name tag] \<and> ((name, tag), (name, tag)) \<in> (local_depends nodes)\<^sup>+)
    | Inl (DeptreeCallCycle _ _ _) \<Rightarrow> distinct (map info_key nodes) \<and> \<not> acyclic (calls (check_view nodes))"
proof -
  have stable: "stable_digraph G" using assms(1) by (rule topological_sort.graph_laws)
  note pass = register_nodes_outcome [OF stable empty_pass_ok [OF stable], of nodes, unfolded append_Nil]
  show ?thesis
  proof (cases "register_nodes G nodes (empty_pass G)")
    case (Inl e)
    with pass obtain pre x y post where "nodes = pre @ y # post" "distinct (map info_key pre)" "x \<in> set pre"
      "info_key x = info_key y"
      "e = DuplicateLocalNode (fst (info_key y)) (snd (info_key y)) (vn_root_dir x) (vn_root_dir y)" by auto
    with Inl show ?thesis by (simp add: virtual_deptree_build_def) (metis prod.collapse)
  next
    case (Inr p)
    with pass have ok: "pass_ok G nodes p" by simp
    let ?g = "add_dep_edges G p"
    have keys: "distinct (map info_key nodes)" using ok by (simp add: pass_ok_def)
    have dom: "dom (node_weight G ?g) = dom (dp_infos p)"
      using ok add_dep_edges_facts(1) [OF stable ok] by (simp add: pass_ok_def)
    have within: "edge_set G ?g \<subseteq> dom (node_weight G ?g) \<times> dom (node_weight G ?g)"
      unfolding dom edges_are_local_depends [OF stable ok] by auto
    have calls: "find_service_action_cycle scc (cycle_nodes G p) = None \<longleftrightarrow> acyclic (calls (check_view nodes))"
      unfolding cycle_nodes_view [OF stable ok]
      by (rule find_cycle_None_iff [OF assms(2) check_view_distinct [OF keys]])
    show ?thesis
    proof (cases "toposort ?g")
      case (Inl i)
      from edge_cycle_is_local [OF stable ok topological_sort.on_cycle [OF assms(1) within Inl]]
      obtain a where a: "dp_infos p i = Some a" "(info_key a, info_key a) \<in> (local_depends nodes)\<^sup>+" by auto
      obtain h where h: "node_weight G ?g i = Some h" using a(1) dom by blast
      then have "info_key a = dp_keys p ! h"
        using ok a(1) add_dep_edges_facts(1) [OF stable ok] unfolding pass_ok_def by metis
      moreover obtain name tag where "dp_keys p ! h = (name, tag)" by (cases "dp_keys p ! h")
      ultimately show ?thesis
        using Inl Inr h a(2) keys by (auto simp: virtual_deptree_build_def Let_def)
    next
      case (Inr order)
      let ?infos = "map (\<lambda>i. the (dp_infos p i)) order"
      from topological_sort.sorted_order [OF assms(1) within Inr]
      have order: "distinct order" "set order = dom (dp_infos p)" "\<forall>(a, b) \<in> edge_set G ?g. precedes order a b"
        unfolding dom by blast+
      note infos = pass_indices [OF stable ok order(1,2)]
      have "precedes (map info_key ?infos) a b" if "(a, b) \<in> local_depends nodes" for a b
        by (rule order_respects_depends [OF stable ok order(3) that])
      with infos keys calls Inr \<open>register_nodes G nodes (empty_pass G) = Inr p\<close> show ?thesis
        by (auto simp: virtual_deptree_build_def Let_def topological_order_def split: option.split
            simp del: map_map)
    qed
  qed
qed

definition sample_local_node :: "string \<Rightarrow> string list \<Rightarrow> virtual_node_info" where
  "sample_local_node name deps =
     \<lparr>vn_root_dir = ''/work/'' @ name,
      vn_config =
        \<lparr>nc_manifest =
           \<lparr>m_name = name, m_tag = ''v1'', m_implements = [],
            m_depends_on = Some
              \<lparr>dep_nodes = map (\<lambda>d. \<lparr>nd_name = d, nd_tag = ''v1'', nd_link_id = d, nd_cardinality = One\<rparr>) deps,
               dep_contracts = [], dep_daemon = [], dep_pairings = [], dep_observers = []\<rparr>\<rparr>,
         nc_interfaces = \<lparr>topics = None, services = None, actions = None\<rparr>, nc_container = False\<rparr>\<rparr>"

lemma sample_batch:
  fixes batch defines "batch \<equiv> [sample_local_node ''arm'' [''base'', ''gps''], sample_local_node ''base'' []]"
  shows "map info_key batch = [(''arm'', ''v1''), (''base'', ''v1'')]"
    "local_depends batch = {((''base'', ''v1''), (''arm'', ''v1''))}" "calls (check_view batch) = {}"
proof -
  show keys: "map info_key batch = [(''arm'', ''v1''), (''base'', ''v1'')]"
    by (simp add: batch_def info_key_def sample_local_node_def)
  have deps: "node_dep_keys (vn_config (sample_local_node n ds)) = map (\<lambda>d. (d, ''v1'')) ds" for n ds
    by (simp add: node_dep_keys_def sample_local_node_def)
  have key: "info_key (sample_local_node n ds) = (n, ''v1'')" for n ds
    by (simp add: info_key_def sample_local_node_def)
  show "local_depends batch = {((''base'', ''v1''), (''arm'', ''v1''))}"
    by (auto simp: local_depends_def batch_def deps key
        intro!: exI [of _ "sample_local_node ''arm'' [''base'', ''gps'']"])
  have "nc_interfaces (ccn_config n) = \<lparr>topics = None, services = None, actions = None\<rparr>"
    if "n \<in> set (check_view batch)" for n
    using that by (auto simp: check_view_def check_node_def batch_def sample_local_node_def)
  then have "\<not> consumes_call (nc_interfaces (ccn_config (check_view batch ! i))) link"
    if "i < length (check_view batch)" for i link
    using that by (auto simp: consumes_call_def consumed_def section_of_def or_default_def split: interface_kind.splits)
  then show "calls (check_view batch) = {}" unfolding calls_def by blast
qed

theorem virtual_deptree_exact_witness:
  "\<exists>tree. virtual_deptree_build slab_graph slab_toposort closure_scc
      [sample_local_node ''arm'' [''base'', ''gps''], sample_local_node ''base'' []] = Inr tree \<and>
    precedes (map info_key (topological_order tree)) (''base'', ''v1'') (''arm'', ''v1'')"
proof -
  let ?batch = "[sample_local_node ''arm'' [''base'', ''gps''], sample_local_node ''base'' []]"
  let ?r = "virtual_deptree_build slab_graph slab_toposort closure_scc ?batch"
  note exact = virtual_deptree_exact [OF slab_sort.topological_sort_axioms closure_scc_computes, of ?batch]
  have dist: "distinct (map info_key ?batch)" unfolding sample_batch(1) by simp
  have no_cycle: "(k, k) \<notin> (local_depends ?batch)\<^sup>+" for k
    unfolding sample_batch(2) by (auto elim: tranclE dest: tranclD)
  show ?thesis
  proof (cases ?r)
    case (Inr tree)
    with exact show ?thesis unfolding sample_batch(2) by simp
  next
    case (Inl e)
    show ?thesis
    proof (cases e)
      case (DuplicateLocalNode name tag first second)
      with exact Inl obtain pre x y post where "?batch = pre @ y # post" "x \<in> set pre" "info_key x = info_key y"
        by auto
      then have "\<not> distinct (map info_key ?batch)" by (metis append_is_Nil_conv distinct.simps(2) distinct_append
        image_eqI list.simps(9) map_append set_map disjoint_iff list.set_intros(1))
      with dist show ?thesis by blast
    next
      case (VirtualDeptreeCycle labels)
      with exact Inl no_cycle show ?thesis by auto
    next
      case (DeptreeCallCycle a b c)
      with exact Inl show ?thesis unfolding sample_batch(3) by (simp add: acyclic_def)
    qed
  qed
qed

end
