(* ===== verification/Spec2Isabelle.thy ===== *)
theory Spec2Isabelle
  imports Crash_Loop Stack_Samples Stack_Edits Serialized_Graph Datastore Call_Check Subscription_Buffer Virtual_Deptree
begin

text \<open>
  A verification of the core of peppy: the node stack that a daemon keeps, the supervision of the
  instances it runs, the dependency and pairing graphs over them, the messages and call proofs that
  nodes and daemons exchange, and the key/value store of the daemon. Paths below are under \<open>src/\<close>.

  \<^bold>\<open>The program.\<close> A daemon (a \<^emph>\<open>core node\<close>) holds a stack of nodes. A node is described by a manifest
  with its dependencies and interfaces (\<open>peppy-shared/peppy-config-model/src/node\<close>). The stack
  (\<open>crates/node-stack-internal/src/node_stack.rs\<close>) is a graph of shared entities, each behind a lock of
  its own (\<open>node_stack/entity.rs\<close>). An entity is built and then started as instances, whose exits are
  recorded, counted and restarted by policy (\<open>node_stack/supervision.rs\<close>). Slots of running instances
  are paired (\<open>node_stack/pairing.rs\<close>). Nodes and daemons talk over key expressions
  (\<open>peppy-shared/peppy-messaging-interface/src/wire.rs\<close>, \<open>wire/zenoh_format.rs\<close>), a subscription is read
  through a bounded buffer (\<open>subscription_buffer.rs\<close>), and a daemon checks who sent each call
  (\<open>call_proof.rs\<close>, \<open>crates/auth-internal/src/machine_proof.rs\<close>,
  \<open>crates/core-node-internal/src/services/credentials.rs\<close>). Its data store
  (\<open>services/datastore.rs\<close>) ties a key to the process that owns it, which it looks up in the stack.

  \<^bold>\<open>How the sources are translated.\<close> A struct is a record and an enum a datatype. A fallible function
  returns a sum with its error on the left; a place where the code would panic is \<open>None\<close>, and a lemma
  shows it is not reached. Integers keep their width as words where they can overflow. A string is the
  list of its UTF-8 bytes, as characters. Code behind a lock is one function for each section of the
  lock, so that a whole operation is a composition of sections. What other tasks do in between is an
  argument of the operation, or a step of a relation or of a schedule that interleaves them. Clocks,
  random nonces, new keys and the outcome of file and process operations are arguments. Shared
  allocations whose identity matters have addresses.

  \<^bold>\<open>Parameters.\<close> Crates outside the sources are records of operations with the documented behaviour as a
  named predicate or locale:
  \<^item> petgraph: \<open>petgraph\<close> with \<open>stable_digraph\<close> (instance \<open>slab_graph\<close>), \<open>computes_scc\<close> for \<open>tarjan_scc\<close>
    (\<open>closure_scc\<close>), and the locale \<open>topological_sort\<close> (\<open>slab_toposort\<close>);
  \<^item> flume: the locales \<open>flume_channel\<close> and \<open>feedback_channel\<close> (\<open>vec_flume\<close>);
  \<^item> ring: \<open>ed25519_ops\<close> with \<open>ed25519_laws\<close> (instance \<open>length_ed25519\<close>);
  \<^item> webpki, x509-parser, serde_json and base64: \<open>pki\<close>, on which the theorems assume nothing; the lemmas on
    the encoding of machine proofs assume the round trips \<open>pki_laws\<close>;
  \<^item> zenoh: its check of a key expression, a predicate that the namespace parser takes.

  \<^bold>\<open>Shared theories.\<close> \<open>Prelude\<close> has the integers, time, decimal text and the edits of vectors;
  \<open>Bytes_Text\<close> has results, splitting and joining of text, and big-endian bytes.

  \<^bold>\<open>Instances and entities.\<close>
  \<^item> \<open>Restart_Policy\<close> (\<open>node/restart.rs\<close>, \<open>daemon-config-internal/src/launcher/restart.rs\<close>): round trip of
    the declarations, and which level decides.
  \<^item> \<open>Runtime_Types\<close> and \<open>Node_Config\<close> (\<open>runtime.rs\<close>, \<open>node/types.rs\<close>, \<open>node/validation.rs\<close>): the data, and
    exactly which manifests the dependency validation accepts.
  \<^item> \<open>Supervision\<close> and \<open>Node_Instance\<close> (\<open>node_stack/supervision.rs\<close>, \<open>TrackedNodeInstance\<close>): the backoff and its
    bounds, the verdict of an exit on every branch, the slot invariant and the life cycle
    \<open>legal_move\<close>.
  \<^item> \<open>Node_Entity\<close> (\<open>NodeEntity\<close>): builds, starts, commits, exits, claims and removals. \<open>Entity_Lifecycle\<close> has
    the locale \<open>slot_edit\<close>, which each edit of a slot interprets, and the relation \<open>entity_step\<close> with one
    rule for each lock section: in every interleaving ids stay distinct, slots keep their
    invariant and move along the life cycle. \<open>Instance_Starts\<close> and \<open>Instance_Restarts\<close> follow a
    start, its failure, a stop, and an exit with its respawn from end to end. \<open>Crash_Loop\<close> repeats exit
    and respawn on the entity and counts the restarts a cap allows.

  \<^bold>\<open>The stack.\<close>
  \<^item> \<open>Service_Action_Cycle\<close> (\<open>service_action_cycle.rs\<close>) and \<open>Virtual_Deptree\<close> (\<open>virtual_deptree.rs\<close>): the checks
    refuse exactly the cyclic inputs, and an accepted batch is ordered after its dependencies.
  \<^item> \<open>Petgraph\<close>, \<open>Node_Stack\<close>, \<open>Stack_Wiring\<close> and \<open>Stack_Operations\<close> (\<open>node_stack.rs\<close>): in every run of the stack
    the edges are the declared dependencies and the pending requirements are the missing ones. The
    operations refine updates of a map from keys to entities.
  \<^item> \<open>Pairing\<close> and \<open>Stack_Pairing\<close>: when a pair is made, and that the registry never holds one twice.
    \<open>Serialized_Graph\<close>: the graph that is shown is the stack.
  \<^item> \<open>Stack_Edits\<close>: the calls that reach an instance by its id are steps of its entity.
    \<open>Stack_Samples\<close>: the stacks at which the theorems are applied.

  \<^bold>\<open>Messages, calls and the data store.\<close>
  \<^item> \<open>Wire_Address\<close>, \<open>Wire_Format\<close> and \<open>Wire_Routing\<close>: constructors accept exactly the well-formed addresses, the matcher
    of \<open>adapters/mock.rs\<close> decides whether two expressions share a key, and topics, calls, action
    feedback and presence reach exactly the parties that their addresses name.
  \<^item> \<open>Call_Proof\<close>, \<open>Machine_Proof\<close> and \<open>Call_Check\<close>: encodings are exact, signed bytes determine the statement,
    accepted calls are authentic and fresh, replays are refused, and honest calls are accepted.
  \<^item> \<open>Subscription_Buffer\<close>: the queue keeps the newest messages, the feedback stream loses nothing without
    saying so, and a push returns.
  \<^item> \<open>Datastore\<close>: the store refines a map of live keys, and a key that a live process owns stays its own
    under every interleaving of requests (locale \<open>exclusive_keys\<close>, interpreted on the operations).

  \<^bold>\<open>Bounds.\<close> Loops over data are structural. The retry of \<open>LatestQueue::push\<close> takes the list of what the
  reader does between its tries; two tries are enough for every push by one thread. The retry of \<open>Datastore::with_live_key\<close> takes the list of gaps between its
  sections; two are enough when nobody changes the owner of the key, and no number is enough against a
  writer that changes it in every gap, as in the code. The schedules that interleave tasks have any
  length.

  \<^bold>\<open>What the work showed.\<close> Re-adding a node under the same links can close a call cycle
  (theory \<open>Stack_Samples\<close>). A stale exclusive store binds a key to a process that is gone
  (\<open>stale_exclusive_store_loses_key\<close>). A clock that steps ahead and back admits a replay
  (\<open>clock_step_back_admits_replay\<close>). A node that depends on itself counts as its own dependent
  (\<open>has_dependents_iff\<close>), and a re-add that comes to depend on itself blocks on its own lock.

  \<^bold>\<open>Where the model is coarser.\<close> The removal of files and directories that the code attempts and whose
  errors it ignores always succeeds. The serialized graph is taken of one state of the stack, while
  the code locks the entities one after the other. A feedback stream that overflows is drained and
  signalled in one step, and its reader does not leave in the middle of a delivery. The matcher is the
  one of the in-process adapter, which knows no \<open>$*\<close>.

  \<^bold>\<open>Not modelled.\<close> Compiling, archiving and running nodes, containers and process groups
  (\<open>build_steps.rs\<close>, \<open>run_steps.rs\<close>, \<open>containers-internal\<close>) drive external programs; their outcomes
  are arguments of the entity model. The zenoh session and router, the asynchronous endpoints, the
  other services of the daemon, federation and enrolment are I/O around the parts above. The parsers
  of manifests and launcher files, Cap'n Proto encodings, generated code, the command line, the
  client libraries, the MCP servers, log export and the code generator are left out. Of the parts that
  are modelled, the text of error messages, display forms and logging are left out.
\<close>

end
